(* ===== verification/Prelude.thy ===== *)
theory Prelude
  imports Main "HOL-Library.Word" "HOL-Library.Monad_Syntax" "HOL-Library.Multiset"
begin

text \<open>
  The vocabulary shared by the theories of the development: Go's fixed-width integers, the
  built-in \<open>copy\<close>, the big-endian byte order of \<open>encoding/binary\<close>, the helpers of the
  \<open>slices\<close> package the code calls, and \<open>math/rand.Shuffle\<close>.

  A Go function that can panic is an \<open>option\<close>-valued function; \<open>None\<close> is the panic.
  A Go function that returns an error returns the error as a value.
\<close>

unbundle bit_operations_syntax

named_theorems wire_simps \<open>wire formats: lengths and byte contents of encodings\<close>
named_theorems fsm_simps \<open>evaluation of decoder steps\<close>
named_theorems node_simps \<open>lookups in the member list after an operation\<close>

type_synonym byte = "8 word"
type_synonym u16 = "16 word"
type_synonym u32 = "32 word"

subsection \<open>Go's copy\<close>

text \<open>\<open>copy(dst, src)\<close> overwrites the first \<open>min (len dst) (len src)\<close> elements of
  \<open>dst\<close>; the value is the new content of \<open>dst\<close>.\<close>

definition go_copy :: "'a list \<Rightarrow> 'a list \<Rightarrow> 'a list" where
  "go_copy dst src = take (length dst) src @ drop (length src) dst"

lemma length_go_copy [simp]: "length (go_copy dst src) = length dst"
  by (simp add: go_copy_def)

lemma go_copy_prefix: "length src \<le> length dst \<Longrightarrow> go_copy dst src = src @ drop (length src) dst"
  by (simp add: go_copy_def)

lemma go_copy_same_length: "length src = length dst \<Longrightarrow> go_copy dst src = src"
  by (simp add: go_copy_def)

subsection \<open>encoding/binary.BigEndian\<close>

definition be16 :: "u16 \<Rightarrow> byte list" where
  "be16 v = [ucast (drop_bit 8 v), ucast v]"

definition be32 :: "u32 \<Rightarrow> byte list" where
  "be32 v = [ucast (drop_bit 24 v), ucast (drop_bit 16 v), ucast (drop_bit 8 v), ucast v]"

definition PutUint16 :: "byte list \<Rightarrow> u16 \<Rightarrow> byte list option" where
  "PutUint16 b v = (if length b < 2 then None
     else Some ((b[0 := ucast (drop_bit 8 v)])[1 := ucast v]))"

definition PutUint32 :: "byte list \<Rightarrow> u32 \<Rightarrow> byte list option" where
  "PutUint32 b v = (if length b < 4 then None
     else Some ((((b[0 := ucast (drop_bit 24 v)])[1 := ucast (drop_bit 16 v)])
       [2 := ucast (drop_bit 8 v)])[3 := ucast v]))"

definition Uint16 :: "byte list \<Rightarrow> u16 option" where
  "Uint16 b = (if length b < 2 then None
     else Some (ucast (b ! 1) OR push_bit 8 (ucast (b ! 0))))"

definition Uint32 :: "byte list \<Rightarrow> u32 option" where
  "Uint32 b = (if length b < 4 then None
     else Some (ucast (b ! 3) OR push_bit 8 (ucast (b ! 2))
       OR push_bit 16 (ucast (b ! 1)) OR push_bit 24 (ucast (b ! 0))))"

lemma length_be16 [simp]: "length (be16 v) = 2"
  by (simp add: be16_def)

lemma length_be32 [simp]: "length (be32 v) = 4"
  by (simp add: be32_def)

lemma be16_neq_Nil [simp]: "be16 v \<noteq> []"
  by (simp add: be16_def)

lemma be32_neq_Nil [simp]: "be32 v \<noteq> []"
  by (simp add: be32_def)

lemma PutUint16_eq: "2 \<le> length b \<Longrightarrow> PutUint16 b v = Some (be16 v @ drop 2 b)"
  by (cases b; cases "tl b") (auto simp: PutUint16_def be16_def)

lemma PutUint32_eq:
  assumes "4 \<le> length b"
  shows "PutUint32 b v = Some (be32 v @ drop 4 b)"
proof -
  obtain b0 b1 b2 b3 bs where "b = b0 # b1 # b2 # b3 # bs"
    using assms by (cases b; cases "tl b"; cases "tl (tl b)"; cases "tl (tl (tl b))") auto
  then show ?thesis
    by (simp add: PutUint32_def be32_def numeral_2_eq_2 numeral_3_eq_3)
qed

lemma be16_halves: "ucast (ucast v :: byte) OR push_bit 8 (ucast (ucast (drop_bit 8 v) :: byte)) = (v :: u16)"
  by (rule bit_word_eqI) (auto simp: bit_simps)

lemma Uint16_be16 [simp]: "Uint16 (be16 v) = Some v"
  by (simp add: Uint16_def be16_def be16_halves)

lemma be32_quarters:
  "ucast (ucast v :: byte) OR push_bit 8 (ucast (ucast (drop_bit 8 v) :: byte))
     OR push_bit 16 (ucast (ucast (drop_bit 16 v) :: byte))
     OR push_bit 24 (ucast (ucast (drop_bit 24 v) :: byte)) = (v :: u32)"
proof (rule bit_word_eqI)
  fix n assume "n < LENGTH(32)"
  then show "bit (ucast (ucast v :: byte) OR push_bit 8 (ucast (ucast (drop_bit 8 v) :: byte))
     OR push_bit 16 (ucast (ucast (drop_bit 16 v) :: byte))
     OR push_bit 24 (ucast (ucast (drop_bit 24 v) :: byte)) :: u32) n = bit v n"
    by (cases "n < 16"; cases "n < 24") (auto simp: bit_simps)
qed

lemma Uint32_be32 [simp]: "Uint32 (be32 v) = Some v"
  by (simp add: Uint32_def be32_def be32_quarters numeral_2_eq_2 numeral_3_eq_3)

lemma Uint16_Some: "2 \<le> length b \<Longrightarrow> \<exists>v. Uint16 b = Some v"
  by (simp add: Uint16_def)

lemma Uint32_Some: "4 \<le> length b \<Longrightarrow> \<exists>v. Uint32 b = Some v"
  by (simp add: Uint32_def)


subsection \<open>Flag bits of a byte\<close>

lemma and_one_bit: "(b AND 1 = (1 :: byte)) = bit b 0"
  by (simp add: and_one_eq odd_iff_mod_2_eq_one bit_0)

lemma and_two_bit: "(b AND 2 = (2 :: byte)) = bit b 1"
proof -
  have "b AND 2 = (if bit b 1 then 2 else 0)"
    by (rule bit_word_eqI) (auto simp: bit_simps bit_2_iff)
  then show ?thesis by simp
qed

lemma byte_ge_one: "x \<noteq> 0 \<Longrightarrow> 1 \<le> (x :: byte)"
  by (simp add: word_le_nat_alt unat_gt_0 Suc_le_eq)

lemma unat_lt_64_bit:
  assumes "unat (k :: byte) < 64" and "bit k n"
  shows "n < 6"
proof -
  have "take_bit 6 k = k" using assms(1) by (simp add: word_unat_eq_iff take_bit_eq_mod unat_mod)
  with assms(2) show ?thesis by (metis bit_take_bit_iff)
qed

subsection \<open>The packages slices and math/rand\<close>

text \<open>\<open>slices.Delete\<close> panics on a bad range; \<open>slices.Index\<close> is -1 for a missing element.\<close>

definition slices_Delete :: "'a list \<Rightarrow> nat \<Rightarrow> nat \<Rightarrow> 'a list option" where
  "slices_Delete xs i j = (if i \<le> j \<and> j \<le> length xs then Some (take i xs @ drop j xs) else None)"

fun slices_Index :: "'a list \<Rightarrow> 'a \<Rightarrow> int" where
  "slices_Index [] v = -1"
| "slices_Index (x # xs) v = (if x = v then 0
     else let i = slices_Index xs v in if i = -1 then -1 else i + 1)"

lemma slices_Index_missing: "slices_Index xs v = -1 \<longleftrightarrow> v \<notin> set xs"
  and slices_Index_range: "-1 \<le> slices_Index xs v \<and> slices_Index xs v < int (length xs)"
  by (induction xs) (auto simp: Let_def)

text \<open>Deleting at the index of an element is removing its first occurrence.\<close>

lemma slices_Delete_Index:
  "v \<in> set xs \<Longrightarrow>
   slices_Delete xs (nat (slices_Index xs v)) (nat (slices_Index xs v) + 1) = Some (remove1 v xs)"
proof (induction xs)
  case Nil
  then show ?case by simp
next
  case (Cons x xs)
  show ?case
  proof (cases "x = v")
    case True
    then show ?thesis by (simp add: slices_Delete_def)
  next
    case False
    then have v: "v \<in> set xs" using Cons.prems by simp
    then have "slices_Index xs v \<noteq> -1" using slices_Index_missing by metis
    then have i: "0 \<le> slices_Index xs v" using slices_Index_range [of xs v] by simp
    then have "nat (slices_Index (x # xs) v) = Suc (nat (slices_Index xs v))"
      using False by (simp add: Let_def nat_add_distrib)
    with Cons.IH [OF v] False show ?thesis
      by (auto simp: slices_Delete_def split: if_splits simp del: slices_Index.simps)
  qed
qed

text \<open>\<open>rand.Shuffle\<close> walks down from the last index and swaps it with a random one at or below it. The
  random source is \<open>rnd\<close>.\<close>

definition swap :: "'a list \<Rightarrow> nat \<Rightarrow> nat \<Rightarrow> 'a list" where
  "swap xs i j = (xs[i := xs ! j])[j := xs ! i]"

fun Shuffle_from :: "(nat \<Rightarrow> nat) \<Rightarrow> nat \<Rightarrow> 'a list \<Rightarrow> 'a list" where
  "Shuffle_from rnd 0 xs = xs"
| "Shuffle_from rnd (Suc i) xs = Shuffle_from rnd i (swap xs (Suc i) (rnd (Suc i) mod (Suc i + 1)))"

definition Shuffle :: "(nat \<Rightarrow> nat) \<Rightarrow> 'a list \<Rightarrow> 'a list" where
  "Shuffle rnd xs = Shuffle_from rnd (length xs - 1) xs"

lemma length_swap [simp]: "length (swap xs i j) = length xs"
  by (simp add: swap_def)

lemma mset_swap_at: "i < length xs \<Longrightarrow> j < length xs \<Longrightarrow> mset (swap xs i j) = mset xs"
  unfolding swap_def by (rule mset_swap)

lemma mset_Shuffle_from: "n < length xs \<Longrightarrow> mset (Shuffle_from rnd n xs) = mset xs"
proof (induction n arbitrary: xs)
  case 0
  then show ?case by simp
next
  case (Suc n)
  let ?j = "rnd (Suc n) mod (Suc n + 1)"
  have "?j < length xs" using Suc.prems mod_less_divisor [of "Suc n + 1" "rnd (Suc n)"] by linarith
  with Suc show ?case by (simp add: mset_swap_at)
qed

lemma mset_Shuffle [simp]: "mset (Shuffle rnd xs) = mset xs"
  by (cases xs) (auto simp: Shuffle_def mset_Shuffle_from)

lemma set_Shuffle [simp]: "set (Shuffle rnd xs) = set xs"
  by (metis mset_Shuffle set_mset_mset)

lemma distinct_Shuffle [simp]: "distinct (Shuffle rnd xs) = distinct xs"
  by (metis mset_Shuffle mset_eq_imp_distinct_iff)

end
