(* ===== verification/Fsm.thy ===== *)
theory Fsm
  imports Prelude
begin

text \<open>
  The generic byte-fed decoder of \<open>internal/fsm\<close>: the record \<open>FSM\<close> and its operations
  (\<open>fsm.go\<close>), the definition record \<open>Def\<close> and \<open>New\<close> (\<open>fsm_def.go\<close>), and the error values
  the decoders return (\<open>errors.go\<close> and \<open>internal/proto/error.go\<close>).

  The fields \<open>newT\<close> and \<open>resetC\<close> stand for what Go derives from the type arguments: \<open>new(T)\<close>
  and the \<open>Reset\<close> method of a context that implements \<open>Resetter\<close> (the identity for one that does
  not). The delegate \<open>feedFn\<close> is an argument of \<open>Feed\<close> instead of a field, as a HOL record cannot
  hold a function over itself. The byte order is big-endian: no definition sets another one.

  The locales state what the users of a decoder rely on: \<open>stream_decoder\<close> (an encoding is decoded
  to its value, and the decoder is ready for the next one), \<open>safe_decoder\<close> (no input makes it panic
  and it only yields acceptable values) and \<open>delegation\<close> (an outer decoder that hands each byte to an
  inner one).
\<close>

subsection \<open>Errors\<close>

datatype go_error =
    Done
  | NoDecoderError byte
  | NoEventDecoderError byte
  | CouldNotParsePacketErr

subsection \<open>The machine\<close>

record ('t, 's, 'c) FSM =
  Value :: 't
  Size :: int
  Payload :: "byte list"
  initialSize :: int
  initialState :: 's
  newT :: 't
  resetC :: "'c \<Rightarrow> 'c"
  fstate :: 's
  fcontext :: 'c
  currentByte :: byte
  mustSatisfySize :: bool

type_synonym ('t, 's, 'c) feedFn =
  "('t, 's, 'c) FSM \<Rightarrow> 's \<Rightarrow> byte \<Rightarrow> (go_error option \<times> ('t, 's, 'c) FSM) option"

definition Append :: "('t, 's, 'c) FSM \<Rightarrow> ('t, 's, 'c) FSM" where
  "Append i = i\<lparr>Payload := Payload i @ [currentByte i], Size := Size i - 1\<rparr>"

definition ResetPayload :: "('t, 's, 'c) FSM \<Rightarrow> ('t, 's, 'c) FSM" where
  "ResetPayload i = i\<lparr>Payload := []\<rparr>"

definition SatisfySize :: "('t, 's, 'c) FSM \<Rightarrow> ('t, 's, 'c) FSM" where
  "SatisfySize i = i\<lparr>mustSatisfySize := True\<rparr>"

definition Init :: "('t, 's, 'c) FSM \<Rightarrow> ('t, 's, 'c) FSM" where
  "Init i = (let i = i\<lparr>Size := initialSize i, mustSatisfySize := False\<rparr>;
       i = (if initialSize i \<noteq> 0 then SatisfySize i else i);
       i = i\<lparr>fcontext := resetC i (fcontext i)\<rparr>;
       i = i\<lparr>currentByte := 0, fstate := initialState i\<rparr>;
       i = ResetPayload i
     in i\<lparr>Value := newT i\<rparr>)"

definition Reset :: "('t, 's, 'c) FSM \<Rightarrow> ('t, 's, 'c) FSM" where
  "Reset i = Init i"

definition SizeSatisfied :: "('t, 's, 'c) FSM \<Rightarrow> bool \<times> ('t, 's, 'c) FSM" where
  "SizeSatisfied i = (let i = Append i in (Size i = 0, i))"

definition FeedStep :: "('t, 's, 'c) feedFn \<Rightarrow> ('t, 's, 'c) FSM \<Rightarrow> byte
    \<Rightarrow> ('t option \<times> go_error option \<times> ('t, 's, 'c) FSM) option" where
  "FeedStep feedFn i b = do {
     (err, i) \<leftarrow> feedFn i (fstate i) b;
     if err = Some Done then Some (Some (Value i), None, Reset i)
     else Some (None, None, i)
   }"

definition Feed :: "('t, 's, 'c) feedFn \<Rightarrow> ('t, 's, 'c) FSM \<Rightarrow> byte
    \<Rightarrow> ('t option \<times> go_error option \<times> ('t, 's, 'c) FSM) option" where
  "Feed feedFn i b = (let i = i\<lparr>currentByte := b\<rparr> in
     if mustSatisfySize i then
       (let (satisfied, i) = SizeSatisfied i in
        if \<not> satisfied then Some (None, None, i)
        else FeedStep feedFn (i\<lparr>mustSatisfySize := False\<rparr>) b)
     else FeedStep feedFn i b)"

definition TransitionSize :: "('t, 's, 'c) FSM \<Rightarrow> 's \<Rightarrow> int \<Rightarrow> ('t, 's, 'c) FSM" where
  "TransitionSize i nxt sz = ResetPayload (i\<lparr>Size := sz, fstate := nxt\<rparr>)"

definition Transition :: "('t, 's, 'c) FSM \<Rightarrow> 's \<Rightarrow> ('t, 's, 'c) FSM" where
  "Transition i nxt = TransitionSize i nxt 0"

definition TransitionSatisfySize :: "('t, 's, 'c) FSM \<Rightarrow> 's \<Rightarrow> int \<Rightarrow> ('t, 's, 'c) FSM" where
  "TransitionSatisfySize i nxt sz = SatisfySize (TransitionSize i nxt sz)"

definition U16 :: "('t, 's, 'c) FSM \<Rightarrow> u16 option" where
  "U16 i = Uint16 (Payload i)"

definition U32 :: "('t, 's, 'c) FSM \<Rightarrow> u32 option" where
  "U32 i = Uint32 (Payload i)"

definition CopyPayload :: "('t, 's, 'c) FSM \<Rightarrow> byte list \<Rightarrow> byte list" where
  "CopyPayload i into = go_copy into (Payload i)"

subsection \<open>Definitions of machines\<close>

text \<open>\<open>NewC\<close> is \<open>new(C)\<close>, after \<open>Init\<close> where the context implements \<open>Initializer\<close>. \<open>Prepare\<close> is
  the identity where the source leaves it nil.\<close>

record ('t, 's, 'c) Def =
  InitialSize :: int
  InitialState :: 's
  NewT :: 't
  NewC :: 'c
  ResetC :: "'c \<Rightarrow> 'c"
  DefFeed :: "('t, 's, 'c) feedFn"
  DefPrepare :: "('t, 's, 'c) FSM \<Rightarrow> ('t, 's, 'c) FSM"

definition New :: "('t, 's, 'c) Def \<Rightarrow> ('t, 's, 'c) FSM" where
  "New d = Init \<lparr>Value = NewT d, Size = 0, Payload = [], initialSize = InitialSize d,
     initialState = InitialState d, newT = NewT d, resetC = ResetC d, fstate = InitialState d,
     fcontext = NewC d, currentByte = 0, mustSatisfySize = False\<rparr>"

definition Prepare :: "('t, 's, 'c) Def \<Rightarrow> ('t, 's, 'c) FSM \<Rightarrow> ('t, 's, 'c) FSM" where
  "Prepare d f = DefPrepare d f"

lemmas fsm_op_defs [fsm_simps] = Append_def ResetPayload_def SatisfySize_def Reset_def
  SizeSatisfied_def TransitionSize_def Transition_def TransitionSatisfySize_def U16_def U32_def
  CopyPayload_def Let_def

lemma Init_eq [fsm_simps]:
  "Init i = i\<lparr>Size := initialSize i, mustSatisfySize := (initialSize i \<noteq> 0),
     fcontext := resetC i (fcontext i), currentByte := 0, fstate := initialState i,
     Payload := [], Value := newT i\<rparr>"
  by (simp add: Init_def ResetPayload_def SatisfySize_def Let_def)

lemma New_eq [fsm_simps]:
  "New d = \<lparr>Value = NewT d, Size = InitialSize d, Payload = [], initialSize = InitialSize d,
     initialState = InitialState d, newT = NewT d, resetC = ResetC d, fstate = InitialState d,
     fcontext = ResetC d (NewC d), currentByte = 0, mustSatisfySize = (InitialSize d \<noteq> 0)\<rparr>"
  by (simp add: New_def Init_eq)

subsection \<open>One byte\<close>

text \<open>The error component of \<open>Feed\<close> is always nil, whatever the delegate returned: the error a
  delegate returns is dropped.\<close>

lemma FeedStep_error_nil: "FeedStep F f b = Some (v, err, f') \<Longrightarrow> err = None"
  by (auto simp: FeedStep_def split: Option.bind_splits if_splits)

lemma Feed_error_nil_aux: "Feed F f b = Some (v, err, f') \<Longrightarrow> err = None"
  by (auto simp: Feed_def Let_def SizeSatisfied_def dest: FeedStep_error_nil split: if_splits)

lemma Feed_accumulate:
  "mustSatisfySize f \<Longrightarrow> Size f \<noteq> 1 \<Longrightarrow>
   Feed F f b = Some (None, None, f\<lparr>currentByte := b, Payload := Payload f @ [b], Size := Size f - 1\<rparr>)"
  by (simp add: Feed_def fsm_op_defs)

lemma Feed_satisfied:
  "mustSatisfySize f \<Longrightarrow> Size f = 1 \<Longrightarrow>
   Feed F f b = FeedStep F (f\<lparr>currentByte := b, Payload := Payload f @ [b], Size := 0,
     mustSatisfySize := False\<rparr>) b"
  by (simp add: Feed_def fsm_op_defs)

lemma Feed_direct: "\<not> mustSatisfySize f \<Longrightarrow> Feed F f b = FeedStep F (f\<lparr>currentByte := b\<rparr>) b"
  by (simp add: Feed_def)

subsection \<open>A sequence of bytes\<close>

text \<open>A decoder is used through its step: one byte in; a value or nil, an error and the decoder out.
  \<open>Feed feedFn\<close> is such a step, and so is \<open>FeedAny\<close> of the decoders that hide their types.
  \<open>Drive\<close> is the loop every user of a decoder runs: it feeds bytes until a value comes out.\<close>

type_synonym ('v, 'm) step = "'m \<Rightarrow> byte \<Rightarrow> ('v option \<times> go_error option \<times> 'm) option"

fun Drive :: "('v, 'm) step \<Rightarrow> 'm \<Rightarrow> byte list \<Rightarrow> (('v \<times> byte list) option \<times> 'm) option" where
  "Drive S f [] = Some (None, f)"
| "Drive S f (b # bs) = (case S f b of None \<Rightarrow> None
     | Some (Some t, _, f') \<Rightarrow> Some (Some (t, bs), f')
     | Some (None, _, f') \<Rightarrow> Drive S f' bs)"

text \<open>All the values a stream yields, in order, and the decoder at its end.\<close>

fun DriveAll :: "('v, 'm) step \<Rightarrow> 'm \<Rightarrow> byte list \<Rightarrow> ('v list \<times> 'm) option" where
  "DriveAll S f [] = Some ([], f)"
| "DriveAll S f (b # bs) = (case S f b of None \<Rightarrow> None
     | Some (v, _, f') \<Rightarrow> (case DriveAll S f' bs of None \<Rightarrow> None
         | Some (vs, g) \<Rightarrow> Some ((case v of None \<Rightarrow> vs | Some x \<Rightarrow> x # vs), g)))"

text \<open>What \<open>Drive\<close> does with the bytes \<open>ys\<close> once the delegate has returned \<open>r\<close>.\<close>

definition After :: "('t, 's, 'c) feedFn \<Rightarrow> (go_error option \<times> ('t, 's, 'c) FSM) option \<Rightarrow> byte list
    \<Rightarrow> (('t \<times> byte list) option \<times> ('t, 's, 'c) FSM) option" where
  "After F r ys = (case r of None \<Rightarrow> None
     | Some (err, f) \<Rightarrow> if err = Some Done then Some (Some (Value f, ys), Reset f) else Drive (Feed F) f ys)"

lemma After_simps [fsm_simps]:
  "After F None ys = None"
  "After F (Some (Some Done, f)) ys = Some (Some (Value f, ys), Reset f)"
  "err \<noteq> Some Done \<Longrightarrow> After F (Some (err, f)) ys = Drive (Feed F) f ys"
  by (simp_all add: After_def)

lemma Drive_direct:
  "\<not> mustSatisfySize f \<Longrightarrow>
   Drive (Feed F) f (b # bs) = After F (F (f\<lparr>currentByte := b\<rparr>) (fstate f) b) bs"
  by (auto simp: Feed_direct FeedStep_def After_def split: option.split prod.split)

lemma Drive_satisfied:
  "mustSatisfySize f \<Longrightarrow> Size f = 1 \<Longrightarrow>
   Drive (Feed F) f (b # bs) = After F (F (f\<lparr>currentByte := b, Payload := Payload f @ [b], Size := 0,
     mustSatisfySize := False\<rparr>) (fstate f) b) bs"
  by (auto simp: Feed_satisfied FeedStep_def After_def split: option.split prod.split)

text \<open>A block of exactly the required size reaches the delegate in one call.\<close>

lemma Drive_block:
  assumes "mustSatisfySize f" and "Size f = int (length xs)" and "xs \<noteq> []"
  shows "Drive (Feed F) f (xs @ ys) = After F (F (f\<lparr>currentByte := last xs, Payload := Payload f @ xs,
     Size := 0, mustSatisfySize := False\<rparr>) (fstate f) (last xs)) ys"
  using assms
proof (induction xs arbitrary: f)
  case Nil
  then show ?case by simp
next
  case (Cons x xs)
  show ?case
  proof (cases "xs = []")
    case True
    with Cons.prems show ?thesis by (simp add: Drive_satisfied del: Drive.simps)
  next
    case False
    let ?f = "f\<lparr>currentByte := x, Payload := Payload f @ [x], Size := Size f - 1\<rparr>"
    from False Cons.prems have "Drive (Feed F) f ((x # xs) @ ys) = Drive (Feed F) ?f (xs @ ys)"
      by (simp add: Feed_accumulate)
    also have "\<dots> = After F (F (?f\<lparr>currentByte := last xs, Payload := Payload ?f @ xs,
       Size := 0, mustSatisfySize := False\<rparr>) (fstate ?f) (last xs)) ys"
      using False Cons.prems by (intro Cons.IH) auto
    finally show ?thesis using False by simp
  qed
qed

text \<open>Bytes short of the required size are only collected.\<close>

lemma Drive_collect:
  "mustSatisfySize f \<Longrightarrow> int (length xs) < Size f \<Longrightarrow> xs \<noteq> [] \<Longrightarrow>
   Drive (Feed F) f xs = Some (None, f\<lparr>currentByte := last xs, Payload := Payload f @ xs,
     Size := Size f - int (length xs)\<rparr>)"
proof (induction xs arbitrary: f)
  case Nil
  then show ?case by simp
next
  case (Cons x xs)
  then show ?case by (cases "xs = []") (auto simp: Feed_accumulate)
qed

text \<open>A required size that is not positive is never satisfied: the machine swallows every byte.\<close>

lemma Drive_stuck:
  "mustSatisfySize f \<Longrightarrow> Size f \<le> 0 \<Longrightarrow>
   \<exists>f'. Drive (Feed F) f xs = Some (None, f') \<and> mustSatisfySize f' \<and> Size f' = Size f - int (length xs)"
proof (induction xs arbitrary: f)
  case Nil
  then show ?case by simp
next
  case (Cons x xs)
  let ?f = "f\<lparr>currentByte := x, Payload := Payload f @ [x], Size := Size f - 1\<rparr>"
  from Cons.prems have "Drive (Feed F) f (x # xs) = Drive (Feed F) ?f xs"
    by (simp add: Feed_accumulate)
  moreover have "\<exists>f'. Drive (Feed F) ?f xs = Some (None, f') \<and> mustSatisfySize f'
      \<and> Size f' = Size ?f - int (length xs)"
    using Cons.prems by (intro Cons.IH) auto
  ultimately show ?case by auto
qed

lemma Drive_consumes: "Drive S f xs = Some (Some (v, ys), f') \<Longrightarrow> \<exists>zs. zs \<noteq> [] \<and> xs = zs @ ys"
proof (induction xs arbitrary: f)
  case Nil
  then show ?case by simp
next
  case (Cons x xs)
  then show ?case
    by (fastforce split: option.splits intro: exI [of _ "[x]"] exI [of _ "x # _"])
qed

text \<open>A decoder behind a constructor runs like the decoder itself.\<close>

lemma Drive_wrapped:
  assumes "\<And>g b. S (C g) b = map_option (\<lambda>(v, e, g). (map_option V v, e, C g)) (T g b)"
  shows "Drive S (C g) xs = map_option (\<lambda>(r, g). (map_option (\<lambda>(v, ys). (V v, ys)) r, C g)) (Drive T g xs)"
  by (induction xs arbitrary: g) (auto simp: assms split: option.splits)

lemma DriveAll_Drive:
  "Drive S f (xs @ ys) = Some (Some (v, ys), f') \<Longrightarrow>
   DriveAll S f (xs @ ys) = (case DriveAll S f' ys of None \<Rightarrow> None | Some (vs, g) \<Rightarrow> Some (v # vs, g))"
proof (induction xs arbitrary: f)
  case Nil
  then obtain zs where "zs \<noteq> []" and "ys = zs @ ys"
    using Drive_consumes by fastforce
  then show ?case by simp
next
  case (Cons x xs)
  show ?case
  proof (cases "S f x")
    case None
    with Cons.prems show ?thesis by simp
  next
    case (Some r)
    obtain w e g where r: "r = (w, e, g)" by (cases r)
    show ?thesis
    proof (cases w)
      case None
      with Some r Cons.prems have "Drive S g (xs @ ys) = Some (Some (v, ys), f')" by simp
      then have "DriveAll S g (xs @ ys) = (case DriveAll S f' ys of None \<Rightarrow> None | Some (vs, g) \<Rightarrow> Some (v # vs, g))"
        by (rule Cons.IH)
      with Some r None show ?thesis by (auto split: option.splits)
    next
      case (Some u)
      with \<open>S f x = Some r\<close> r Cons.prems show ?thesis by (auto split: option.split)
    qed
  qed
qed

subsection \<open>Waiting for a block\<close>

text \<open>A machine that waits for \<open>n\<close> bytes in all, some of which it may have.\<close>

definition pending :: "('t, 's, 'c) FSM \<Rightarrow> nat \<Rightarrow> bool" where
  "pending f n \<longleftrightarrow> mustSatisfySize f \<and> Size f + int (length (Payload f)) = int n"

text \<open>The fields a machine keeps from its definition.\<close>

definition of_def :: "('t, 's, 'c) Def \<Rightarrow> ('t, 's, 'c) FSM \<Rightarrow> bool" where
  "of_def d f \<longleftrightarrow> initialSize f = InitialSize d \<and> initialState f = InitialState d
     \<and> newT f = NewT d \<and> resetC f = ResetC d"

lemma of_def_New [simp]: "of_def d (New d)"
  by (simp add: of_def_def New_eq)

lemma of_def_updates [simp]:
  "of_def d (f\<lparr>Value := v\<rparr>) = of_def d f" "of_def d (f\<lparr>Size := n\<rparr>) = of_def d f"
  "of_def d (f\<lparr>Payload := p\<rparr>) = of_def d f" "of_def d (f\<lparr>fstate := s\<rparr>) = of_def d f"
  "of_def d (f\<lparr>fcontext := c\<rparr>) = of_def d f" "of_def d (f\<lparr>currentByte := b\<rparr>) = of_def d f"
  "of_def d (f\<lparr>mustSatisfySize := m\<rparr>) = of_def d f"
  by (simp_all add: of_def_def)

lemma of_def_fields:
  "of_def d f \<Longrightarrow> initialSize f = InitialSize d" "of_def d f \<Longrightarrow> initialState f = InitialState d"
  "of_def d f \<Longrightarrow> newT f = NewT d" "of_def d f \<Longrightarrow> resetC f = ResetC d"
  by (simp_all add: of_def_def)

text \<open>What a step may leave behind: without a value the invariant, with one an acceptable value and the
  condition \<open>post\<close> on the decoder.\<close>

definition sound_out :: "('m \<Rightarrow> bool) \<Rightarrow> ('m \<Rightarrow> bool) \<Rightarrow> ('v \<Rightarrow> bool) \<Rightarrow> 'v option \<Rightarrow> 'm \<Rightarrow> bool" where
  "sound_out invar post ok v f = (case v of None \<Rightarrow> invar f | Some x \<Rightarrow> ok x \<and> post f)"

lemma sound_out_simps [simp]:
  "sound_out invar post ok None f = invar f"
  "sound_out invar post ok (Some x) f = (ok x \<and> post f)"
  by (simp_all add: sound_out_def)

text \<open>A byte fed to a waiting machine either completes the block, which then has exactly the required
  length, or is collected.\<close>

lemma safe_pending:
  assumes "pending f n"
    and full: "\<And>p. length p = n \<Longrightarrow> \<exists>v f'. FeedStep F (f\<lparr>currentByte := b, Payload := p, Size := 0,
      mustSatisfySize := False\<rparr>) b = Some (v, None, f') \<and> Q v f'"
    and more: "\<And>p s. s + int (length p) = int n \<Longrightarrow> Q None (f\<lparr>currentByte := b, Payload := p, Size := s\<rparr>)"
  shows "\<exists>v f'. Feed F f b = Some (v, None, f') \<and> Q v f'"
proof (cases "Size f = 1")
  case True
  with assms(1) have "length (Payload f @ [b]) = n" by (simp add: pending_def)
  from full [OF this] True assms(1) show ?thesis by (simp add: Feed_satisfied pending_def)
next
  case False
  with assms(1) more [of "Size f - 1" "Payload f @ [b]"] show ?thesis
    by (simp add: Feed_accumulate pending_def)
qed

lemma safe_direct:
  assumes "\<not> mustSatisfySize f"
    and "\<exists>v f'. FeedStep F (f\<lparr>currentByte := b\<rparr>) b = Some (v, None, f') \<and> Q v f'"
  shows "\<exists>v f'. Feed F f b = Some (v, None, f') \<and> Q v f'"
  using assms by (simp add: Feed_direct)

subsection \<open>Decoders as an interface\<close>

text \<open>A decoder of a stream of encodings: from a \<open>ready\<close> machine the encoding of an acceptable value
  yields that value at its last byte, and leaves the machine \<open>ready\<close>.\<close>

locale stream_decoder =
  fixes S :: "('v, 'm) step"
    and ready :: "'m \<Rightarrow> bool"
    and wf :: "'v \<Rightarrow> bool"
    and enc :: "'v \<Rightarrow> byte list"
  assumes decodes: "ready f \<Longrightarrow> wf v \<Longrightarrow>
    \<exists>f'. ready f' \<and> (\<forall>ys. Drive S f (enc v @ ys) = Some (Some (v, ys), f'))"
begin

lemma DriveAll_concat:
  assumes "ready f" and "\<forall>v \<in> set vs. wf v"
  shows "\<exists>f'. ready f' \<and> DriveAll S f (concat (map enc vs)) = Some (vs, f')"
  using assms
proof (induction vs arbitrary: f)
  case Nil
  then show ?case by auto
next
  case (Cons v vs)
  obtain g where g: "ready g" "Drive S f (enc v @ concat (map enc vs)) = Some (Some (v, concat (map enc vs)), g)"
    using decodes [of f v] Cons.prems by auto
  obtain f' where "ready f'" "DriveAll S g (concat (map enc vs)) = Some (vs, f')"
    using Cons.IH [OF g(1)] Cons.prems by auto
  with DriveAll_Drive [OF g(2)] show ?case by auto
qed

end

text \<open>A decoder no input can make panic: an invariant every byte keeps until a value comes out, and
  only acceptable values do. \<open>post\<close> is what holds of the decoder after that.\<close>

locale safe_decoder =
  fixes S :: "('v, 'm) step"
    and invar :: "'m \<Rightarrow> bool"
    and post :: "'m \<Rightarrow> bool"
    and ok :: "'v \<Rightarrow> bool"
  assumes safe_step: "invar f \<Longrightarrow> \<exists>v f'. S f b = Some (v, None, f') \<and> sound_out invar post ok v f'"
begin

lemma Drive_safe:
  "invar f \<Longrightarrow> \<exists>r f'. Drive S f bs = Some (r, f') \<and> sound_out invar post (ok \<circ> fst) r f'"
proof (induction bs arbitrary: f)
  case Nil
  then show ?case by simp
next
  case (Cons b bs)
  obtain v g where v: "S f b = Some (v, None, g)" "sound_out invar post ok v g"
    using safe_step [OF Cons.prems] by blast
  with Cons.IH [of g] show ?case by (cases v) auto
qed

end

text \<open>An outer machine that, in the states \<open>here\<close>, hands every byte to the inner machine kept in its
  context and goes on with \<open>K\<close> when that yields a value.\<close>

locale delegation =
  fixes F :: "('t, 's, 'c) feedFn"
    and G :: "('u, 'm) step"
    and get :: "('t, 's, 'c) FSM \<Rightarrow> 'm"
    and put :: "'m \<Rightarrow> ('t, 's, 'c) FSM \<Rightarrow> ('t, 's, 'c) FSM"
    and here :: "('t, 's, 'c) FSM \<Rightarrow> bool"
    and K :: "'u \<Rightarrow> ('t, 's, 'c) FSM \<Rightarrow> (go_error option \<times> ('t, 's, 'c) FSM) option"
  assumes inner_error: "G g b = Some (v, e, g') \<Longrightarrow> e = None"
    and direct: "here f \<Longrightarrow> \<not> mustSatisfySize f"
    and here_put: "here f \<Longrightarrow> here (put g f)"
    and here_byte: "here f \<Longrightarrow> here (f\<lparr>currentByte := b\<rparr>)"
    and get_put: "here f \<Longrightarrow> get (put g f) = g"
    and put_put: "here f \<Longrightarrow> put g' (put g f) = put g' f"
    and get_byte: "get (f\<lparr>currentByte := b\<rparr>) = get f"
    and put_byte: "here f \<Longrightarrow> (put g f)\<lparr>currentByte := b\<rparr> = put g (f\<lparr>currentByte := b\<rparr>)"
    and delegates: "here f \<Longrightarrow> G (get f) b = Some (v, None, g) \<Longrightarrow>
      F f (fstate f) b = (case v of None \<Rightarrow> Some (None, put g f) | Some x \<Rightarrow> K x (put g f))"
begin

lemma Drive_delegate:
  assumes "here f" and "Drive G (get f) xs = Some (Some (x, ys), g)"
  shows "\<exists>c. Drive (Feed F) f xs = After F (K x (put g (f\<lparr>currentByte := c\<rparr>))) ys"
  using assms
proof (induction xs arbitrary: f)
  case Nil
  then show ?case by simp
next
  case (Cons b bs)
  let ?f = "f\<lparr>currentByte := b\<rparr>"
  have here: "here ?f" and get: "get ?f = get f" and st: "fstate ?f = fstate f"
    using Cons.prems here_byte get_byte by auto
  obtain v e g' where fd: "G (get f) b = Some (v, e, g')"
    using Cons.prems by (cases "G (get f) b") auto
  then have e: "G (get ?f) b = Some (v, None, g')"
    using inner_error get by fastforce
  have stp: "Drive (Feed F) f (b # bs) = After F (F ?f (fstate f) b) bs"
    using Drive_direct direct Cons.prems by blast
  show ?case
  proof (cases v)
    case None
    have "Drive (Feed F) f (b # bs) = Drive (Feed F) (put g' ?f) bs"
      using stp delegates [OF here e] None st by (simp add: After_simps)
    moreover have "Drive G (get (put g' ?f)) bs = Some (Some (x, ys), g)"
      using Cons.prems fd None here get_put by simp
    ultimately obtain c where "Drive (Feed F) f (b # bs) = After F (K x (put g ((put g' ?f)\<lparr>currentByte := c\<rparr>))) ys"
      using Cons.IH [of "put g' ?f"] here here_put by auto
    moreover have "put g ((put g' ?f)\<lparr>currentByte := c\<rparr>) = put g (f\<lparr>currentByte := c\<rparr>)"
      using put_byte [OF here] put_put [OF here_byte [OF here]] by simp
    ultimately show ?thesis by auto
  next
    case (Some u)
    then have "u = x" "bs = ys" "g' = g" using Cons.prems fd by auto
    then have "Drive (Feed F) f (b # bs) = After F (K x (put g ?f)) ys"
      using stp delegates [OF here e] Some st by simp
    then show ?thesis by blast
  qed
qed

end


text \<open>An outer machine that reads a list: it counts down \<open>Size\<close> with every item the inner machine
  yields, keeps the item with \<open>add\<close>, and is done at zero.\<close>

locale counted_items = delegation F G get put here K + inner: stream_decoder G ready wf enc
  for F :: "('t, 's, 'c) feedFn"
    and G :: "('u, 'm) step"
    and get :: "('t, 's, 'c) FSM \<Rightarrow> 'm"
    and put :: "'m \<Rightarrow> ('t, 's, 'c) FSM \<Rightarrow> ('t, 's, 'c) FSM"
    and here :: "('t, 's, 'c) FSM \<Rightarrow> bool"
    and K :: "'u \<Rightarrow> ('t, 's, 'c) FSM \<Rightarrow> (go_error option \<times> ('t, 's, 'c) FSM) option"
    and ready :: "'m \<Rightarrow> bool"
    and wf :: "'u \<Rightarrow> bool"
    and enc :: "'u \<Rightarrow> byte list" +
  fixes add :: "'u \<Rightarrow> 't \<Rightarrow> 't"
  assumes counts: "K x f = Some (if Size f - 1 = 0 then Some Done else None,
      f\<lparr>Size := Size f - 1, Value := add x (Value f)\<rparr>)"
    and here_item: "here f \<Longrightarrow> n \<noteq> 0 \<Longrightarrow> here (f\<lparr>Size := n, Value := v\<rparr>)"
    and get_item: "get (f\<lparr>Size := n, Value := v\<rparr>) = get f"
    and put_fields: "Size (put g f) = Size f" "Value (put g f) = Value f"
begin

lemma Drive_items:
  assumes "here f" and "ready (get f)" and "Size f = int (length vs)" and "vs \<noteq> []" and "\<forall>v \<in> set vs. wf v"
  shows "\<exists>f'. Drive (Feed F) f (concat (map enc vs) @ ys) = Some (Some (fold add vs (Value f), ys), f')"
  using assms
proof (induction vs arbitrary: f)
  case Nil
  then show ?case by simp
next
  case (Cons v vs)
  let ?rest = "concat (map enc vs) @ ys"
  obtain g where g: "ready g" "Drive G (get f) (enc v @ ?rest) = Some (Some (v, ?rest), g)"
    using inner.decodes [of "get f" v] Cons.prems by auto
  obtain c where c: "Drive (Feed F) f (enc v @ ?rest) = After F (K v (put g (f\<lparr>currentByte := c\<rparr>))) ?rest"
    using Drive_delegate [OF Cons.prems(1) g(2)] by blast
  let ?f = "(put g (f\<lparr>currentByte := c\<rparr>))\<lparr>Size := int (length vs), Value := add v (Value f)\<rparr>"
  have K: "K v (put g (f\<lparr>currentByte := c\<rparr>)) = Some (if vs = [] then Some Done else None, ?f)"
    using Cons.prems(3) by (simp add: counts put_fields)
  have here: "here (f\<lparr>currentByte := c\<rparr>)" using Cons.prems(1) by (rule here_byte)
  show ?case
  proof (cases "vs = []")
    case True
    with c K show ?thesis by (simp add: After_simps)
  next
    case False
    have "\<exists>f'. Drive (Feed F) ?f ?rest = Some (Some (fold add vs (Value ?f), ys), f')"
      using False Cons.prems g(1) by (intro Cons.IH) (auto simp: here_item here_put here get_item get_put)
    with False c K show ?thesis by (simp add: After_simps)
  qed
qed

end

end
