(* ===== verification/Proto_Base.thy ===== *)
theory Proto_Base
  imports Fsm
begin

text \<open>
  \<open>internal/proto/base.go\<close> and \<open>writer.go\<close>: operation codes and event kinds, addresses and the
  node identity derived from them, and the cursor-based \<open>Writer\<close> every encoder uses. The parts of
  \<open>net\<close> and \<open>net/netip\<close> the code calls are modelled first; \<open>internal/iputil\<close> follows.

  The Go enumerations are \<open>uint8\<close> types that decoders fill with arbitrary bytes, so they stay
  words here. \<open>AddressBytes\<close> is a Go \<open>[16]byte\<close>; \<open>typedIP\<close> says that a model value has that length.
  The locale \<open>encoder\<close> is the contract of the \<open>Encoder\<close> interface.
\<close>

subsection \<open>Addresses of the standard library\<close>

text \<open>\<open>netip.Addr\<close>, without zones: the zero value, an IPv4 and an IPv6 address.\<close>

datatype Addr = AddrZero | Addr4 "byte list" | Addr6 "byte list"

definition AddrFromSlice :: "byte list \<Rightarrow> Addr" where
  "AddrFromSlice bs = (if length bs = 4 then Addr4 bs
     else if length bs = 16 then Addr6 bs else AddrZero)"

definition Is6 :: "Addr \<Rightarrow> bool" where
  "Is6 a = (case a of Addr6 _ \<Rightarrow> True | _ \<Rightarrow> False)"

text \<open>\<open>net.IP\<close> is a byte slice; nil is the empty slice.\<close>

type_synonym NetIP = "byte list"

definition v4InV6Prefix :: "byte list" where
  "v4InV6Prefix = [0, 0, 0, 0, 0, 0, 0, 0, 0, 0, 255, 255]"

definition To4 :: "NetIP \<Rightarrow> byte list option" where
  "To4 ip = (if length ip = 4 then Some ip
     else if length ip = 16 \<and> take 12 ip = v4InV6Prefix then Some (drop 12 ip)
     else None)"

definition To16 :: "NetIP \<Rightarrow> byte list" where
  "To16 ip = (if length ip = 4 then v4InV6Prefix @ ip
     else if length ip = 16 then ip else [])"

text \<open>\<open>net.IP.Equal\<close> identifies an IPv4 address with its IPv6 form.\<close>

definition NetIP_Equal :: "NetIP \<Rightarrow> NetIP \<Rightarrow> bool" where
  "NetIP_Equal a b = (if length a = length b then a = b
     else if length a = 4 \<and> length b = 16 then take 12 b = v4InV6Prefix \<and> a = drop 12 b
     else if length a = 16 \<and> length b = 4 then take 12 a = v4InV6Prefix \<and> drop 12 a = b
     else False)"

subsection \<open>Operation codes, event kinds, address kinds\<close>

type_synonym OpCode = byte
type_synonym EventKind = byte
type_synonym AddressKind = byte
type_synonym SyncMode = byte

abbreviation (input) BTRP :: OpCode where "BTRP \<equiv> 1"
abbreviation (input) BTRR :: OpCode where "BTRR \<equiv> 2"
abbreviation (input) BTRA :: OpCode where "BTRA \<equiv> 3"
abbreviation (input) PING :: OpCode where "PING \<equiv> 4"
abbreviation (input) PONG :: OpCode where "PONG \<equiv> 5"
abbreviation (input) IING :: OpCode where "IING \<equiv> 6"
abbreviation (input) IONG :: OpCode where "IONG \<equiv> 7"
abbreviation (input) SYNC :: OpCode where "SYNC \<equiv> 8"
abbreviation (input) minOpCode :: OpCode where "minOpCode \<equiv> BTRP"
abbreviation (input) maxOpCode :: OpCode where "maxOpCode \<equiv> SYNC"
abbreviation (input) protocolVersion :: byte where "protocolVersion \<equiv> 1"
abbreviation (input) protocolMagic :: u16 where "protocolMagic \<equiv> 0xCAFE"

abbreviation (input) AddressIPv4 :: AddressKind where "AddressIPv4 \<equiv> 0"
abbreviation (input) AddressIPv6 :: AddressKind where "AddressIPv6 \<equiv> 1"

abbreviation (input) EventJoin :: EventKind where "EventJoin \<equiv> 0"
abbreviation (input) EventHealthy :: EventKind where "EventHealthy \<equiv> 1"
abbreviation (input) EventSuspect :: EventKind where "EventSuspect \<equiv> 2"
abbreviation (input) EventFaulty :: EventKind where "EventFaulty \<equiv> 3"
abbreviation (input) EventLeft :: EventKind where "EventLeft \<equiv> 4"
abbreviation (input) EventAlive :: EventKind where "EventAlive \<equiv> 5"
abbreviation (input) EventWrap :: EventKind where "EventWrap \<equiv> 6"

definition AddressKind_Size :: "AddressKind \<Rightarrow> nat" where
  "AddressKind_Size a = (if a = AddressIPv4 then 4 else 16)"

lemma AddressKind_Size_simps [simp]:
  "AddressKind_Size AddressIPv4 = 4" "AddressKind_Size AddressIPv6 = 16"
  "0 < AddressKind_Size a" "AddressKind_Size a \<le> 16" "AddressKind_Size a \<noteq> 0"
  by (simp_all add: AddressKind_Size_def)

subsection \<open>IP\<close>

record IP =
  AddressKind :: AddressKind
  AddressBytes :: "byte list"

abbreviation zeroIP :: IP where
  "zeroIP \<equiv> \<lparr>AddressKind = AddressIPv4, AddressBytes = replicate 16 0\<rparr>"

definition IP_Size :: "IP \<Rightarrow> nat" where
  "IP_Size i = AddressKind_Size (AddressKind i)"

definition IP_Bytes :: "IP \<Rightarrow> byte list" where
  "IP_Bytes i = take (IP_Size i) (AddressBytes i)"

definition IntoHash :: "IP \<Rightarrow> Addr" where
  "IntoHash i = AddrFromSlice (IP_Bytes i)"

definition IntoManaged :: "IP \<Rightarrow> Addr" where
  "IntoManaged i = AddrFromSlice (IP_Bytes i)"

definition IP_Equal :: "IP \<Rightarrow> IP option \<Rightarrow> bool" where
  "IP_Equal i mo = (case mo of None \<Rightarrow> False
     | Some v \<Rightarrow> AddressKind v = AddressKind i \<and> AddressBytes i = AddressBytes v)"

lemma IP_Equal_iff [simp]: "IP_Equal i (Some v) \<longleftrightarrow> i = v"
  by (cases i; cases v) (auto simp: IP_Equal_def)

definition copyIP :: "IP \<Rightarrow> IP \<Rightarrow> IP" where
  "copyIP dst src = (let dst = dst\<lparr>AddressBytes := map (\<lambda>_. 0) (AddressBytes dst)\<rparr>;
       dst = dst\<lparr>AddressKind := AddressKind src\<rparr>
     in dst\<lparr>AddressBytes := go_copy (AddressBytes dst) (take (IP_Size src) (AddressBytes src))\<rparr>)"

definition IPFromAddr :: "Addr \<Rightarrow> IP option" where
  "IPFromAddr a = (case a of
     Addr6 bs \<Rightarrow> Some (zeroIP\<lparr>AddressKind := AddressIPv6, AddressBytes := go_copy (replicate 16 0) bs\<rparr>)
   | Addr4 bs \<Rightarrow> Some (zeroIP\<lparr>AddressKind := AddressIPv4, AddressBytes := go_copy (replicate 16 0) bs\<rparr>)
   | AddrZero \<Rightarrow> None)"

definition IPFromNetIP :: "NetIP \<Rightarrow> IP" where
  "IPFromNetIP ip = (case To4 ip of
     Some v4 \<Rightarrow> zeroIP\<lparr>AddressBytes := go_copy (replicate 16 0) (take 4 v4)\<rparr>
   | None \<Rightarrow> zeroIP\<lparr>AddressKind := AddressIPv6, AddressBytes := go_copy (replicate 16 0) (To16 ip)\<rparr>)"

definition ConvertNetIP :: "NetIP \<Rightarrow> Addr option" where
  "ConvertNetIP ip = (case To4 ip of
     Some ip4 \<Rightarrow> Some (Addr4 (take 4 ip4))
   | None \<Rightarrow> if length ip < 16 then None else Some (Addr6 (take 16 ip)))"

text \<open>The type invariant of a Go \<open>IP\<close> value, and the addresses the protocol can carry: a known
  kind, and no stray bytes behind an IPv4 address.\<close>

definition typedIP :: "IP \<Rightarrow> bool" where
  "typedIP i \<longleftrightarrow> length (AddressBytes i) = 16"

definition wfIP :: "IP \<Rightarrow> bool" where
  "wfIP i \<longleftrightarrow> typedIP i \<and> (AddressKind i = AddressIPv4 \<and> drop 4 (AddressBytes i) = replicate 12 0
     \<or> AddressKind i = AddressIPv6)"

lemma wfIP_typed [simp, intro]: "wfIP i \<Longrightarrow> typedIP i"
  by (simp add: wfIP_def)

lemma IP_Size_bounds [simp]: "0 < IP_Size i" "IP_Size i \<le> 16" "IP_Size i \<noteq> 0"
  by (simp_all add: IP_Size_def)

lemma IP_Size_ge [simp]: "n \<le> 4 \<Longrightarrow> n \<le> IP_Size i"
  by (simp add: IP_Size_def AddressKind_Size_def)

lemma length_IP_Bytes [simp]: "typedIP i \<Longrightarrow> length (IP_Bytes i) = IP_Size i"
  by (simp add: IP_Bytes_def typedIP_def)

lemma IP_Bytes_neq_Nil [simp]: "typedIP i \<Longrightarrow> IP_Bytes i \<noteq> []"
  by (auto simp: IP_Bytes_def typedIP_def)

lemma wfIP_bytes: "wfIP i \<Longrightarrow> go_copy (replicate 16 0) (IP_Bytes i) = AddressBytes i"
proof -
  assume wf: "wfIP i"
  show ?thesis
  proof (cases "AddressKind i = AddressIPv4")
    case True
    then have "AddressBytes i = take 4 (AddressBytes i) @ replicate 12 0"
      using wf append_take_drop_id [of 4 "AddressBytes i"] by (simp add: wfIP_def)
    with wf True show ?thesis
      by (simp add: go_copy_def IP_Bytes_def IP_Size_def wfIP_def typedIP_def)
  next
    case False
    with wf show ?thesis
      by (auto simp: go_copy_def IP_Bytes_def IP_Size_def wfIP_def typedIP_def)
  qed
qed

lemma IntoHash_typed:
  "typedIP i \<Longrightarrow> IntoHash i = (if AddressKind i = AddressIPv4 then Addr4 (IP_Bytes i) else Addr6 (IP_Bytes i))"
  by (simp add: IntoHash_def AddrFromSlice_def) (simp add: IP_Size_def AddressKind_Size_def)

lemma wfIP_kind: "wfIP i \<Longrightarrow> AddressKind i = AddressIPv4 \<or> AddressKind i = AddressIPv6"
  by (auto simp: wfIP_def)

text \<open>Two protocol addresses have the same identity exactly when they are equal.\<close>

lemma IntoHash_inj:
  assumes wf: "wfIP a" "wfIP b"
  shows "IntoHash a = IntoHash b \<longleftrightarrow> a = b"
proof
  assume eq: "IntoHash a = IntoHash b"
  have "AddressKind a = AddressKind b" and "IP_Bytes a = IP_Bytes b"
    using eq wfIP_kind [OF wf(1)] wfIP_kind [OF wf(2)] IntoHash_typed [OF wfIP_typed [OF wf(1)]]
      IntoHash_typed [OF wfIP_typed [OF wf(2)]] by auto
  then show "a = b"
    using wfIP_bytes [OF wf(1)] wfIP_bytes [OF wf(2)] by simp
qed simp

lemma IntoHash_neq_zero [simp]: "typedIP i \<Longrightarrow> IntoHash i \<noteq> AddrZero"
  by (simp add: IntoHash_typed)

subsection \<open>Writer\<close>

record Writer =
  wbuffer :: "byte list"
  cursor :: nat

definition newWriter :: "byte list \<Rightarrow> Writer" where
  "newWriter buf = \<lparr>wbuffer = buf, cursor = 0\<rparr>"

text \<open>\<open>w.buffer[w.cursor:]\<close>, and the buffer after a write through that slice.\<close>

definition wtail :: "Writer \<Rightarrow> byte list option" where
  "wtail w = (if cursor w \<le> length (wbuffer w) then Some (drop (cursor w) (wbuffer w)) else None)"

definition wstore :: "Writer \<Rightarrow> byte list \<Rightarrow> Writer" where
  "wstore w t = w\<lparr>wbuffer := take (cursor w) (wbuffer w) @ t\<rparr>"

definition w_u8 :: "byte \<Rightarrow> Writer \<Rightarrow> Writer option" where
  "w_u8 b w = (if cursor w < length (wbuffer w)
     then Some (w\<lparr>wbuffer := (wbuffer w)[cursor w := b], cursor := cursor w + 1\<rparr>) else None)"

definition w_u16 :: "u16 \<Rightarrow> Writer \<Rightarrow> Writer option" where
  "w_u16 val w = do {
     s \<leftarrow> wtail w;
     s' \<leftarrow> PutUint16 s val;
     Some ((wstore w s')\<lparr>cursor := cursor w + 2\<rparr>)
   }"

definition w_u32 :: "u32 \<Rightarrow> Writer \<Rightarrow> Writer option" where
  "w_u32 val w = do {
     s \<leftarrow> wtail w;
     s' \<leftarrow> PutUint32 s val;
     Some ((wstore w s')\<lparr>cursor := cursor w + 4\<rparr>)
   }"

definition w_bytes :: "byte list \<Rightarrow> Writer \<Rightarrow> Writer option" where
  "w_bytes value w = do {
     s \<leftarrow> wtail w;
     Some ((wstore w (go_copy s value))\<lparr>cursor := cursor w + length value\<rparr>)
   }"

text \<open>\<open>Writer.encoder\<close>: the object is given by its \<open>Encode\<close> and its \<open>RequiredSize\<close>.\<close>

definition w_encoder :: "(byte list \<Rightarrow> byte list option) \<Rightarrow> nat \<Rightarrow> Writer \<Rightarrow> Writer option" where
  "w_encoder encode required w = do {
     s \<leftarrow> wtail w;
     s' \<leftarrow> encode s;
     Some ((wstore w s')\<lparr>cursor := cursor w + required\<rparr>)
   }"

definition w_ip :: "IP \<Rightarrow> Writer \<Rightarrow> Writer option" where
  "w_ip addr w = w_bytes (IP_Bytes addr) w"

text \<open>\<open>forEachCast(items, w.encoderNoChain)\<close>.\<close>

fun w_forEach :: "('a \<Rightarrow> byte list \<Rightarrow> byte list option) \<Rightarrow> ('a \<Rightarrow> nat) \<Rightarrow> 'a list \<Rightarrow> Writer \<Rightarrow> Writer option" where
  "w_forEach encode required [] w = Some w"
| "w_forEach encode required (x # xs) w = do {
     w \<leftarrow> w_encoder (encode x) (required x) w;
     w_forEach encode required xs w
   }"

text \<open>\<open>reduce\<close>: a left fold from the zero value of the accumulator.\<close>

definition reduce :: "'a list \<Rightarrow> ('a \<Rightarrow> nat \<Rightarrow> nat) \<Rightarrow> nat" where
  "reduce arr fn = foldl (\<lambda>acc v. fn v acc) 0 arr"

lemma reduce_sum: "reduce arr (\<lambda>i acc. acc + g i) = sum_list (map g arr)"
proof -
  have "foldl (\<lambda>acc v. acc + g v) n arr = n + sum_list (map g arr)" for n
    by (induction arr arbitrary: n) simp_all
  then show ?thesis by (simp add: reduce_def)
qed

text \<open>A writer that has written \<open>bs\<close> and has \<open>rest\<close> ahead of its cursor.\<close>

definition Wr :: "byte list \<Rightarrow> byte list \<Rightarrow> Writer" where
  "Wr bs rest = \<lparr>wbuffer = bs @ rest, cursor = length bs\<rparr>"

lemma newWriter_Wr [wire_simps]: "newWriter buf = Wr [] buf"
  by (simp add: newWriter_def Wr_def)

lemma wbuffer_Wr [wire_simps]: "wbuffer (Wr bs rest) = bs @ rest"
  by (simp add: Wr_def)

lemma wtail_Wr: "wtail (Wr bs rest) = Some rest"
  by (simp add: wtail_def Wr_def)

lemma wstore_Wr: "(wstore (Wr bs rest) (ws @ r))\<lparr>cursor := cursor (Wr bs rest) + length ws\<rparr> = Wr (bs @ ws) r"
  by (simp add: wstore_def Wr_def)

lemma w_u8_Wr [wire_simps]: "1 \<le> length rest \<Longrightarrow> w_u8 b (Wr bs rest) = Some (Wr (bs @ [b]) (drop 1 rest))"
  by (cases rest) (auto simp: w_u8_def Wr_def)

lemma w_u16_Wr [wire_simps]:
  "2 \<le> length rest \<Longrightarrow> w_u16 v (Wr bs rest) = Some (Wr (bs @ be16 v) (drop 2 rest))"
  using wstore_Wr [of bs rest "be16 v" "drop 2 rest"]
  by (simp add: w_u16_def wtail_Wr PutUint16_eq)

lemma w_u32_Wr [wire_simps]:
  "4 \<le> length rest \<Longrightarrow> w_u32 v (Wr bs rest) = Some (Wr (bs @ be32 v) (drop 4 rest))"
  using wstore_Wr [of bs rest "be32 v" "drop 4 rest"]
  by (simp add: w_u32_def wtail_Wr PutUint32_eq)

lemma w_bytes_Wr [wire_simps]:
  "length v \<le> length rest \<Longrightarrow> w_bytes v (Wr bs rest) = Some (Wr (bs @ v) (drop (length v) rest))"
  using wstore_Wr [of bs rest v "drop (length v) rest"]
  by (simp add: w_bytes_def wtail_Wr go_copy_prefix)

lemma w_ip_Wr [wire_simps]:
  "typedIP i \<Longrightarrow> IP_Size i \<le> length rest \<Longrightarrow>
   w_ip i (Wr bs rest) = Some (Wr (bs @ IP_Bytes i) (drop (IP_Size i) rest))"
  by (simp add: w_ip_def w_bytes_Wr)

subsection \<open>The Encoder interface\<close>

text \<open>An encoder overwrites exactly the first \<open>RequiredSize\<close> bytes of its buffer with the wire format
  of its value, whenever the buffer has that many.\<close>

locale encoder =
  fixes Encode :: "'a \<Rightarrow> byte list \<Rightarrow> byte list option"
    and RequiredSize :: "'a \<Rightarrow> nat"
    and wire :: "'a \<Rightarrow> byte list"
    and typed :: "'a \<Rightarrow> bool"
  assumes wire_length: "typed v \<Longrightarrow> length (wire v) = RequiredSize v"
    and Encode_wire: "typed v \<Longrightarrow> RequiredSize v \<le> length buf \<Longrightarrow>
      Encode v buf = Some (wire v @ drop (RequiredSize v) buf)"
begin

lemma w_encoder_Wr:
  "typed v \<Longrightarrow> RequiredSize v \<le> length rest \<Longrightarrow>
   w_encoder (Encode v) (RequiredSize v) (Wr bs rest)
     = Some (Wr (bs @ wire v) (drop (RequiredSize v) rest))"
  using wstore_Wr [of bs rest "wire v" "drop (RequiredSize v) rest"]
  by (simp add: w_encoder_def wtail_Wr Encode_wire wire_length)

lemma concat_wire_length:
  "\<forall>v \<in> set vs. typed v \<Longrightarrow> length (concat (map wire vs)) = sum_list (map RequiredSize vs)"
  by (induction vs) (auto simp: wire_length)

lemma w_forEach_Wr:
  "\<forall>v \<in> set vs. typed v \<Longrightarrow> sum_list (map RequiredSize vs) \<le> length rest \<Longrightarrow>
   w_forEach Encode RequiredSize vs (Wr bs rest)
     = Some (Wr (bs @ concat (map wire vs)) (drop (sum_list (map RequiredSize vs)) rest))"
  by (induction vs arbitrary: bs rest) (auto simp: w_encoder_Wr add.commute)

lemma Encode_exact:
  "typed v \<Longrightarrow> length buf = RequiredSize v \<Longrightarrow> Encode v buf = Some (wire v)"
  by (simp add: Encode_wire)

end

subsection \<open>Decoding an address\<close>

text \<open>\<open>fsmCopyIP\<close>: the payload must hold at least the bytes of the address. (Go slices beyond the
  length of the payload up to its capacity; \<open>None\<close> stands for that case too, and no decoder
  reaches it.)\<close>

definition fsmCopyIP :: "('t, 's, 'c) FSM \<Rightarrow> IP \<Rightarrow> IP option" where
  "fsmCopyIP f into = (if length (Payload f) < IP_Size into then None
     else Some (into\<lparr>AddressBytes := go_copy (AddressBytes into) (take (IP_Size into) (Payload f))\<rparr>))"

lemma fsmCopyIP_wire:
  assumes "wfIP i" and "Payload f = IP_Bytes i"
  shows "fsmCopyIP f \<lparr>AddressKind = AddressKind i, AddressBytes = replicate 16 0\<rparr> = Some i"
proof -
  have sz: "IP_Size \<lparr>AddressKind = AddressKind i, AddressBytes = replicate 16 0\<rparr> = IP_Size i"
    by (simp add: IP_Size_def)
  show ?thesis
    using assms wfIP_bytes [of i] by (simp add: fsmCopyIP_def sz)
qed

lemma fsmCopyIP_Some:
  "IP_Size into \<le> length (Payload f) \<Longrightarrow> typedIP into \<Longrightarrow>
   \<exists>i. fsmCopyIP f into = Some i \<and> typedIP i \<and> AddressKind i = AddressKind into"
  by (simp add: fsmCopyIP_def typedIP_def)

lemma typedIP_zero [simp]:
  "typedIP \<lparr>AddressKind = k, AddressBytes = replicate 16 0\<rparr>"
  by (simp add: typedIP_def)

lemma typedIP_kind [simp]: "typedIP (i\<lparr>AddressKind := k\<rparr>) = typedIP i"
  by (simp add: typedIP_def)

end
