(* ===== verification/Proto_Node.thy ===== *)
theory Proto_Node
  imports Proto_Base
begin

text \<open>
  \<open>internal/proto/node.go\<close>: a cluster member, its wire format, its identity and its decoder.
\<close>

record Node =
  n_Suspect :: bool
  n_Incarnation :: u16
  n_Address :: IP

type_synonym NodeHash = Addr

abbreviation NodeHashZero :: NodeHash where "NodeHashZero \<equiv> AddrZero"

definition Node_RequiredSize :: "Node \<Rightarrow> nat" where
  "Node_RequiredSize n = 3 + IP_Size (n_Address n)"

definition Node_flags :: "Node \<Rightarrow> byte" where
  "Node_flags n = (let flags = 0;
       flags = (if AddressKind (n_Address n) = AddressIPv6 then flags OR 1 else flags)
     in if n_Suspect n then flags OR 2 else flags)"

definition Node_Encode :: "Node \<Rightarrow> byte list \<Rightarrow> byte list option" where
  "Node_Encode n into = do {
     w \<leftarrow> w_u8 (Node_flags n) (newWriter into);
     w \<leftarrow> w_u16 (n_Incarnation n) w;
     w \<leftarrow> w_ip (n_Address n) w;
     Some (wbuffer w)
   }"

definition Node_Equal :: "Node \<Rightarrow> Node \<Rightarrow> bool" where
  "Node_Equal n other \<longleftrightarrow> n_Address n = n_Address other \<and> n_Suspect n = n_Suspect other
     \<and> n_Incarnation n = n_Incarnation other \<and> IP_Equal (n_Address n) (Some (n_Address other))"

definition Hash :: "Node \<Rightarrow> NodeHash" where
  "Hash n = IntoHash (n_Address n)"

datatype nodeDecoderState =
    nodeDecoderStateFlags
  | nodeDecoderStateIncarnation
  | nodeDecoderStateAddress

abbreviation zeroNode :: Node where
  "zeroNode \<equiv> \<lparr>n_Suspect = False, n_Incarnation = 0, n_Address = zeroIP\<rparr>"

definition nodeDecoder_Feed :: "(Node, nodeDecoderState, unit) feedFn" where
  "nodeDecoder_Feed f st b = (case st of
     nodeDecoderStateFlags \<Rightarrow>
       (let v = Value f;
            v = v\<lparr>n_Address := (n_Address v)\<lparr>AddressKind := b AND 1\<rparr>\<rparr>;
            v = v\<lparr>n_Suspect := (b AND 2 = 2)\<rparr>
        in Some (None, TransitionSatisfySize (f\<lparr>Value := v\<rparr>) nodeDecoderStateIncarnation 2))
   | nodeDecoderStateIncarnation \<Rightarrow> do {
       inc \<leftarrow> U16 f;
       let f = f\<lparr>Value := (Value f)\<lparr>n_Incarnation := inc\<rparr>\<rparr>;
       Some (None, TransitionSatisfySize f nodeDecoderStateAddress (int (IP_Size (n_Address (Value f)))))
     }
   | nodeDecoderStateAddress \<Rightarrow> do {
       a \<leftarrow> fsmCopyIP f (n_Address (Value f));
       Some (Some Done, f\<lparr>Value := (Value f)\<lparr>n_Address := a\<rparr>\<rparr>)
     })"

definition nodeDecoder :: "(Node, nodeDecoderState, unit) Def" where
  "nodeDecoder = \<lparr>InitialSize = 0, InitialState = nodeDecoderStateFlags, NewT = zeroNode,
     NewC = (), ResetC = id, DefFeed = nodeDecoder_Feed, DefPrepare = id\<rparr>"

subsection \<open>Wire format\<close>

definition node_wire :: "Node \<Rightarrow> byte list" where
  "node_wire n = Node_flags n # be16 (n_Incarnation n) @ IP_Bytes (n_Address n)"

definition typedNode :: "Node \<Rightarrow> bool" where
  "typedNode n \<longleftrightarrow> typedIP (n_Address n)"

definition wfNode :: "Node \<Rightarrow> bool" where
  "wfNode n \<longleftrightarrow> wfIP (n_Address n)"

lemma wfNode_typed [simp]: "wfNode n \<Longrightarrow> typedNode n"
  by (simp add: wfNode_def typedNode_def)

interpretation node_enc: encoder Node_Encode Node_RequiredSize node_wire typedNode
  by unfold_locales
    (auto simp: Node_Encode_def Node_RequiredSize_def node_wire_def typedNode_def wire_simps numeral_eq_Suc)

lemma Node_flags_kind: "wfNode n \<Longrightarrow> Node_flags n AND 1 = AddressKind (n_Address n)"
  by (auto simp: Node_flags_def wfNode_def wfIP_def)

lemma Node_flags_suspect: "(Node_flags n AND 2 = 2) = n_Suspect n"
  by (auto simp: Node_flags_def)

definition node_ready :: "(Node, nodeDecoderState, unit) FSM \<Rightarrow> bool" where
  "node_ready f \<longleftrightarrow> f = New nodeDecoder"

interpretation node_dec: stream_decoder "Feed nodeDecoder_Feed" node_ready wfNode node_wire
proof
  fix f :: "(Node, nodeDecoderState, unit) FSM" and v :: Node
  assume "node_ready f" and wf: "wfNode v"
  then have f: "f = New nodeDecoder" by (simp add: node_ready_def)
  have ip: "wfIP (n_Address v)" using wf by (simp add: wfNode_def)
  have "Drive (Feed nodeDecoder_Feed) f (node_wire v @ ys) = Some (Some (v, ys), New nodeDecoder)" for ys
    unfolding f node_wire_def append_Cons append_assoc
    using wf ip
    by (simp add: Drive_direct Drive_block nodeDecoder_Feed_def nodeDecoder_def fsm_simps
        Node_flags_kind Node_flags_suspect IP_Size_def fsmCopyIP_wire del: Drive.simps)
  then show "\<exists>f'. node_ready f' \<and> (\<forall>ys. Drive (Feed nodeDecoder_Feed) f (node_wire v @ ys) = Some (Some (v, ys), f'))"
    by (auto simp: node_ready_def)
qed


subsection \<open>No input makes the decoder panic\<close>

fun node_need :: "nodeDecoderState \<Rightarrow> Node \<Rightarrow> nat" where
  "node_need nodeDecoderStateFlags n = 0"
| "node_need nodeDecoderStateIncarnation n = 2"
| "node_need nodeDecoderStateAddress n = IP_Size (n_Address n)"

definition node_inv :: "(Node, nodeDecoderState, unit) FSM \<Rightarrow> bool" where
  "node_inv f \<longleftrightarrow> of_def nodeDecoder f \<and> typedNode (Value f) \<and>
     (if fstate f = nodeDecoderStateFlags then \<not> mustSatisfySize f
      else pending f (node_need (fstate f) (Value f)))"

lemma node_inv_New [simp]: "node_inv (New nodeDecoder)"
  by (simp add: node_inv_def New_eq nodeDecoder_def typedNode_def of_def_def)

lemma node_inv_Reset [simp]: "of_def nodeDecoder f \<Longrightarrow> node_inv (Reset f)"
  by (simp add: node_inv_def of_def_fields fsm_simps) (simp add: nodeDecoder_def typedNode_def)

interpretation node_safe: safe_decoder "Feed nodeDecoder_Feed" node_inv node_inv typedNode
proof
  fix f :: "(Node, nodeDecoderState, unit) FSM" and b :: byte
  assume inv: "node_inv f"
  show "\<exists>v f'. Feed nodeDecoder_Feed f b = Some (v, None, f') \<and> sound_out node_inv node_inv typedNode v f'"
  proof (cases "fstate f")
    case nodeDecoderStateFlags
    with inv show ?thesis
      by (intro safe_direct)
        (auto simp: node_inv_def FeedStep_def nodeDecoder_Feed_def fsm_simps typedNode_def pending_def)
  next
    case nodeDecoderStateIncarnation
    with inv show ?thesis
      by (intro safe_pending [where n = 2])
        (auto simp: node_inv_def FeedStep_def nodeDecoder_Feed_def fsm_simps typedNode_def pending_def Uint16_def)
  next
    case nodeDecoderStateAddress
    with inv show ?thesis
      by (intro safe_pending [where n = "IP_Size (n_Address (Value f))"])
        (auto simp: node_inv_def FeedStep_def nodeDecoder_Feed_def fsm_simps typedNode_def pending_def
          fsmCopyIP_def typedIP_def of_def_fields nodeDecoder_def)
  qed
qed

end
