(* ===== verification/Proto_Event.thy ===== *)
theory Proto_Event
  imports Proto_Node
begin

text \<open>
  The gossip events of \<open>internal/proto\<close>: \<open>event_join.go\<close>, \<open>event_healthy.go\<close>, \<open>event_suspect.go\<close>,
  \<open>event_faulty.go\<close>, \<open>event_left.go\<close>, \<open>event_alive.go\<close>, \<open>event_wrap.go\<close> and \<open>event.go\<close>, with the
  decoder table \<open>eventDecoderList\<close> of \<open>base.go\<close>.

  Join, Healthy, Suspect and Faulty are Go structs with the same fields, as are Left and Alive;
  here they share a record. Each keeps its own encoder and decoder. The interface value
  \<open>EventEncoder\<close> is the datatype of its seven implementations, \<open>anyEventDecoder\<close> the decoders
  that Go hides behind \<open>fsm.AnyDecoder\<close>.
\<close>

subsection \<open>Payloads\<close>

record SourcedEvent =
  e_Source :: IP
  e_Subject :: IP
  e_Incarnation :: u16

type_synonym Join = SourcedEvent
type_synonym Healthy = SourcedEvent
type_synonym Suspect = SourcedEvent
type_synonym Faulty = SourcedEvent

record SubjectEvent =
  s_Subject :: IP
  s_Incarnation :: u16

type_synonym Left = SubjectEvent
type_synonym Alive = SubjectEvent

record Wrap =
  w_Subject :: IP
  w_Incarnation :: u16
  w_NewIncarnation :: u16

definition Join_RequiredSize :: "Join \<Rightarrow> nat" where
  "Join_RequiredSize j = 2 + IP_Size (e_Source j) + IP_Size (e_Subject j)"

definition Join_Encode :: "Join \<Rightarrow> byte list \<Rightarrow> byte list option" where
  "Join_Encode j into = do {
     w \<leftarrow> w_ip (e_Source j) (newWriter into);
     w \<leftarrow> w_ip (e_Subject j) w;
     w \<leftarrow> w_u16 (e_Incarnation j) w;
     Some (wbuffer w)
   }"

definition Join_FromNode :: "Join \<Rightarrow> Node \<Rightarrow> Join" where
  "Join_FromNode j n = j\<lparr>e_Incarnation := n_Incarnation n, e_Subject := copyIP (e_Subject j) (n_Address n)\<rparr>"

definition Join_SetSource :: "Join \<Rightarrow> IP \<Rightarrow> Join" where
  "Join_SetSource j addr = j\<lparr>e_Source := copyIP (e_Source j) addr\<rparr>"

definition Healthy_RequiredSize :: "Healthy \<Rightarrow> nat" where
  "Healthy_RequiredSize h = 2 + IP_Size (e_Subject h) + IP_Size (e_Source h)"

definition Healthy_Encode :: "Healthy \<Rightarrow> byte list \<Rightarrow> byte list option" where
  "Healthy_Encode h into = do {
     w \<leftarrow> w_ip (e_Source h) (newWriter into);
     w \<leftarrow> w_ip (e_Subject h) w;
     w \<leftarrow> w_u16 (e_Incarnation h) w;
     Some (wbuffer w)
   }"

text \<open>\<open>Healthy.SetSource\<close> writes the subject, unlike its three siblings.\<close>

definition Healthy_SetSource :: "Healthy \<Rightarrow> IP \<Rightarrow> Healthy" where
  "Healthy_SetSource h ip = h\<lparr>e_Subject := copyIP (e_Subject h) ip\<rparr>"

definition Healthy_FromNode :: "Healthy \<Rightarrow> Node \<Rightarrow> Healthy" where
  "Healthy_FromNode h n = h\<lparr>e_Subject := copyIP (e_Subject h) (n_Address n), e_Incarnation := n_Incarnation n\<rparr>"

definition Suspect_RequiredSize :: "Suspect \<Rightarrow> nat" where
  "Suspect_RequiredSize s = 2 + IP_Size (e_Source s) + IP_Size (e_Subject s)"

definition Suspect_Encode :: "Suspect \<Rightarrow> byte list \<Rightarrow> byte list option" where
  "Suspect_Encode s into = do {
     w \<leftarrow> w_ip (e_Source s) (newWriter into);
     w \<leftarrow> w_ip (e_Subject s) w;
     w \<leftarrow> w_u16 (e_Incarnation s) w;
     Some (wbuffer w)
   }"

definition Suspect_SetSource :: "Suspect \<Rightarrow> IP \<Rightarrow> Suspect" where
  "Suspect_SetSource s source = s\<lparr>e_Source := copyIP (e_Source s) source\<rparr>"

definition Suspect_FromNode :: "Suspect \<Rightarrow> Node \<Rightarrow> Suspect" where
  "Suspect_FromNode s n = s\<lparr>e_Subject := copyIP (e_Subject s) (n_Address n), e_Incarnation := n_Incarnation n\<rparr>"

definition Faulty_RequiredSize :: "Faulty \<Rightarrow> nat" where
  "Faulty_RequiredSize f = 2 + IP_Size (e_Source f) + IP_Size (e_Subject f)"

definition Faulty_Encode :: "Faulty \<Rightarrow> byte list \<Rightarrow> byte list option" where
  "Faulty_Encode f into = do {
     w \<leftarrow> w_ip (e_Source f) (newWriter into);
     w \<leftarrow> w_ip (e_Subject f) w;
     w \<leftarrow> w_u16 (e_Incarnation f) w;
     Some (wbuffer w)
   }"

definition Faulty_FromNode :: "Faulty \<Rightarrow> Node \<Rightarrow> Faulty" where
  "Faulty_FromNode f n = f\<lparr>e_Incarnation := n_Incarnation n, e_Subject := copyIP (e_Subject f) (n_Address n)\<rparr>"

definition Faulty_SetSource :: "Faulty \<Rightarrow> IP \<Rightarrow> Faulty" where
  "Faulty_SetSource f addr = f\<lparr>e_Source := copyIP (e_Source f) addr\<rparr>"

definition Left_RequiredSize :: "Left \<Rightarrow> nat" where
  "Left_RequiredSize l = 2 + IP_Size (s_Subject l)"

definition Left_Encode :: "Left \<Rightarrow> byte list \<Rightarrow> byte list option" where
  "Left_Encode l into = do {
     w \<leftarrow> w_ip (s_Subject l) (newWriter into);
     w \<leftarrow> w_u16 (s_Incarnation l) w;
     Some (wbuffer w)
   }"

definition Left_FromNode :: "Left \<Rightarrow> Node \<Rightarrow> Left" where
  "Left_FromNode l n = l\<lparr>s_Subject := copyIP (s_Subject l) (n_Address n), s_Incarnation := n_Incarnation n\<rparr>"

definition Alive_RequiredSize :: "Alive \<Rightarrow> nat" where
  "Alive_RequiredSize a = 2 + IP_Size (s_Subject a)"

definition Alive_Encode :: "Alive \<Rightarrow> byte list \<Rightarrow> byte list option" where
  "Alive_Encode a into = do {
     w \<leftarrow> w_ip (s_Subject a) (newWriter into);
     w \<leftarrow> w_u16 (s_Incarnation a) w;
     Some (wbuffer w)
   }"

definition Alive_FromNode :: "Alive \<Rightarrow> Node \<Rightarrow> Alive" where
  "Alive_FromNode a n = a\<lparr>s_Subject := copyIP (s_Subject a) (n_Address n), s_Incarnation := n_Incarnation n\<rparr>"

definition Wrap_RequiredSize :: "Wrap \<Rightarrow> nat" where
  "Wrap_RequiredSize w = 4 + IP_Size (w_Subject w)"

definition Wrap_Encode :: "Wrap \<Rightarrow> byte list \<Rightarrow> byte list option" where
  "Wrap_Encode w into = do {
     wr \<leftarrow> w_ip (w_Subject w) (newWriter into);
     wr \<leftarrow> w_u16 (w_Incarnation w) wr;
     wr \<leftarrow> w_u16 (w_NewIncarnation w) wr;
     Some (wbuffer wr)
   }"

definition Wrap_FromNode :: "Wrap \<Rightarrow> Node \<Rightarrow> Wrap" where
  "Wrap_FromNode w n = w\<lparr>w_Subject := copyIP (w_Subject w) (n_Address n), w_Incarnation := n_Incarnation n\<rparr>"

subsection \<open>The EventEncoder interface\<close>

datatype EventEncoder =
    PJoin Join
  | PHealthy Healthy
  | PSuspect Suspect
  | PFaulty Faulty
  | PLeft Left
  | PAlive Alive
  | PWrap Wrap

fun Kind :: "EventEncoder \<Rightarrow> EventKind" where
  "Kind (PJoin j) = EventJoin"
| "Kind (PHealthy h) = EventHealthy"
| "Kind (PSuspect s) = EventSuspect"
| "Kind (PFaulty f) = EventFaulty"
| "Kind (PLeft l) = EventLeft"
| "Kind (PAlive a) = EventAlive"
| "Kind (PWrap w) = EventWrap"

fun SourceAddressKind :: "EventEncoder \<Rightarrow> AddressKind" where
  "SourceAddressKind (PJoin j) = AddressKind (e_Source j)"
| "SourceAddressKind (PHealthy h) = AddressKind (e_Source h)"
| "SourceAddressKind (PSuspect s) = AddressKind (e_Source s)"
| "SourceAddressKind (PFaulty f) = AddressKind (e_Source f)"
| "SourceAddressKind (PLeft l) = AddressIPv4"
| "SourceAddressKind (PAlive a) = AddressIPv4"
| "SourceAddressKind (PWrap w) = AddressIPv4"

fun GetSubject :: "EventEncoder \<Rightarrow> IP" where
  "GetSubject (PJoin j) = e_Subject j"
| "GetSubject (PHealthy h) = e_Subject h"
| "GetSubject (PSuspect s) = e_Subject s"
| "GetSubject (PFaulty f) = e_Subject f"
| "GetSubject (PLeft l) = s_Subject l"
| "GetSubject (PAlive a) = s_Subject a"
| "GetSubject (PWrap w) = w_Subject w"

definition SubjectAddressKind :: "EventEncoder \<Rightarrow> AddressKind" where
  "SubjectAddressKind p = AddressKind (GetSubject p)"

fun GetIncarnation :: "EventEncoder \<Rightarrow> u16" where
  "GetIncarnation (PJoin j) = e_Incarnation j"
| "GetIncarnation (PHealthy h) = e_Incarnation h"
| "GetIncarnation (PSuspect s) = e_Incarnation s"
| "GetIncarnation (PFaulty f) = e_Incarnation f"
| "GetIncarnation (PLeft l) = s_Incarnation l"
| "GetIncarnation (PAlive a) = s_Incarnation a"
| "GetIncarnation (PWrap w) = w_Incarnation w"

fun Payload_RequiredSize :: "EventEncoder \<Rightarrow> nat" where
  "Payload_RequiredSize (PJoin j) = Join_RequiredSize j"
| "Payload_RequiredSize (PHealthy h) = Healthy_RequiredSize h"
| "Payload_RequiredSize (PSuspect s) = Suspect_RequiredSize s"
| "Payload_RequiredSize (PFaulty f) = Faulty_RequiredSize f"
| "Payload_RequiredSize (PLeft l) = Left_RequiredSize l"
| "Payload_RequiredSize (PAlive a) = Alive_RequiredSize a"
| "Payload_RequiredSize (PWrap w) = Wrap_RequiredSize w"

fun Payload_Encode :: "EventEncoder \<Rightarrow> byte list \<Rightarrow> byte list option" where
  "Payload_Encode (PJoin j) = Join_Encode j"
| "Payload_Encode (PHealthy h) = Healthy_Encode h"
| "Payload_Encode (PSuspect s) = Suspect_Encode s"
| "Payload_Encode (PFaulty f) = Faulty_Encode f"
| "Payload_Encode (PLeft l) = Left_Encode l"
| "Payload_Encode (PAlive a) = Alive_Encode a"
| "Payload_Encode (PWrap w) = Wrap_Encode w"

subsection \<open>Event\<close>

record Event =
  ev_Payload :: EventEncoder

definition Event_EventKind :: "Event \<Rightarrow> EventKind" where
  "Event_EventKind e = Kind (ev_Payload e)"

definition Event_flags :: "Event \<Rightarrow> byte" where
  "Event_flags e = (let flags = push_bit 4 (Kind (ev_Payload e));
       flags = (if SourceAddressKind (ev_Payload e) = AddressIPv6 then flags OR 8 else flags)
     in if SubjectAddressKind (ev_Payload e) = AddressIPv6 then flags OR 4 else flags)"

definition Event_Encode :: "Event \<Rightarrow> byte list \<Rightarrow> byte list option" where
  "Event_Encode e into = do {
     w \<leftarrow> w_u8 (Event_flags e) (newWriter into);
     w \<leftarrow> w_encoder (Payload_Encode (ev_Payload e)) (Payload_RequiredSize (ev_Payload e)) w;
     Some (wbuffer w)
   }"

definition Event_RequiredSize :: "Event \<Rightarrow> nat" where
  "Event_RequiredSize e = 1 + Payload_RequiredSize (ev_Payload e)"

subsection \<open>Wire formats\<close>

fun payload_wire :: "EventEncoder \<Rightarrow> byte list" where
  "payload_wire (PJoin j) = IP_Bytes (e_Source j) @ IP_Bytes (e_Subject j) @ be16 (e_Incarnation j)"
| "payload_wire (PHealthy j) = IP_Bytes (e_Source j) @ IP_Bytes (e_Subject j) @ be16 (e_Incarnation j)"
| "payload_wire (PSuspect j) = IP_Bytes (e_Source j) @ IP_Bytes (e_Subject j) @ be16 (e_Incarnation j)"
| "payload_wire (PFaulty j) = IP_Bytes (e_Source j) @ IP_Bytes (e_Subject j) @ be16 (e_Incarnation j)"
| "payload_wire (PLeft l) = IP_Bytes (s_Subject l) @ be16 (s_Incarnation l)"
| "payload_wire (PAlive l) = IP_Bytes (s_Subject l) @ be16 (s_Incarnation l)"
| "payload_wire (PWrap w) = IP_Bytes (w_Subject w) @ be16 (w_Incarnation w) @ be16 (w_NewIncarnation w)"

text \<open>The addresses a payload carries.\<close>

fun payload_ips :: "EventEncoder \<Rightarrow> IP list" where
  "payload_ips (PJoin j) = [e_Source j, e_Subject j]"
| "payload_ips (PHealthy j) = [e_Source j, e_Subject j]"
| "payload_ips (PSuspect j) = [e_Source j, e_Subject j]"
| "payload_ips (PFaulty j) = [e_Source j, e_Subject j]"
| "payload_ips (PLeft l) = [s_Subject l]"
| "payload_ips (PAlive l) = [s_Subject l]"
| "payload_ips (PWrap w) = [w_Subject w]"

definition typedPayload :: "EventEncoder \<Rightarrow> bool" where
  "typedPayload p \<longleftrightarrow> list_all typedIP (payload_ips p)"

definition wfPayload :: "EventEncoder \<Rightarrow> bool" where
  "wfPayload p \<longleftrightarrow> list_all wfIP (payload_ips p)"

lemmas payload_encode_defs = Join_Encode_def Healthy_Encode_def Suspect_Encode_def Faulty_Encode_def
  Left_Encode_def Alive_Encode_def Wrap_Encode_def

lemmas payload_size_defs = Join_RequiredSize_def Healthy_RequiredSize_def Suspect_RequiredSize_def
  Faulty_RequiredSize_def Left_RequiredSize_def Alive_RequiredSize_def Wrap_RequiredSize_def

lemma wfPayload_typed [simp]: "wfPayload p \<Longrightarrow> typedPayload p"
  by (cases p) (auto simp: wfPayload_def typedPayload_def)

interpretation payload_enc: encoder Payload_Encode Payload_RequiredSize payload_wire typedPayload
proof
  fix v :: EventEncoder
  assume "typedPayload v"
  then show "length (payload_wire v) = Payload_RequiredSize v"
    by (cases v) (auto simp: typedPayload_def payload_size_defs)
next
  fix v :: EventEncoder and buf :: "byte list"
  assume "typedPayload v" and "Payload_RequiredSize v \<le> length buf"
  then show "Payload_Encode v buf = Some (payload_wire v @ drop (Payload_RequiredSize v) buf)"
    by (cases v) (auto simp: typedPayload_def payload_size_defs payload_encode_defs wire_simps ac_simps numeral_eq_Suc)
qed

definition event_wire :: "Event \<Rightarrow> byte list" where
  "event_wire e = Event_flags e # payload_wire (ev_Payload e)"

definition typedEvent :: "Event \<Rightarrow> bool" where
  "typedEvent e \<longleftrightarrow> typedPayload (ev_Payload e)"

definition wfEvent :: "Event \<Rightarrow> bool" where
  "wfEvent e \<longleftrightarrow> wfPayload (ev_Payload e)"

lemma wfEvent_typed [simp]: "wfEvent e \<Longrightarrow> typedEvent e"
  by (simp add: wfEvent_def typedEvent_def)

interpretation event_enc: encoder Event_Encode Event_RequiredSize event_wire typedEvent
  by unfold_locales
    (auto simp: Event_Encode_def Event_RequiredSize_def event_wire_def typedEvent_def wire_simps
      payload_enc.wire_length payload_enc.w_encoder_Wr)

text \<open>The smallest event takes seven bytes: a flag byte, an IPv4 subject and an incarnation.\<close>

lemma Event_RequiredSize_min: "7 \<le> Event_RequiredSize e"
  by (cases "ev_Payload e") (auto simp: Event_RequiredSize_def payload_size_defs intro: trans_le_add1)

end
