(* ===== verification/Event_Decoder.thy ===== *)
theory Event_Decoder
  imports Proto_Event
begin

text \<open>
  The decoders of the seven event payloads and of \<open>Event\<close> itself (\<open>event_*.go\<close>, \<open>event.go\<close>).
  An \<open>Event\<close> starts with a flag byte that selects the payload decoder and tells it the
  address kinds; every later byte goes to that decoder.

  The zero \<open>Event\<close> of Go has a nil payload; \<open>zeroEvent\<close> stands for it. The payload is always
  assigned before the decoder yields its value.
\<close>

subsection \<open>Payloads with a source and a subject\<close>

datatype sourcedDecoderState = StateSource | StateSubject | StateIncarnation

record sourcedDecoderContext =
  c_SourceAddressKind :: AddressKind
  c_SubjectAddressKind :: AddressKind

type_synonym sourcedFSM = "(SourcedEvent, sourcedDecoderState, sourcedDecoderContext) FSM"

abbreviation zeroSourced :: SourcedEvent where
  "zeroSourced \<equiv> \<lparr>e_Source = zeroIP, e_Subject = zeroIP, e_Incarnation = 0\<rparr>"

abbreviation zeroSourcedContext :: sourcedDecoderContext where
  "zeroSourcedContext \<equiv> \<lparr>c_SourceAddressKind = AddressIPv4, c_SubjectAddressKind = AddressIPv4\<rparr>"

definition joinDecoder_Prepare :: "sourcedFSM \<Rightarrow> sourcedFSM" where
  "joinDecoder_Prepare f = (let ctx = fcontext f; v = Value f;
       v = v\<lparr>e_Subject := (e_Subject v)\<lparr>AddressKind := c_SubjectAddressKind ctx\<rparr>\<rparr>;
       v = v\<lparr>e_Source := (e_Source v)\<lparr>AddressKind := c_SourceAddressKind ctx\<rparr>\<rparr>
     in SatisfySize (f\<lparr>Value := v, Size := int (AddressKind_Size (c_SourceAddressKind ctx))\<rparr>))"

definition joinDecoder_Feed :: "(Join, sourcedDecoderState, sourcedDecoderContext) feedFn" where
  "joinDecoder_Feed f st b = (case st of
     StateSource \<Rightarrow> do {
       a \<leftarrow> fsmCopyIP f (e_Source (Value f));
       let f = f\<lparr>Value := (Value f)\<lparr>e_Source := a\<rparr>\<rparr>;
       Some (None, TransitionSatisfySize f StateSubject (int (AddressKind_Size (c_SubjectAddressKind (fcontext f)))))
     }
   | StateSubject \<Rightarrow> do {
       a \<leftarrow> fsmCopyIP f (e_Subject (Value f));
       Some (None, TransitionSatisfySize (f\<lparr>Value := (Value f)\<lparr>e_Subject := a\<rparr>\<rparr>) StateIncarnation 2)
     }
   | StateIncarnation \<Rightarrow> do {
       inc \<leftarrow> U16 f;
       Some (Some Done, f\<lparr>Value := (Value f)\<lparr>e_Incarnation := inc\<rparr>\<rparr>)
     })"

definition joinDecoder :: "(Join, sourcedDecoderState, sourcedDecoderContext) Def" where
  "joinDecoder = \<lparr>InitialSize = 0, InitialState = StateSource, NewT = zeroSourced,
     NewC = zeroSourcedContext, ResetC = id, DefFeed = joinDecoder_Feed, DefPrepare = joinDecoder_Prepare\<rparr>"

definition healthyDecoder_Prepare :: "sourcedFSM \<Rightarrow> sourcedFSM" where
  "healthyDecoder_Prepare f = (let ctx = fcontext f; v = Value f;
       v = v\<lparr>e_Subject := (e_Subject v)\<lparr>AddressKind := c_SubjectAddressKind ctx\<rparr>\<rparr>;
       v = v\<lparr>e_Source := (e_Source v)\<lparr>AddressKind := c_SourceAddressKind ctx\<rparr>\<rparr>
     in SatisfySize (f\<lparr>Value := v, Size := int (AddressKind_Size (c_SourceAddressKind ctx))\<rparr>))"

definition healthyDecoder_Feed :: "(Healthy, sourcedDecoderState, sourcedDecoderContext) feedFn" where
  "healthyDecoder_Feed f st b = (case st of
     StateSource \<Rightarrow> do {
       a \<leftarrow> fsmCopyIP f (e_Source (Value f));
       let f = f\<lparr>Value := (Value f)\<lparr>e_Source := a\<rparr>\<rparr>;
       Some (None, TransitionSatisfySize f StateSubject (int (AddressKind_Size (c_SubjectAddressKind (fcontext f)))))
     }
   | StateSubject \<Rightarrow> do {
       a \<leftarrow> fsmCopyIP f (e_Subject (Value f));
       Some (None, TransitionSatisfySize (f\<lparr>Value := (Value f)\<lparr>e_Subject := a\<rparr>\<rparr>) StateIncarnation 2)
     }
   | StateIncarnation \<Rightarrow> do {
       inc \<leftarrow> U16 f;
       Some (Some Done, f\<lparr>Value := (Value f)\<lparr>e_Incarnation := inc\<rparr>\<rparr>)
     })"

definition healthyDecoder :: "(Healthy, sourcedDecoderState, sourcedDecoderContext) Def" where
  "healthyDecoder = \<lparr>InitialSize = 0, InitialState = StateSource, NewT = zeroSourced,
     NewC = zeroSourcedContext, ResetC = id, DefFeed = healthyDecoder_Feed, DefPrepare = healthyDecoder_Prepare\<rparr>"

definition suspectDecoder_Prepare :: "sourcedFSM \<Rightarrow> sourcedFSM" where
  "suspectDecoder_Prepare f = (let ctx = fcontext f; v = Value f;
       v = v\<lparr>e_Subject := (e_Subject v)\<lparr>AddressKind := c_SubjectAddressKind ctx\<rparr>\<rparr>;
       v = v\<lparr>e_Source := (e_Source v)\<lparr>AddressKind := c_SourceAddressKind ctx\<rparr>\<rparr>
     in SatisfySize (f\<lparr>Value := v, Size := int (AddressKind_Size (c_SourceAddressKind ctx))\<rparr>))"

text \<open>The decoder of Suspect sets the address kinds once more before it copies an address.\<close>

definition suspectDecoder_Feed :: "(Suspect, sourcedDecoderState, sourcedDecoderContext) feedFn" where
  "suspectDecoder_Feed f st b = (case st of
     StateSource \<Rightarrow> do {
       a \<leftarrow> fsmCopyIP f ((e_Source (Value f))\<lparr>AddressKind := c_SourceAddressKind (fcontext f)\<rparr>);
       let f = f\<lparr>Value := (Value f)\<lparr>e_Source := a\<rparr>\<rparr>;
       Some (None, TransitionSatisfySize f StateSubject (int (AddressKind_Size (c_SubjectAddressKind (fcontext f)))))
     }
   | StateSubject \<Rightarrow> do {
       a \<leftarrow> fsmCopyIP f ((e_Subject (Value f))\<lparr>AddressKind := c_SubjectAddressKind (fcontext f)\<rparr>);
       Some (None, TransitionSatisfySize (f\<lparr>Value := (Value f)\<lparr>e_Subject := a\<rparr>\<rparr>) StateIncarnation 2)
     }
   | StateIncarnation \<Rightarrow> do {
       inc \<leftarrow> U16 f;
       Some (Some Done, f\<lparr>Value := (Value f)\<lparr>e_Incarnation := inc\<rparr>\<rparr>)
     })"

definition suspectDecoder :: "(Suspect, sourcedDecoderState, sourcedDecoderContext) Def" where
  "suspectDecoder = \<lparr>InitialSize = 0, InitialState = StateSource, NewT = zeroSourced,
     NewC = zeroSourcedContext, ResetC = id, DefFeed = suspectDecoder_Feed, DefPrepare = suspectDecoder_Prepare\<rparr>"

definition faultyDecoder_Prepare :: "sourcedFSM \<Rightarrow> sourcedFSM" where
  "faultyDecoder_Prepare f = (let ctx = fcontext f; v = Value f;
       v = v\<lparr>e_Subject := (e_Subject v)\<lparr>AddressKind := c_SubjectAddressKind ctx\<rparr>\<rparr>;
       v = v\<lparr>e_Source := (e_Source v)\<lparr>AddressKind := c_SourceAddressKind ctx\<rparr>\<rparr>
     in SatisfySize (f\<lparr>Value := v, Size := int (AddressKind_Size (c_SourceAddressKind ctx))\<rparr>))"

definition faultyDecoder_Feed :: "(Faulty, sourcedDecoderState, sourcedDecoderContext) feedFn" where
  "faultyDecoder_Feed f st b = (case st of
     StateSource \<Rightarrow> do {
       a \<leftarrow> fsmCopyIP f (e_Source (Value f));
       let f = f\<lparr>Value := (Value f)\<lparr>e_Source := a\<rparr>\<rparr>;
       Some (None, TransitionSatisfySize f StateSubject (int (AddressKind_Size (c_SubjectAddressKind (fcontext f)))))
     }
   | StateSubject \<Rightarrow> do {
       a \<leftarrow> fsmCopyIP f (e_Subject (Value f));
       Some (None, TransitionSatisfySize (f\<lparr>Value := (Value f)\<lparr>e_Subject := a\<rparr>\<rparr>) StateIncarnation 2)
     }
   | StateIncarnation \<Rightarrow> do {
       inc \<leftarrow> U16 f;
       Some (Some Done, f\<lparr>Value := (Value f)\<lparr>e_Incarnation := inc\<rparr>\<rparr>)
     })"

definition faultyDecoder :: "(Faulty, sourcedDecoderState, sourcedDecoderContext) Def" where
  "faultyDecoder = \<lparr>InitialSize = 0, InitialState = StateSource, NewT = zeroSourced,
     NewC = zeroSourcedContext, ResetC = id, DefFeed = faultyDecoder_Feed, DefPrepare = faultyDecoder_Prepare\<rparr>"

subsection \<open>Payloads with a subject only\<close>

datatype subjectDecoderState = SubStateSubject | SubStateIncarnation

text \<open>The context holds the address kind of the subject.\<close>

type_synonym subjectFSM = "(SubjectEvent, subjectDecoderState, AddressKind) FSM"

abbreviation zeroSubjectEvent :: SubjectEvent where
  "zeroSubjectEvent \<equiv> \<lparr>s_Subject = zeroIP, s_Incarnation = 0\<rparr>"

definition leftDecoder_Prepare :: "subjectFSM \<Rightarrow> subjectFSM" where
  "leftDecoder_Prepare f = (let v = Value f;
       v = v\<lparr>s_Subject := (s_Subject v)\<lparr>AddressKind := fcontext f\<rparr>\<rparr>
     in SatisfySize (f\<lparr>Value := v, Size := int (AddressKind_Size (fcontext f))\<rparr>))"

definition leftDecoder_Feed :: "(Left, subjectDecoderState, AddressKind) feedFn" where
  "leftDecoder_Feed f st b = (case st of
     SubStateSubject \<Rightarrow> do {
       a \<leftarrow> fsmCopyIP f (s_Subject (Value f));
       Some (None, TransitionSatisfySize (f\<lparr>Value := (Value f)\<lparr>s_Subject := a\<rparr>\<rparr>) SubStateIncarnation 2)
     }
   | SubStateIncarnation \<Rightarrow> do {
       inc \<leftarrow> U16 f;
       Some (Some Done, f\<lparr>Value := (Value f)\<lparr>s_Incarnation := inc\<rparr>\<rparr>)
     })"

definition leftDecoder :: "(Left, subjectDecoderState, AddressKind) Def" where
  "leftDecoder = \<lparr>InitialSize = 0, InitialState = SubStateSubject, NewT = zeroSubjectEvent,
     NewC = AddressIPv4, ResetC = id, DefFeed = leftDecoder_Feed, DefPrepare = leftDecoder_Prepare\<rparr>"

definition aliveDecoder_Prepare :: "subjectFSM \<Rightarrow> subjectFSM" where
  "aliveDecoder_Prepare f = (let v = Value f;
       v = v\<lparr>s_Subject := (s_Subject v)\<lparr>AddressKind := fcontext f\<rparr>\<rparr>
     in SatisfySize (f\<lparr>Value := v, Size := int (AddressKind_Size (fcontext f))\<rparr>))"

definition aliveDecoder_Feed :: "(Alive, subjectDecoderState, AddressKind) feedFn" where
  "aliveDecoder_Feed f st b = (case st of
     SubStateSubject \<Rightarrow> do {
       a \<leftarrow> fsmCopyIP f (s_Subject (Value f));
       Some (None, TransitionSatisfySize (f\<lparr>Value := (Value f)\<lparr>s_Subject := a\<rparr>\<rparr>) SubStateIncarnation 2)
     }
   | SubStateIncarnation \<Rightarrow> do {
       inc \<leftarrow> U16 f;
       Some (Some Done, f\<lparr>Value := (Value f)\<lparr>s_Incarnation := inc\<rparr>\<rparr>)
     })"

definition aliveDecoder :: "(Alive, subjectDecoderState, AddressKind) Def" where
  "aliveDecoder = \<lparr>InitialSize = 0, InitialState = SubStateSubject, NewT = zeroSubjectEvent,
     NewC = AddressIPv4, ResetC = id, DefFeed = aliveDecoder_Feed, DefPrepare = aliveDecoder_Prepare\<rparr>"

datatype wrapDecoderState = wrapDecoderStateSubject | wrapDecoderStateIncarnation | wrapDecoderStateNewIncarnation

type_synonym wrapFSM = "(Wrap, wrapDecoderState, AddressKind) FSM"

definition wrapDecoder_Prepare :: "wrapFSM \<Rightarrow> wrapFSM" where
  "wrapDecoder_Prepare f = (let v = Value f;
       v = v\<lparr>w_Subject := (w_Subject v)\<lparr>AddressKind := fcontext f\<rparr>\<rparr>
     in SatisfySize (f\<lparr>Value := v, Size := int (AddressKind_Size (fcontext f))\<rparr>))"

definition wrapDecoder_Feed :: "(Wrap, wrapDecoderState, AddressKind) feedFn" where
  "wrapDecoder_Feed f st b = (case st of
     wrapDecoderStateSubject \<Rightarrow> do {
       a \<leftarrow> fsmCopyIP f (w_Subject (Value f));
       Some (None, TransitionSatisfySize (f\<lparr>Value := (Value f)\<lparr>w_Subject := a\<rparr>\<rparr>) wrapDecoderStateIncarnation 2)
     }
   | wrapDecoderStateIncarnation \<Rightarrow> do {
       inc \<leftarrow> U16 f;
       Some (None, TransitionSatisfySize (f\<lparr>Value := (Value f)\<lparr>w_Incarnation := inc\<rparr>\<rparr>) wrapDecoderStateNewIncarnation 2)
     }
   | wrapDecoderStateNewIncarnation \<Rightarrow> do {
       inc \<leftarrow> U16 f;
       Some (Some Done, f\<lparr>Value := (Value f)\<lparr>w_NewIncarnation := inc\<rparr>\<rparr>)
     })"

definition wrapDecoder :: "(Wrap, wrapDecoderState, AddressKind) Def" where
  "wrapDecoder = \<lparr>InitialSize = 0, InitialState = wrapDecoderStateSubject,
     NewT = \<lparr>w_Subject = zeroIP, w_Incarnation = 0, w_NewIncarnation = 0\<rparr>,
     NewC = AddressIPv4, ResetC = id, DefFeed = wrapDecoder_Feed, DefPrepare = wrapDecoder_Prepare\<rparr>"

subsection \<open>The decoder table\<close>

datatype anyEventDecoder =
    DJoin sourcedFSM
  | DHealthy sourcedFSM
  | DSuspect sourcedFSM
  | DFaulty sourcedFSM
  | DLeft subjectFSM
  | DAlive subjectFSM
  | DWrap wrapFSM

text \<open>\<open>eventDecoderList[kind]\<close> followed by \<open>NewGeneric\<close>.\<close>

definition eventDecoderList :: "EventKind \<Rightarrow> anyEventDecoder option" where
  "eventDecoderList k =
     (if k = EventJoin then Some (DJoin (New joinDecoder))
      else if k = EventSuspect then Some (DSuspect (New suspectDecoder))
      else if k = EventFaulty then Some (DFaulty (New faultyDecoder))
      else if k = EventLeft then Some (DLeft (New leftDecoder))
      else if k = EventAlive then Some (DAlive (New aliveDecoder))
      else if k = EventWrap then Some (DWrap (New wrapDecoder))
      else if k = EventHealthy then Some (DHealthy (New healthyDecoder))
      else None)"

text \<open>The setters of the payload contexts; a context without the method is left alone.\<close>

fun SetSourceAddressKind :: "AddressKind \<Rightarrow> anyEventDecoder \<Rightarrow> anyEventDecoder" where
  "SetSourceAddressKind k (DJoin f) = DJoin (f\<lparr>fcontext := (fcontext f)\<lparr>c_SourceAddressKind := k\<rparr>\<rparr>)"
| "SetSourceAddressKind k (DHealthy f) = DHealthy (f\<lparr>fcontext := (fcontext f)\<lparr>c_SourceAddressKind := k\<rparr>\<rparr>)"
| "SetSourceAddressKind k (DSuspect f) = DSuspect (f\<lparr>fcontext := (fcontext f)\<lparr>c_SourceAddressKind := k\<rparr>\<rparr>)"
| "SetSourceAddressKind k (DFaulty f) = DFaulty (f\<lparr>fcontext := (fcontext f)\<lparr>c_SourceAddressKind := k\<rparr>\<rparr>)"
| "SetSourceAddressKind k d = d"

fun SetSubjectAddressKind :: "AddressKind \<Rightarrow> anyEventDecoder \<Rightarrow> anyEventDecoder" where
  "SetSubjectAddressKind k (DJoin f) = DJoin (f\<lparr>fcontext := (fcontext f)\<lparr>c_SubjectAddressKind := k\<rparr>\<rparr>)"
| "SetSubjectAddressKind k (DHealthy f) = DHealthy (f\<lparr>fcontext := (fcontext f)\<lparr>c_SubjectAddressKind := k\<rparr>\<rparr>)"
| "SetSubjectAddressKind k (DSuspect f) = DSuspect (f\<lparr>fcontext := (fcontext f)\<lparr>c_SubjectAddressKind := k\<rparr>\<rparr>)"
| "SetSubjectAddressKind k (DFaulty f) = DFaulty (f\<lparr>fcontext := (fcontext f)\<lparr>c_SubjectAddressKind := k\<rparr>\<rparr>)"
| "SetSubjectAddressKind k (DLeft f) = DLeft (f\<lparr>fcontext := k\<rparr>)"
| "SetSubjectAddressKind k (DAlive f) = DAlive (f\<lparr>fcontext := k\<rparr>)"
| "SetSubjectAddressKind k (DWrap f) = DWrap (f\<lparr>fcontext := k\<rparr>)"

fun EventDecoder_Prepare :: "anyEventDecoder \<Rightarrow> anyEventDecoder" where
  "EventDecoder_Prepare (DJoin f) = DJoin (Prepare joinDecoder f)"
| "EventDecoder_Prepare (DHealthy f) = DHealthy (Prepare healthyDecoder f)"
| "EventDecoder_Prepare (DSuspect f) = DSuspect (Prepare suspectDecoder f)"
| "EventDecoder_Prepare (DFaulty f) = DFaulty (Prepare faultyDecoder f)"
| "EventDecoder_Prepare (DLeft f) = DLeft (Prepare leftDecoder f)"
| "EventDecoder_Prepare (DAlive f) = DAlive (Prepare aliveDecoder f)"
| "EventDecoder_Prepare (DWrap f) = DWrap (Prepare wrapDecoder f)"

text \<open>\<open>FSM.FeedAny\<close> hides the type of the value: it applies the constructor of the interface.\<close>

definition FeedAny :: "('v, 'm) step \<Rightarrow> ('v \<Rightarrow> 'w) \<Rightarrow> ('m \<Rightarrow> 'n) \<Rightarrow> 'm \<Rightarrow> byte
    \<Rightarrow> ('w option \<times> go_error option \<times> 'n) option" where
  "FeedAny feed into keep f b = map_option (\<lambda>(v, err, f). (map_option into v, err, keep f)) (feed f b)"

fun EventDecoder_FeedAny :: "anyEventDecoder \<Rightarrow> byte
    \<Rightarrow> (EventEncoder option \<times> go_error option \<times> anyEventDecoder) option" where
  "EventDecoder_FeedAny (DJoin f) b = FeedAny (Feed joinDecoder_Feed) PJoin DJoin f b"
| "EventDecoder_FeedAny (DHealthy f) b = FeedAny (Feed healthyDecoder_Feed) PHealthy DHealthy f b"
| "EventDecoder_FeedAny (DSuspect f) b = FeedAny (Feed suspectDecoder_Feed) PSuspect DSuspect f b"
| "EventDecoder_FeedAny (DFaulty f) b = FeedAny (Feed faultyDecoder_Feed) PFaulty DFaulty f b"
| "EventDecoder_FeedAny (DLeft f) b = FeedAny (Feed leftDecoder_Feed) PLeft DLeft f b"
| "EventDecoder_FeedAny (DAlive f) b = FeedAny (Feed aliveDecoder_Feed) PAlive DAlive f b"
| "EventDecoder_FeedAny (DWrap f) b = FeedAny (Feed wrapDecoder_Feed) PWrap DWrap f b"

subsection \<open>The decoder of Event\<close>

datatype eventDecoderState = eventDecoderStateFlags | eventDecoderStatePayload

record eventDecoderContext =
  sourceAddressKind :: AddressKind
  subjectAddressKind :: AddressKind
  eventKind :: EventKind
  decoder :: "anyEventDecoder option"

definition eventDecoderContext_Reset :: "eventDecoderContext \<Rightarrow> eventDecoderContext" where
  "eventDecoderContext_Reset e = e\<lparr>sourceAddressKind := AddressIPv4, subjectAddressKind := AddressIPv4,
     decoder := None\<rparr>"

type_synonym eventFSM = "(Event, eventDecoderState, eventDecoderContext) FSM"

abbreviation zeroEvent :: Event where
  "zeroEvent \<equiv> \<lparr>ev_Payload = PLeft zeroSubjectEvent\<rparr>"

definition eventDecoder_Feed :: "(Event, eventDecoderState, eventDecoderContext) feedFn" where
  "eventDecoder_Feed f st b = (case st of
     eventDecoderStateFlags \<Rightarrow>
       (let ctx = (fcontext f)\<lparr>eventKind := drop_bit 4 b AND 15,
              sourceAddressKind := drop_bit 3 (b AND 8),
              subjectAddressKind := drop_bit 2 (b AND 4)\<rparr>;
            f = f\<lparr>fcontext := ctx\<rparr>
        in case eventDecoderList (eventKind ctx) of
             None \<Rightarrow> Some (Some (NoEventDecoderError (eventKind ctx)), Reset f)
           | Some dec \<Rightarrow>
               (let dec = SetSourceAddressKind (sourceAddressKind ctx) dec;
                    dec = SetSubjectAddressKind (subjectAddressKind ctx) dec;
                    dec = EventDecoder_Prepare dec;
                    f = f\<lparr>fcontext := ctx\<lparr>decoder := Some dec\<rparr>\<rparr>
                in Some (None, Transition f eventDecoderStatePayload)))
   | eventDecoderStatePayload \<Rightarrow>
       (case decoder (fcontext f) of
          None \<Rightarrow> None
        | Some dec \<Rightarrow> do {
            (val, err, dec) \<leftarrow> EventDecoder_FeedAny dec b;
            let f = f\<lparr>fcontext := (fcontext f)\<lparr>decoder := Some dec\<rparr>\<rparr>;
            (case err of Some e \<Rightarrow> Some (Some e, f)
             | None \<Rightarrow> (case val of None \<Rightarrow> Some (None, f)
                 | Some p \<Rightarrow> Some (Some Done, f\<lparr>Value := (Value f)\<lparr>ev_Payload := p\<rparr>\<rparr>)))
          }))"

definition eventDecoder :: "(Event, eventDecoderState, eventDecoderContext) Def" where
  "eventDecoder = \<lparr>InitialSize = 0, InitialState = eventDecoderStateFlags, NewT = zeroEvent,
     NewC = \<lparr>sourceAddressKind = AddressIPv4, subjectAddressKind = AddressIPv4, eventKind = 0, decoder = None\<rparr>,
     ResetC = eventDecoderContext_Reset, DefFeed = eventDecoder_Feed, DefPrepare = id\<rparr>"


subsection \<open>Decoding the wire format of a payload\<close>

lemmas event_feed_defs = joinDecoder_Feed_def healthyDecoder_Feed_def suspectDecoder_Feed_def
  faultyDecoder_Feed_def leftDecoder_Feed_def aliveDecoder_Feed_def wrapDecoder_Feed_def

lemmas event_prepare_defs = joinDecoder_Prepare_def healthyDecoder_Prepare_def suspectDecoder_Prepare_def
  faultyDecoder_Prepare_def leftDecoder_Prepare_def aliveDecoder_Prepare_def wrapDecoder_Prepare_def

lemmas event_def_defs = joinDecoder_def healthyDecoder_def suspectDecoder_def
  faultyDecoder_def leftDecoder_def aliveDecoder_def wrapDecoder_def

lemma twin_feeds:
  "healthyDecoder_Feed = joinDecoder_Feed" "faultyDecoder_Feed = joinDecoder_Feed"
  "aliveDecoder_Feed = leftDecoder_Feed"
  by (simp_all add: event_feed_defs fun_eq_iff)

text \<open>A payload decoder after the flag byte: prepared for the address kinds of the payload.\<close>

definition sourced_start :: "AddressKind \<Rightarrow> AddressKind \<Rightarrow> sourcedFSM" where
  "sourced_start src sub = joinDecoder_Prepare ((New joinDecoder)
     \<lparr>fcontext := \<lparr>c_SourceAddressKind = src, c_SubjectAddressKind = sub\<rparr>\<rparr>)"

definition subject_start :: "AddressKind \<Rightarrow> subjectFSM" where
  "subject_start sub = leftDecoder_Prepare ((New leftDecoder)\<lparr>fcontext := sub\<rparr>)"

definition wrap_start :: "AddressKind \<Rightarrow> wrapFSM" where
  "wrap_start sub = wrapDecoder_Prepare ((New wrapDecoder)\<lparr>fcontext := sub\<rparr>)"

lemmas start_defs = sourced_start_def subject_start_def wrap_start_def event_prepare_defs event_def_defs
  Prepare_def

fun payload_start :: "EventEncoder \<Rightarrow> AddressKind \<Rightarrow> AddressKind \<Rightarrow> anyEventDecoder" where
  "payload_start (PJoin _) src sub = DJoin (sourced_start src sub)"
| "payload_start (PHealthy _) src sub = DHealthy (sourced_start src sub)"
| "payload_start (PSuspect _) src sub = DSuspect (sourced_start src sub)"
| "payload_start (PFaulty _) src sub = DFaulty (sourced_start src sub)"
| "payload_start (PLeft _) src sub = DLeft (subject_start sub)"
| "payload_start (PAlive _) src sub = DAlive (subject_start sub)"
| "payload_start (PWrap _) src sub = DWrap (wrap_start sub)"

lemma payload_start_prepared:
  "\<exists>dec. eventDecoderList (Kind p) = Some dec \<and>
     EventDecoder_Prepare (SetSubjectAddressKind sub (SetSourceAddressKind src dec)) = payload_start p src sub"
  by (cases p) (simp_all add: eventDecoderList_def start_defs fsm_simps)

lemma sourced_decodes:
  assumes "F = joinDecoder_Feed \<or> F = suspectDecoder_Feed" and "wfIP (e_Source v)" and "wfIP (e_Subject v)"
  shows "\<exists>f'. \<forall>ys. Drive (Feed F) (sourced_start (AddressKind (e_Source v)) (AddressKind (e_Subject v)))
    (IP_Bytes (e_Source v) @ IP_Bytes (e_Subject v) @ be16 (e_Incarnation v) @ ys) = Some (Some (v, ys), f')"
  using assms
  by (elim disjE)
    (simp_all add: Drive_block start_defs event_feed_defs fsm_simps IP_Size_def fsmCopyIP_wire del: Drive.simps)

lemma subject_decodes:
  assumes "wfIP (s_Subject v)"
  shows "\<exists>f'. \<forall>ys. Drive (Feed leftDecoder_Feed) (subject_start (AddressKind (s_Subject v)))
    (IP_Bytes (s_Subject v) @ be16 (s_Incarnation v) @ ys) = Some (Some (v, ys), f')"
  using assms
  by (simp add: Drive_block start_defs event_feed_defs fsm_simps IP_Size_def fsmCopyIP_wire del: Drive.simps)

lemma wrap_decodes:
  assumes "wfIP (w_Subject v)"
  shows "\<exists>f'. \<forall>ys. Drive (Feed wrapDecoder_Feed) (wrap_start (AddressKind (w_Subject v)))
    (IP_Bytes (w_Subject v) @ be16 (w_Incarnation v) @ be16 (w_NewIncarnation v) @ ys) = Some (Some (v, ys), f')"
  using assms
  by (simp add: Drive_block start_defs event_feed_defs fsm_simps IP_Size_def fsmCopyIP_wire del: Drive.simps)

lemma EventDecoder_wrapped:
  "Drive EventDecoder_FeedAny (DJoin f) = (\<lambda>xs. map_option (\<lambda>(r, g). (map_option (\<lambda>(v, ys). (PJoin v, ys)) r, DJoin g)) (Drive (Feed joinDecoder_Feed) f xs))"
  "Drive EventDecoder_FeedAny (DHealthy f) = (\<lambda>xs. map_option (\<lambda>(r, g). (map_option (\<lambda>(v, ys). (PHealthy v, ys)) r, DHealthy g)) (Drive (Feed healthyDecoder_Feed) f xs))"
  "Drive EventDecoder_FeedAny (DSuspect f) = (\<lambda>xs. map_option (\<lambda>(r, g). (map_option (\<lambda>(v, ys). (PSuspect v, ys)) r, DSuspect g)) (Drive (Feed suspectDecoder_Feed) f xs))"
  "Drive EventDecoder_FeedAny (DFaulty f) = (\<lambda>xs. map_option (\<lambda>(r, g). (map_option (\<lambda>(v, ys). (PFaulty v, ys)) r, DFaulty g)) (Drive (Feed faultyDecoder_Feed) f xs))"
  "Drive EventDecoder_FeedAny (DLeft h) = (\<lambda>xs. map_option (\<lambda>(r, g). (map_option (\<lambda>(v, ys). (PLeft v, ys)) r, DLeft g)) (Drive (Feed leftDecoder_Feed) h xs))"
  "Drive EventDecoder_FeedAny (DAlive h) = (\<lambda>xs. map_option (\<lambda>(r, g). (map_option (\<lambda>(v, ys). (PAlive v, ys)) r, DAlive g)) (Drive (Feed aliveDecoder_Feed) h xs))"
  "Drive EventDecoder_FeedAny (DWrap k) = (\<lambda>xs. map_option (\<lambda>(r, g). (map_option (\<lambda>(v, ys). (PWrap v, ys)) r, DWrap g)) (Drive (Feed wrapDecoder_Feed) k xs))"
  by (rule ext, rule Drive_wrapped, simp add: FeedAny_def)+

lemma payload_decodes:
  assumes "wfPayload p"
  shows "\<exists>d. \<forall>ys. Drive EventDecoder_FeedAny (payload_start p (SourceAddressKind p) (SubjectAddressKind p))
    (payload_wire p @ ys) = Some (Some (p, ys), d)"
  using assms
proof (cases p)
  case (PJoin j)
  with assms sourced_decodes [of joinDecoder_Feed j] show ?thesis
    by (auto simp: EventDecoder_wrapped SubjectAddressKind_def wfPayload_def)
next
  case (PHealthy j)
  with assms sourced_decodes [of joinDecoder_Feed j] show ?thesis
    by (auto simp: EventDecoder_wrapped SubjectAddressKind_def wfPayload_def twin_feeds)
next
  case (PSuspect j)
  with assms sourced_decodes [of suspectDecoder_Feed j] show ?thesis
    by (auto simp: EventDecoder_wrapped SubjectAddressKind_def wfPayload_def)
next
  case (PFaulty j)
  with assms sourced_decodes [of joinDecoder_Feed j] show ?thesis
    by (auto simp: EventDecoder_wrapped SubjectAddressKind_def wfPayload_def twin_feeds)
next
  case (PLeft l)
  with assms subject_decodes [of l] show ?thesis
    by (auto simp: EventDecoder_wrapped SubjectAddressKind_def wfPayload_def)
next
  case (PAlive l)
  with assms subject_decodes [of l] show ?thesis
    by (auto simp: EventDecoder_wrapped SubjectAddressKind_def wfPayload_def twin_feeds)
next
  case (PWrap w)
  with assms wrap_decodes [of w] show ?thesis
    by (auto simp: EventDecoder_wrapped SubjectAddressKind_def wfPayload_def)
qed

subsection \<open>Decoding the wire format of an event\<close>

lemma EventDecoder_FeedAny_error_nil: "EventDecoder_FeedAny d b = Some (v, e, d') \<Longrightarrow> e = None"
  by (cases d) (auto simp: FeedAny_def dest: Feed_error_nil_aux)

definition event_inner :: "eventFSM \<Rightarrow> anyEventDecoder" where
  "event_inner f = the (decoder (fcontext f))"

definition event_with :: "anyEventDecoder \<Rightarrow> eventFSM \<Rightarrow> eventFSM" where
  "event_with d f = f\<lparr>fcontext := (fcontext f)\<lparr>decoder := Some d\<rparr>\<rparr>"

definition event_in_payload :: "eventFSM \<Rightarrow> bool" where
  "event_in_payload f \<longleftrightarrow> \<not> mustSatisfySize f \<and> fstate f = eventDecoderStatePayload \<and> decoder (fcontext f) \<noteq> None"

interpretation event_deleg: delegation eventDecoder_Feed EventDecoder_FeedAny event_inner event_with
  event_in_payload "\<lambda>p f. Some (Some Done, f\<lparr>Value := (Value f)\<lparr>ev_Payload := p\<rparr>\<rparr>)"
  by unfold_locales
    (auto simp: event_inner_def event_with_def event_in_payload_def eventDecoder_Feed_def
      EventDecoder_FeedAny_error_nil split: option.splits)

lemma Event_flags_fields:
  assumes "wfEvent e"
  shows "drop_bit 4 (Event_flags e) AND 15 = Kind (ev_Payload e)"
    and "drop_bit 3 (Event_flags e AND 8) = SourceAddressKind (ev_Payload e)"
    and "drop_bit 2 (Event_flags e AND 4) = SubjectAddressKind (ev_Payload e)"
proof -
  have src: "SourceAddressKind (ev_Payload e) = AddressIPv4 \<or> SourceAddressKind (ev_Payload e) = AddressIPv6"
    using assms wfIP_kind by (cases "ev_Payload e") (auto simp: wfEvent_def wfPayload_def)
  have sub: "SubjectAddressKind (ev_Payload e) = AddressIPv4 \<or> SubjectAddressKind (ev_Payload e) = AddressIPv6"
    using assms wfIP_kind by (cases "ev_Payload e") (auto simp: wfEvent_def wfPayload_def SubjectAddressKind_def)
  have kind: "Kind (ev_Payload e) \<in> {0, 1, 2, 3, 4, 5, 6}" by (cases "ev_Payload e") auto
  show "drop_bit 4 (Event_flags e) AND 15 = Kind (ev_Payload e)"
    using src sub kind unfolding Event_flags_def Let_def by (elim disjE insertE emptyE) (simp_all)
  show "drop_bit 3 (Event_flags e AND 8) = SourceAddressKind (ev_Payload e)"
    using src sub kind unfolding Event_flags_def Let_def by (elim disjE insertE emptyE) (simp_all)
  show "drop_bit 2 (Event_flags e AND 4) = SubjectAddressKind (ev_Payload e)"
    using src sub kind unfolding Event_flags_def Let_def by (elim disjE insertE emptyE) (simp_all)
qed

definition event_ready :: "eventFSM \<Rightarrow> bool" where
  "event_ready f \<longleftrightarrow> of_def eventDecoder f \<and> \<not> mustSatisfySize f \<and> fstate f = eventDecoderStateFlags"

lemma event_ready_New [simp]: "event_ready (New eventDecoder)"
  by (simp add: event_ready_def New_eq of_def_def eventDecoder_def)

lemma event_ready_Reset [simp]: "of_def eventDecoder f \<Longrightarrow> event_ready (Reset f)"
  by (simp add: event_ready_def of_def_fields fsm_simps) (simp add: eventDecoder_def)

text \<open>After the flag byte the decoder waits for the payload, with the right payload decoder in place.\<close>

lemma event_flags_step:
  assumes "event_ready f" and "wfEvent e"
  shows "\<exists>g. (\<forall>ys. Drive (Feed eventDecoder_Feed) f (Event_flags e # ys) = Drive (Feed eventDecoder_Feed) g ys)
    \<and> event_in_payload g \<and> of_def eventDecoder g
    \<and> event_inner g = payload_start (ev_Payload e) (SourceAddressKind (ev_Payload e)) (SubjectAddressKind (ev_Payload e))"
proof -
  let ?p = "ev_Payload e"
  obtain dec where dec: "eventDecoderList (Kind ?p) = Some dec"
    "EventDecoder_Prepare (SetSubjectAddressKind (SubjectAddressKind ?p) (SetSourceAddressKind (SourceAddressKind ?p) dec))
      = payload_start ?p (SourceAddressKind ?p) (SubjectAddressKind ?p)"
    using payload_start_prepared by blast
  then show ?thesis
    using assms Event_flags_fields [OF assms(2)]
    by (intro exI [of _ "f\<lparr>currentByte := Event_flags e,
        fcontext := (fcontext f)\<lparr>eventKind := Kind ?p, sourceAddressKind := SourceAddressKind ?p,
          subjectAddressKind := SubjectAddressKind ?p,
          decoder := Some (payload_start ?p (SourceAddressKind ?p) (SubjectAddressKind ?p))\<rparr>,
        Size := 0, fstate := eventDecoderStatePayload, Payload := []\<rparr>"])
      (auto simp: event_ready_def Drive_direct eventDecoder_Feed_def fsm_simps event_in_payload_def event_inner_def
        simp del: Drive.simps)
qed

interpretation event_dec: stream_decoder "Feed eventDecoder_Feed" event_ready wfEvent event_wire
proof
  fix f :: eventFSM and e :: Event
  assume ready: "event_ready f" and wf: "wfEvent e"
  obtain g where g: "\<And>ys. Drive (Feed eventDecoder_Feed) f (Event_flags e # ys) = Drive (Feed eventDecoder_Feed) g ys"
      "event_in_payload g" "of_def eventDecoder g"
      "event_inner g = payload_start (ev_Payload e) (SourceAddressKind (ev_Payload e)) (SubjectAddressKind (ev_Payload e))"
    using event_flags_step [OF ready wf] by blast
  obtain d where d: "\<And>ys. Drive EventDecoder_FeedAny (event_inner g) (payload_wire (ev_Payload e) @ ys) = Some (Some (ev_Payload e, ys), d)"
    using payload_decodes wf g(4) unfolding wfEvent_def by metis
  have upd: "v\<lparr>ev_Payload := ev_Payload e\<rparr> = e" for v :: Event by (cases v; cases e) simp
  let ?f' = "Reset ((event_with d g)\<lparr>Value := e\<rparr>)"
  have "Drive (Feed eventDecoder_Feed) f (event_wire e @ ys) = Some (Some (e, ys), ?f')" for ys
  proof -
    obtain c where "Drive (Feed eventDecoder_Feed) g (payload_wire (ev_Payload e) @ ys)
        = After eventDecoder_Feed (Some (Some Done, (event_with d (g\<lparr>currentByte := c\<rparr>))
            \<lparr>Value := (Value (event_with d (g\<lparr>currentByte := c\<rparr>)))\<lparr>ev_Payload := ev_Payload e\<rparr>\<rparr>)) ys"
      using event_deleg.Drive_delegate [OF g(2) d] by blast
    then show ?thesis
      by (simp add: event_wire_def g(1) upd After_simps event_with_def fsm_simps del: Drive.simps)
  qed
  moreover have "event_ready ?f'" using g(3) by (simp add: event_with_def)
  ultimately show "\<exists>f'. event_ready f' \<and> (\<forall>ys. Drive (Feed eventDecoder_Feed) f (event_wire e @ ys) = Some (Some (e, ys), f'))"
    by blast
qed


subsection \<open>No input makes the decoders panic\<close>

fun sourced_need :: "sourcedDecoderState \<Rightarrow> sourcedDecoderContext \<Rightarrow> nat" where
  "sourced_need StateSource c = AddressKind_Size (c_SourceAddressKind c)"
| "sourced_need StateSubject c = AddressKind_Size (c_SubjectAddressKind c)"
| "sourced_need StateIncarnation c = 2"

definition sourced_ok :: "SourcedEvent \<Rightarrow> bool" where
  "sourced_ok v \<longleftrightarrow> typedIP (e_Source v) \<and> typedIP (e_Subject v)"

definition sourced_inv :: "sourcedFSM \<Rightarrow> bool" where
  "sourced_inv f \<longleftrightarrow> sourced_ok (Value f)
     \<and> AddressKind (e_Source (Value f)) = c_SourceAddressKind (fcontext f)
     \<and> AddressKind (e_Subject (Value f)) = c_SubjectAddressKind (fcontext f)
     \<and> pending f (sourced_need (fstate f) (fcontext f))"

lemma sourced_safe_step:
  assumes "F = joinDecoder_Feed \<or> F = suspectDecoder_Feed" and inv: "sourced_inv f"
  shows "\<exists>v f'. Feed F f b = Some (v, None, f') \<and> sound_out sourced_inv (\<lambda>_. True) sourced_ok v f'"
proof -
  have pend: "pending f (sourced_need (fstate f) (fcontext f))"
    using inv by (simp add: sourced_inv_def)
  show ?thesis
    using assms
    by (intro safe_pending [OF pend]; cases "fstate f"; elim disjE)
      (auto simp: sourced_inv_def sourced_ok_def FeedStep_def event_feed_defs fsm_simps pending_def
        fsmCopyIP_def IP_Size_def typedIP_def Uint16_def)
qed

definition subject_ok :: "SubjectEvent \<Rightarrow> bool" where
  "subject_ok v \<longleftrightarrow> typedIP (s_Subject v)"

fun subject_need :: "subjectDecoderState \<Rightarrow> AddressKind \<Rightarrow> nat" where
  "subject_need SubStateSubject c = AddressKind_Size c"
| "subject_need SubStateIncarnation c = 2"

definition subject_inv :: "subjectFSM \<Rightarrow> bool" where
  "subject_inv f \<longleftrightarrow> subject_ok (Value f) \<and> AddressKind (s_Subject (Value f)) = fcontext f
     \<and> pending f (subject_need (fstate f) (fcontext f))"

lemma subject_safe_step:
  assumes inv: "subject_inv f"
  shows "\<exists>v f'. Feed leftDecoder_Feed f b = Some (v, None, f') \<and> sound_out subject_inv (\<lambda>_. True) subject_ok v f'"
proof -
  have pend: "pending f (subject_need (fstate f) (fcontext f))"
    using inv by (simp add: subject_inv_def)
  show ?thesis
    using assms
    by (intro safe_pending [OF pend]; cases "fstate f")
      (auto simp: subject_inv_def subject_ok_def FeedStep_def event_feed_defs fsm_simps pending_def
        fsmCopyIP_def IP_Size_def typedIP_def Uint16_def)
qed

definition wrap_ok :: "Wrap \<Rightarrow> bool" where
  "wrap_ok v \<longleftrightarrow> typedIP (w_Subject v)"

fun wrap_need :: "wrapDecoderState \<Rightarrow> AddressKind \<Rightarrow> nat" where
  "wrap_need wrapDecoderStateSubject c = AddressKind_Size c"
| "wrap_need wrapDecoderStateIncarnation c = 2"
| "wrap_need wrapDecoderStateNewIncarnation c = 2"

definition wrap_inv :: "wrapFSM \<Rightarrow> bool" where
  "wrap_inv f \<longleftrightarrow> wrap_ok (Value f) \<and> AddressKind (w_Subject (Value f)) = fcontext f
     \<and> pending f (wrap_need (fstate f) (fcontext f))"

lemma wrap_safe_step:
  assumes inv: "wrap_inv f"
  shows "\<exists>v f'. Feed wrapDecoder_Feed f b = Some (v, None, f') \<and> sound_out wrap_inv (\<lambda>_. True) wrap_ok v f'"
proof -
  have pend: "pending f (wrap_need (fstate f) (fcontext f))"
    using inv by (simp add: wrap_inv_def)
  show ?thesis
    using assms
    by (intro safe_pending [OF pend]; cases "fstate f")
      (auto simp: wrap_inv_def wrap_ok_def FeedStep_def event_feed_defs fsm_simps pending_def
        fsmCopyIP_def IP_Size_def typedIP_def Uint16_def)
qed

fun payload_inv :: "anyEventDecoder \<Rightarrow> bool" where
  "payload_inv (DJoin f) = sourced_inv f"
| "payload_inv (DHealthy f) = sourced_inv f"
| "payload_inv (DSuspect f) = sourced_inv f"
| "payload_inv (DFaulty f) = sourced_inv f"
| "payload_inv (DLeft f) = subject_inv f"
| "payload_inv (DAlive f) = subject_inv f"
| "payload_inv (DWrap f) = wrap_inv f"

lemma safe_wrapped:
  assumes "\<exists>v f'. T f b = Some (v, None, f') \<and> sound_out I post ok v f'"
    and "\<And>f. I f \<Longrightarrow> I' (C f)" and "\<And>v. ok v \<Longrightarrow> ok' (V v)"
  shows "\<exists>v f'. FeedAny T V C f b = Some (v, None, f') \<and> sound_out I' (\<lambda>_. True) ok' v f'"
proof -
  obtain v g where "T f b = Some (v, None, g)" "sound_out I post ok v g"
    using assms(1) by blast
  with assms(2,3) show ?thesis by (cases v) (auto simp: FeedAny_def)
qed

lemmas sourced_safe_any = safe_wrapped [where I = sourced_inv and post = "\<lambda>_. True" and ok = sourced_ok
  and I' = payload_inv and ok' = typedPayload, OF sourced_safe_step]

lemmas subject_safe_any = safe_wrapped [where I = subject_inv and post = "\<lambda>_. True" and ok = subject_ok
  and I' = payload_inv and ok' = typedPayload, OF subject_safe_step]

lemmas wrap_safe_any = safe_wrapped [where I = wrap_inv and post = "\<lambda>_. True" and ok = wrap_ok
  and I' = payload_inv and ok' = typedPayload, OF wrap_safe_step]

lemma typedPayload_ok:
  "sourced_ok v \<Longrightarrow> typedPayload (PJoin v)" "sourced_ok v \<Longrightarrow> typedPayload (PHealthy v)"
  "sourced_ok v \<Longrightarrow> typedPayload (PSuspect v)" "sourced_ok v \<Longrightarrow> typedPayload (PFaulty v)"
  "subject_ok u \<Longrightarrow> typedPayload (PLeft u)" "subject_ok u \<Longrightarrow> typedPayload (PAlive u)"
  "wrap_ok w \<Longrightarrow> typedPayload (PWrap w)"
  by (simp_all add: typedPayload_def sourced_ok_def subject_ok_def wrap_ok_def)

interpretation payload_safe: safe_decoder EventDecoder_FeedAny payload_inv "\<lambda>_. True" typedPayload
proof
  fix d :: anyEventDecoder and b :: byte
  assume "payload_inv d"
  then show "\<exists>v d'. EventDecoder_FeedAny d b = Some (v, None, d') \<and> sound_out payload_inv (\<lambda>_. True) typedPayload v d'"
    by (cases d)
      (simp_all add: twin_feeds sourced_safe_any subject_safe_any wrap_safe_any typedPayload_ok)
qed

lemma payload_inv_start [simp]: "payload_inv (payload_start p src sub)"
  by (cases p) (simp_all add: start_defs fsm_simps sourced_inv_def sourced_ok_def subject_inv_def
      subject_ok_def wrap_inv_def wrap_ok_def pending_def)

lemma eventDecoderList_kind: "eventDecoderList k = Some dec \<Longrightarrow> \<exists>p. k = Kind p"
proof -
  assume "eventDecoderList k = Some dec"
  then have "k \<in> {0, 1, 2, 3, 4, 5, 6}" by (auto simp: eventDecoderList_def split: if_splits)
  moreover have "Kind (PJoin zeroSourced) = 0" "Kind (PHealthy zeroSourced) = 1" "Kind (PSuspect zeroSourced) = 2"
    "Kind (PFaulty zeroSourced) = 3" "Kind (PLeft zeroSubjectEvent) = 4" "Kind (PAlive zeroSubjectEvent) = 5"
    "Kind (PWrap undefined) = 6" by simp_all
  ultimately show ?thesis by (metis insertE emptyE)
qed

lemma eventDecoderList_safe:
  "eventDecoderList k = Some dec \<Longrightarrow>
   payload_inv (EventDecoder_Prepare (SetSubjectAddressKind sub (SetSourceAddressKind src dec)))"
  using eventDecoderList_kind [of k dec] payload_start_prepared by (metis option.inject payload_inv_start)

definition event_inv :: "eventFSM \<Rightarrow> bool" where
  "event_inv f \<longleftrightarrow> of_def eventDecoder f \<and> \<not> mustSatisfySize f \<and>
     (fstate f = eventDecoderStatePayload \<longrightarrow> pred_option payload_inv (decoder (fcontext f)) \<and> decoder (fcontext f) \<noteq> None)"

lemma event_inv_New [simp]: "event_inv (New eventDecoder)"
  by (simp add: event_inv_def New_eq eventDecoder_def of_def_def)

lemma event_inv_Reset [simp]: "of_def eventDecoder f \<Longrightarrow> event_inv (Reset f)"
  by (simp add: event_inv_def of_def_fields fsm_simps) (simp add: eventDecoder_def)

lemma event_inv_payload:
  "of_def eventDecoder f \<Longrightarrow> \<not> mustSatisfySize f \<Longrightarrow> decoder (fcontext f) = Some d \<Longrightarrow> payload_inv d \<Longrightarrow> event_inv f"
  by (simp add: event_inv_def)

interpretation event_safe: safe_decoder "Feed eventDecoder_Feed" event_inv event_inv typedEvent
proof
  fix f :: eventFSM and b :: byte
  assume inv: "event_inv f"
  then have f: "of_def eventDecoder f" "\<not> mustSatisfySize f" by (simp_all add: event_inv_def)
  show "\<exists>v f'. Feed eventDecoder_Feed f b = Some (v, None, f') \<and> sound_out event_inv event_inv typedEvent v f'"
  proof (cases "fstate f")
    case eventDecoderStateFlags
    with f show ?thesis
      by (intro safe_direct)
        (auto simp: FeedStep_def eventDecoder_Feed_def Let_def Transition_def TransitionSize_def
          ResetPayload_def intro!: event_inv_payload eventDecoderList_safe split: option.splits)
  next
    case eventDecoderStatePayload
    with inv obtain d where d: "decoder (fcontext f) = Some d" "payload_inv d" by (auto simp: event_inv_def)
    obtain v d' where "EventDecoder_FeedAny d b = Some (v, None, d')"
      "sound_out payload_inv (\<lambda>_. True) typedPayload v d'"
      using payload_safe.safe_step [OF d(2)] by blast
    with d f eventDecoderStatePayload show ?thesis
      by (intro safe_direct; cases v)
        (auto simp: FeedStep_def eventDecoder_Feed_def Let_def typedEvent_def intro: event_inv_payload)
  qed
qed

end
