(* ===== verification/Proto_Message.thy ===== *)
theory Proto_Message
  imports Event_Decoder
begin

text \<open>
  The messages of \<open>internal/proto\<close>: \<open>message_bootstrap_request.go\<close>, \<open>message_bootstrap_response.go\<close>,
  \<open>message_bootstrap_ack.go\<close>, \<open>message_ping.go\<close>, \<open>message_pong.go\<close>, \<open>message_indirect_ping.go\<close>,
  \<open>message_indirect_pong.go\<close> and \<open>message_sync.go\<close>: their encoders and decoders. The bootstrap
  messages have no body and no decoder.
\<close>

subsection \<open>Ping\<close>

record Ping =
  ping_Cookie :: u16
  ping_Period :: u16
  ping_TargetIncarnation :: u16
  ping_Events :: "Event list"

definition Ping_RequiredSize :: "Ping \<Rightarrow> nat" where
  "Ping_RequiredSize p = 7 + reduce (ping_Events p) (\<lambda>i acc. acc + Event_RequiredSize i)"

definition Ping_Encode :: "Ping \<Rightarrow> byte list \<Rightarrow> byte list option" where
  "Ping_Encode p into = do {
     w \<leftarrow> w_u16 (ping_Cookie p) (newWriter into);
     w \<leftarrow> w_u16 (ping_Period p) w;
     w \<leftarrow> w_u16 (ping_TargetIncarnation p) w;
     w \<leftarrow> w_u8 (word_of_nat (length (ping_Events p))) w;
     w \<leftarrow> w_forEach Event_Encode Event_RequiredSize (ping_Events p) w;
     Some (wbuffer w)
   }"

datatype pingDecoderState =
    pingDecoderStateCookie
  | pingDecoderStatePeriod
  | pingDecoderStateTargetIncarnation
  | pingDecoderStateEventSize
  | pingDecoderStateEvents

record pingDecoderContext =
  pctx_eventDecoder :: eventFSM

definition pingDecoderContext_Reset :: "pingDecoderContext \<Rightarrow> pingDecoderContext" where
  "pingDecoderContext_Reset p = p\<lparr>pctx_eventDecoder := Reset (pctx_eventDecoder p)\<rparr>"

type_synonym pingFSM = "(Ping, pingDecoderState, pingDecoderContext) FSM"

definition pingDecoder_Feed :: "(Ping, pingDecoderState, pingDecoderContext) feedFn" where
  "pingDecoder_Feed f st b = (case st of
     pingDecoderStateCookie \<Rightarrow> do {
       v \<leftarrow> U16 f;
       Some (None, TransitionSatisfySize (f\<lparr>Value := (Value f)\<lparr>ping_Cookie := v\<rparr>\<rparr>) pingDecoderStatePeriod 2)
     }
   | pingDecoderStatePeriod \<Rightarrow> do {
       v \<leftarrow> U16 f;
       Some (None, TransitionSatisfySize (f\<lparr>Value := (Value f)\<lparr>ping_Period := v\<rparr>\<rparr>) pingDecoderStateTargetIncarnation 2)
     }
   | pingDecoderStateTargetIncarnation \<Rightarrow> do {
       v \<leftarrow> U16 f;
       Some (None, Transition (f\<lparr>Value := (Value f)\<lparr>ping_TargetIncarnation := v\<rparr>\<rparr>) pingDecoderStateEventSize)
     }
   | pingDecoderStateEventSize \<Rightarrow>
       (let qty = int (unat b) in
        if qty = 0 then Some (Some Done, f)
        else Some (None, TransitionSize f pingDecoderStateEvents qty))
   | pingDecoderStateEvents \<Rightarrow> do {
       (ev, err, dec) \<leftarrow> Feed eventDecoder_Feed (pctx_eventDecoder (fcontext f)) b;
       let f = f\<lparr>fcontext := (fcontext f)\<lparr>pctx_eventDecoder := dec\<rparr>\<rparr>;
       (case err of Some e \<Rightarrow> Some (Some e, f)
        | None \<Rightarrow>
          (let f = (case ev of None \<Rightarrow> f
               | Some e \<Rightarrow> f\<lparr>Size := Size f - 1, Value := (Value f)\<lparr>ping_Events := ping_Events (Value f) @ [e]\<rparr>\<rparr>)
           in if Size f \<noteq> 0 then Some (None, f) else Some (Some Done, f)))
     })"

definition pingDecoder :: "(Ping, pingDecoderState, pingDecoderContext) Def" where
  "pingDecoder = \<lparr>InitialSize = 2, InitialState = pingDecoderStateCookie,
     NewT = \<lparr>ping_Cookie = 0, ping_Period = 0, ping_TargetIncarnation = 0, ping_Events = []\<rparr>,
     NewC = \<lparr>pctx_eventDecoder = New eventDecoder\<rparr>, ResetC = pingDecoderContext_Reset, DefFeed = pingDecoder_Feed, DefPrepare = id\<rparr>"

subsection \<open>Pong\<close>

record Pong =
  pong_Ack :: bool
  pong_Cookie :: u16
  pong_Period :: u16
  pong_IsLastStateKnown :: bool
  pong_LastKnownEventKind :: EventKind
  pong_LastKnownIncarnation :: u16

definition Pong_RequiredSize :: "Pong \<Rightarrow> nat" where
  "Pong_RequiredSize p = 7"

definition Pong_flags :: "Pong \<Rightarrow> byte" where
  "Pong_flags p = (let flags = 0; flags = (if pong_Ack p then flags OR 1 else flags)
     in if pong_IsLastStateKnown p
        then flags OR 2 OR push_bit 2 (pong_LastKnownEventKind p)
        else flags)"

definition Pong_Encode :: "Pong \<Rightarrow> byte list \<Rightarrow> byte list option" where
  "Pong_Encode p into = do {
     w \<leftarrow> w_u8 (Pong_flags p) (newWriter into);
     w \<leftarrow> w_u16 (pong_Cookie p) w;
     w \<leftarrow> w_u16 (pong_Period p) w;
     w \<leftarrow> w_u16 (pong_LastKnownIncarnation p) w;
     Some (wbuffer w)
   }"

datatype pongDecoderState =
    pongDecoderStateFlags
  | pongDecoderStateCookie
  | pongDecoderStatePeriod
  | pongDecoderStateLastKnownIncarnation

type_synonym pongFSM = "(Pong, pongDecoderState, unit) FSM"

definition pongDecoder_Feed :: "(Pong, pongDecoderState, unit) feedFn" where
  "pongDecoder_Feed f st b = (case st of
     pongDecoderStateFlags \<Rightarrow>
       (let v = (Value f)\<lparr>pong_Ack := (b AND 1 = 1), pong_IsLastStateKnown := (b AND 2 = 2)\<rparr>;
            v = (if pong_IsLastStateKnown v then v\<lparr>pong_LastKnownEventKind := drop_bit 2 b\<rparr> else v)
        in Some (None, TransitionSatisfySize (f\<lparr>Value := v\<rparr>) pongDecoderStateCookie 2))
   | pongDecoderStateCookie \<Rightarrow> do {
       v \<leftarrow> U16 f;
       Some (None, TransitionSatisfySize (f\<lparr>Value := (Value f)\<lparr>pong_Cookie := v\<rparr>\<rparr>) pongDecoderStatePeriod 2)
     }
   | pongDecoderStatePeriod \<Rightarrow> do {
       v \<leftarrow> U16 f;
       Some (None, TransitionSatisfySize (f\<lparr>Value := (Value f)\<lparr>pong_Period := v\<rparr>\<rparr>) pongDecoderStateLastKnownIncarnation 2)
     }
   | pongDecoderStateLastKnownIncarnation \<Rightarrow> do {
       v \<leftarrow> U16 f;
       Some (Some Done, f\<lparr>Value := (Value f)\<lparr>pong_LastKnownIncarnation := v\<rparr>\<rparr>)
     })"

definition pongDecoder :: "(Pong, pongDecoderState, unit) Def" where
  "pongDecoder = \<lparr>InitialSize = 0, InitialState = pongDecoderStateFlags,
     NewT = \<lparr>pong_Ack = False, pong_Cookie = 0, pong_Period = 0, pong_IsLastStateKnown = False,
       pong_LastKnownEventKind = 0, pong_LastKnownIncarnation = 0\<rparr>,
     NewC = (), ResetC = id, DefFeed = pongDecoder_Feed, DefPrepare = id\<rparr>"

subsection \<open>IndirectPing and IndirectPong\<close>

record IndirectPing =
  iping_Cookie :: u16
  iping_Period :: u16
  iping_Address :: IP

definition IndirectPing_RequiredSize :: "IndirectPing \<Rightarrow> nat" where
  "IndirectPing_RequiredSize i = 5 + IP_Size (iping_Address i)"

definition IndirectPing_Encode :: "IndirectPing \<Rightarrow> byte list \<Rightarrow> byte list option" where
  "IndirectPing_Encode i into = do {
     w \<leftarrow> w_u8 (AddressKind (iping_Address i)) (newWriter into);
     w \<leftarrow> w_u16 (iping_Cookie i) w;
     w \<leftarrow> w_u16 (iping_Period i) w;
     w \<leftarrow> w_ip (iping_Address i) w;
     Some (wbuffer w)
   }"

datatype indirectPingDecoderState =
    indirectPingDecoderStateFlags
  | indirectPingDecoderStateCookie
  | indirectPingDecoderStatePeriod
  | indirectPingDecoderStateAddress

type_synonym indirectPingFSM = "(IndirectPing, indirectPingDecoderState, unit) FSM"

definition indirectPingDecoder_Feed :: "(IndirectPing, indirectPingDecoderState, unit) feedFn" where
  "indirectPingDecoder_Feed f st b = (case st of
     indirectPingDecoderStateFlags \<Rightarrow>
       Some (None, TransitionSatisfySize
         (f\<lparr>Value := (Value f)\<lparr>iping_Address := (iping_Address (Value f))\<lparr>AddressKind := b\<rparr>\<rparr>\<rparr>)
         indirectPingDecoderStateCookie 2)
   | indirectPingDecoderStateCookie \<Rightarrow> do {
       v \<leftarrow> U16 f;
       Some (None, TransitionSatisfySize (f\<lparr>Value := (Value f)\<lparr>iping_Cookie := v\<rparr>\<rparr>) indirectPingDecoderStatePeriod 2)
     }
   | indirectPingDecoderStatePeriod \<Rightarrow> do {
       v \<leftarrow> U16 f;
       let f = f\<lparr>Value := (Value f)\<lparr>iping_Period := v\<rparr>\<rparr>;
       Some (None, TransitionSatisfySize f indirectPingDecoderStateAddress (int (IP_Size (iping_Address (Value f)))))
     }
   | indirectPingDecoderStateAddress \<Rightarrow> do {
       a \<leftarrow> fsmCopyIP f (iping_Address (Value f));
       Some (Some Done, f\<lparr>Value := (Value f)\<lparr>iping_Address := a\<rparr>\<rparr>)
     })"

definition indirectPingDecoder :: "(IndirectPing, indirectPingDecoderState, unit) Def" where
  "indirectPingDecoder = \<lparr>InitialSize = 1, InitialState = indirectPingDecoderStateFlags,
     NewT = \<lparr>iping_Cookie = 0, iping_Period = 0, iping_Address = zeroIP\<rparr>,
     NewC = (), ResetC = id, DefFeed = indirectPingDecoder_Feed, DefPrepare = id\<rparr>"

record IndirectPong =
  ipong_Cookie :: u16
  ipong_Period :: u16

definition IndirectPong_RequiredSize :: "IndirectPong \<Rightarrow> nat" where
  "IndirectPong_RequiredSize i = 4"

definition IndirectPong_Encode :: "IndirectPong \<Rightarrow> byte list \<Rightarrow> byte list option" where
  "IndirectPong_Encode i into = do {
     w \<leftarrow> w_u16 (ipong_Cookie i) (newWriter into);
     w \<leftarrow> w_u16 (ipong_Period i) w;
     Some (wbuffer w)
   }"

datatype indirectPongDecoderState = indirectPongDecoderStateCookie | indirectPongDecoderStatePeriod

type_synonym indirectPongFSM = "(IndirectPong, indirectPongDecoderState, unit) FSM"

definition indirectPongDecoder_Feed :: "(IndirectPong, indirectPongDecoderState, unit) feedFn" where
  "indirectPongDecoder_Feed f st b = (case st of
     indirectPongDecoderStateCookie \<Rightarrow> do {
       v \<leftarrow> U16 f;
       Some (None, TransitionSatisfySize (f\<lparr>Value := (Value f)\<lparr>ipong_Cookie := v\<rparr>\<rparr>) indirectPongDecoderStatePeriod 2)
     }
   | indirectPongDecoderStatePeriod \<Rightarrow> do {
       v \<leftarrow> U16 f;
       Some (Some Done, f\<lparr>Value := (Value f)\<lparr>ipong_Period := v\<rparr>\<rparr>)
     })"

definition indirectPongDecoder :: "(IndirectPong, indirectPongDecoderState, unit) Def" where
  "indirectPongDecoder = \<lparr>InitialSize = 2, InitialState = indirectPongDecoderStateCookie,
     NewT = \<lparr>ipong_Cookie = 0, ipong_Period = 0\<rparr>,
     NewC = (), ResetC = id, DefFeed = indirectPongDecoder_Feed, DefPrepare = id\<rparr>"

subsection \<open>Sync\<close>

abbreviation (input) SyncModeFirstPhase :: SyncMode where "SyncModeFirstPhase \<equiv> 0"
abbreviation (input) SyncModeSecondPhase :: SyncMode where "SyncModeSecondPhase \<equiv> 1"
abbreviation (input) SyncModeBootstrap :: SyncMode where "SyncModeBootstrap \<equiv> 2"
abbreviation (input) SyncModeBootstrapAck :: SyncMode where "SyncModeBootstrapAck \<equiv> 3"

record Sync =
  sync_Nodes :: "Node list"
  sync_Mode :: SyncMode

definition Sync_RequiredSize :: "Sync \<Rightarrow> nat" where
  "Sync_RequiredSize s = 2 + reduce (sync_Nodes s) (\<lambda>node acc. acc + Node_RequiredSize node)"

definition Sync_Encode :: "Sync \<Rightarrow> byte list \<Rightarrow> byte list option" where
  "Sync_Encode s into = do {
     w \<leftarrow> w_u8 (sync_Mode s) (newWriter into);
     w \<leftarrow> w_u8 (word_of_nat (length (sync_Nodes s))) w;
     w \<leftarrow> w_forEach Node_Encode Node_RequiredSize (sync_Nodes s) w;
     Some (wbuffer w)
   }"

datatype syncDecoderState = syncDecoderStateMode | syncDecoderStateSize | syncDecoderStateNodes

type_synonym nodeFSM = "(Node, nodeDecoderState, unit) FSM"

record syncDecoderContext =
  sctx_nodeDecoder :: nodeFSM

definition syncDecoderContext_Reset :: "syncDecoderContext \<Rightarrow> syncDecoderContext" where
  "syncDecoderContext_Reset s = s\<lparr>sctx_nodeDecoder := Reset (sctx_nodeDecoder s)\<rparr>"

type_synonym syncFSM = "(Sync, syncDecoderState, syncDecoderContext) FSM"

definition syncDecoder_Feed :: "(Sync, syncDecoderState, syncDecoderContext) feedFn" where
  "syncDecoder_Feed f st b = (case st of
     syncDecoderStateMode \<Rightarrow>
       Some (None, Transition (f\<lparr>Value := (Value f)\<lparr>sync_Mode := b\<rparr>\<rparr>) syncDecoderStateSize)
   | syncDecoderStateSize \<Rightarrow>
       (let f = f\<lparr>Value := (Value f)\<lparr>sync_Nodes := []\<rparr>\<rparr> in
        if b = 0 then Some (Some Done, f)
        else Some (None, TransitionSize f syncDecoderStateNodes (int (unat b))))
   | syncDecoderStateNodes \<Rightarrow> do {
       (n, err, dec) \<leftarrow> Feed nodeDecoder_Feed (sctx_nodeDecoder (fcontext f)) b;
       let f = f\<lparr>fcontext := (fcontext f)\<lparr>sctx_nodeDecoder := dec\<rparr>\<rparr>;
       (case err of Some e \<Rightarrow> Some (Some e, f)
        | None \<Rightarrow>
          (let f = (case n of None \<Rightarrow> f
               | Some n \<Rightarrow> f\<lparr>Size := Size f - 1, Value := (Value f)\<lparr>sync_Nodes := sync_Nodes (Value f) @ [n]\<rparr>\<rparr>)
           in if Size f = 0 then Some (Some Done, f) else Some (None, f)))
     })"

definition syncDecoder :: "(Sync, syncDecoderState, syncDecoderContext) Def" where
  "syncDecoder = \<lparr>InitialSize = 0, InitialState = syncDecoderStateMode,
     NewT = \<lparr>sync_Nodes = [], sync_Mode = 0\<rparr>,
     NewC = \<lparr>sctx_nodeDecoder = New nodeDecoder\<rparr>, ResetC = syncDecoderContext_Reset, DefFeed = syncDecoder_Feed, DefPrepare = id\<rparr>"

subsection \<open>The Message interface\<close>

datatype Message =
    MBootstrapRequest
  | MBootstrapResponse
  | MBootstrapAck
  | MPing Ping
  | MPong Pong
  | MIndirectPing IndirectPing
  | MIndirectPong IndirectPong
  | MSync Sync

fun Message_OpCode :: "Message \<Rightarrow> OpCode" where
  "Message_OpCode MBootstrapRequest = BTRP"
| "Message_OpCode MBootstrapResponse = BTRR"
| "Message_OpCode MBootstrapAck = BTRA"
| "Message_OpCode (MPing p) = PING"
| "Message_OpCode (MPong p) = PONG"
| "Message_OpCode (MIndirectPing i) = IING"
| "Message_OpCode (MIndirectPong i) = IONG"
| "Message_OpCode (MSync s) = SYNC"

fun Message_RequiredSize :: "Message \<Rightarrow> nat" where
  "Message_RequiredSize MBootstrapRequest = 0"
| "Message_RequiredSize MBootstrapResponse = 0"
| "Message_RequiredSize MBootstrapAck = 0"
| "Message_RequiredSize (MPing p) = Ping_RequiredSize p"
| "Message_RequiredSize (MPong p) = Pong_RequiredSize p"
| "Message_RequiredSize (MIndirectPing i) = IndirectPing_RequiredSize i"
| "Message_RequiredSize (MIndirectPong i) = IndirectPong_RequiredSize i"
| "Message_RequiredSize (MSync s) = Sync_RequiredSize s"

fun Message_Encode :: "Message \<Rightarrow> byte list \<Rightarrow> byte list option" where
  "Message_Encode MBootstrapRequest into = Some into"
| "Message_Encode MBootstrapResponse into = Some into"
| "Message_Encode MBootstrapAck into = Some into"
| "Message_Encode (MPing p) into = Ping_Encode p into"
| "Message_Encode (MPong p) into = Pong_Encode p into"
| "Message_Encode (MIndirectPing i) into = IndirectPing_Encode i into"
| "Message_Encode (MIndirectPong i) into = IndirectPong_Encode i into"
| "Message_Encode (MSync s) into = Sync_Encode s into"

end
