(* ===== verification/Message_Codec.thy ===== *)
theory Message_Codec
  imports Proto_Message
begin

text \<open>
  What the encoders and decoders of the messages guarantee: the wire format of each message,
  that the encoders produce it, that the decoders read it back, and that no input makes a decoder
  panic. \<open>wfMessage\<close> is what a message needs to survive the trip: known address kinds, at most
  255 events or nodes (the count is one byte), and a Pong whose event kind fits its six bits.
\<close>

subsection \<open>Wire formats\<close>

fun message_wire :: "Message \<Rightarrow> byte list" where
  "message_wire MBootstrapRequest = []"
| "message_wire MBootstrapResponse = []"
| "message_wire MBootstrapAck = []"
| "message_wire (MPing p) = be16 (ping_Cookie p) @ be16 (ping_Period p) @ be16 (ping_TargetIncarnation p)
     @ word_of_nat (length (ping_Events p)) # concat (map event_wire (ping_Events p))"
| "message_wire (MPong p) = Pong_flags p # be16 (pong_Cookie p) @ be16 (pong_Period p) @ be16 (pong_LastKnownIncarnation p)"
| "message_wire (MIndirectPing i) = AddressKind (iping_Address i) # be16 (iping_Cookie i) @ be16 (iping_Period i)
     @ IP_Bytes (iping_Address i)"
| "message_wire (MIndirectPong i) = be16 (ipong_Cookie i) @ be16 (ipong_Period i)"
| "message_wire (MSync s) = sync_Mode s # word_of_nat (length (sync_Nodes s)) # concat (map node_wire (sync_Nodes s))"

fun typedMessage :: "Message \<Rightarrow> bool" where
  "typedMessage (MPing p) = list_all typedEvent (ping_Events p)"
| "typedMessage (MIndirectPing i) = typedIP (iping_Address i)"
| "typedMessage (MSync s) = list_all typedNode (sync_Nodes s)"
| "typedMessage _ = True"

fun wfMessage :: "Message \<Rightarrow> bool" where
  "wfMessage (MPing p) = (list_all wfEvent (ping_Events p) \<and> length (ping_Events p) \<le> 255)"
| "wfMessage (MPong p) = (unat (pong_LastKnownEventKind p) < 64
     \<and> (\<not> pong_IsLastStateKnown p \<longrightarrow> pong_LastKnownEventKind p = 0))"
| "wfMessage (MIndirectPing i) = wfIP (iping_Address i)"
| "wfMessage (MSync s) = (list_all wfNode (sync_Nodes s) \<and> length (sync_Nodes s) \<le> 255)"
| "wfMessage _ = True"

lemma wfMessage_typed [simp]: "wfMessage m \<Longrightarrow> typedMessage m"
  by (cases m) (auto simp: list_all_iff)

lemmas message_size_defs = Ping_RequiredSize_def Pong_RequiredSize_def IndirectPing_RequiredSize_def
  IndirectPong_RequiredSize_def Sync_RequiredSize_def

lemmas message_encode_defs = Ping_Encode_def Pong_Encode_def IndirectPing_Encode_def
  IndirectPong_Encode_def Sync_Encode_def

interpretation message_enc: encoder Message_Encode Message_RequiredSize message_wire typedMessage
proof
  fix v :: Message
  assume "typedMessage v"
  then show "length (message_wire v) = Message_RequiredSize v"
    by (cases v) (auto simp: message_size_defs reduce_sum list_all_iff event_enc.concat_wire_length
        node_enc.concat_wire_length simp del: length_concat)
next
  fix v :: Message and buf :: "byte list"
  assume "typedMessage v" and "Message_RequiredSize v \<le> length buf"
  then show "Message_Encode v buf = Some (message_wire v @ drop (Message_RequiredSize v) buf)"
    by (cases v)
      (auto simp: message_size_defs message_encode_defs reduce_sum list_all_iff wire_simps
        event_enc.w_forEach_Wr node_enc.w_forEach_Wr ac_simps numeral_eq_Suc)
qed

subsection \<open>Decoding the wire format\<close>

definition ping_add :: "Event \<Rightarrow> Ping \<Rightarrow> Ping" where
  "ping_add e p = p\<lparr>ping_Events := ping_Events p @ [e]\<rparr>"

lemma fold_ping_add: "fold ping_add es p = p\<lparr>ping_Events := ping_Events p @ es\<rparr>"
  by (induction es arbitrary: p) (simp_all add: ping_add_def)

definition ping_in_events :: "pingFSM \<Rightarrow> bool" where
  "ping_in_events f \<longleftrightarrow> \<not> mustSatisfySize f \<and> fstate f = pingDecoderStateEvents \<and> Size f \<noteq> 0"

interpretation ping_items: counted_items pingDecoder_Feed "Feed eventDecoder_Feed"
  "\<lambda>f. pctx_eventDecoder (fcontext f)"
  "\<lambda>g f. f\<lparr>fcontext := (fcontext f)\<lparr>pctx_eventDecoder := g\<rparr>\<rparr>" ping_in_events
  "\<lambda>e f. Some (if Size f - 1 = 0 then Some Done else None, f\<lparr>Size := Size f - 1, Value := ping_add e (Value f)\<rparr>)"
  event_ready wfEvent event_wire ping_add
  by unfold_locales
    (auto simp: ping_in_events_def pingDecoder_Feed_def ping_add_def Feed_error_nil_aux split: option.splits)

definition sync_add :: "Node \<Rightarrow> Sync \<Rightarrow> Sync" where
  "sync_add n s = s\<lparr>sync_Nodes := sync_Nodes s @ [n]\<rparr>"

lemma fold_sync_add: "fold sync_add ns s = s\<lparr>sync_Nodes := sync_Nodes s @ ns\<rparr>"
  by (induction ns arbitrary: s) (simp_all add: sync_add_def)

definition sync_in_nodes :: "syncFSM \<Rightarrow> bool" where
  "sync_in_nodes f \<longleftrightarrow> \<not> mustSatisfySize f \<and> fstate f = syncDecoderStateNodes \<and> Size f \<noteq> 0"

interpretation sync_items: counted_items syncDecoder_Feed "Feed nodeDecoder_Feed"
  "\<lambda>f. sctx_nodeDecoder (fcontext f)"
  "\<lambda>g f. f\<lparr>fcontext := (fcontext f)\<lparr>sctx_nodeDecoder := g\<rparr>\<rparr>" sync_in_nodes
  "\<lambda>n f. Some (if Size f - 1 = 0 then Some Done else None, f\<lparr>Size := Size f - 1, Value := sync_add n (Value f)\<rparr>)"
  node_ready wfNode node_wire sync_add
  by unfold_locales
    (auto simp: sync_in_nodes_def syncDecoder_Feed_def sync_add_def Feed_error_nil_aux split: option.splits)

text \<open>The count byte of a list of at most 255 items.\<close>

lemma count_byte: "n \<le> 255 \<Longrightarrow> unat (word_of_nat n :: byte) = n"
  by (simp add: unat_of_nat)

lemma count_byte_zero: "n \<le> 255 \<Longrightarrow> (word_of_nat n :: byte) = 0 \<longleftrightarrow> n = 0"
  using count_byte [of n] by (auto simp: unat_eq_0)

lemma ping_decodes:
  assumes "wfMessage (MPing p)"
  shows "\<exists>f'. Drive (Feed pingDecoder_Feed) (New pingDecoder) (message_wire (MPing p) @ ys) = Some (Some (p, ys), f')"
proof -
  let ?n = "word_of_nat (length (ping_Events p)) :: byte"
  let ?rest = "concat (map event_wire (ping_Events p)) @ ys"
  let ?v = "p\<lparr>ping_Events := []\<rparr>"
  let ?g = "\<lparr>Value = ?v, Size = int (length (ping_Events p)), Payload = [], initialSize = 2,
     initialState = pingDecoderStateCookie, newT = NewT pingDecoder, resetC = pingDecoderContext_Reset,
     fstate = pingDecoderStateEvents, fcontext = \<lparr>pctx_eventDecoder = Reset (New eventDecoder)\<rparr>, currentByte = ?n, mustSatisfySize = False\<rparr>"
  have len: "length (ping_Events p) \<le> 255" and wf: "\<forall>e \<in> set (ping_Events p). wfEvent e"
    using assms by (auto simp: list_all_iff)
  have start: "Drive (Feed pingDecoder_Feed) (New pingDecoder) (message_wire (MPing p) @ ys)
     = (if ping_Events p = [] then Some (Some (?v, ?rest), Reset (?g\<lparr>fstate := pingDecoderStateEventSize\<rparr>))
        else Drive (Feed pingDecoder_Feed) ?g ?rest)"
    using len
    by (cases p) (simp add: Drive_block Drive_direct pingDecoder_Feed_def pingDecoder_def New_eq pingDecoderContext_Reset_def fsm_op_defs Init_eq After_simps
      count_byte count_byte_zero del: Drive.simps)
  show ?thesis
  proof (cases "ping_Events p = []")
    case True
    then have "?v = p" by (cases p) simp
    with True start show ?thesis by simp
  next
    case False
    obtain f' where "Drive (Feed pingDecoder_Feed) ?g ?rest = Some (Some (fold ping_add (ping_Events p) (Value ?g), ys), f')"
      using ping_items.Drive_items [of ?g "ping_Events p" ys] False wf
      by (auto simp: ping_in_events_def)
    with False start show ?thesis by (simp add: fold_ping_add)
  qed
qed


lemma sync_decodes:
  assumes "wfMessage (MSync s)"
  shows "\<exists>f'. Drive (Feed syncDecoder_Feed) (New syncDecoder) (message_wire (MSync s) @ ys) = Some (Some (s, ys), f')"
proof -
  let ?n = "word_of_nat (length (sync_Nodes s)) :: byte"
  let ?rest = "concat (map node_wire (sync_Nodes s)) @ ys"
  let ?v = "s\<lparr>sync_Nodes := []\<rparr>"
  let ?g = "\<lparr>Value = ?v, Size = int (length (sync_Nodes s)), Payload = [], initialSize = 0,
     initialState = syncDecoderStateMode, newT = NewT syncDecoder, resetC = syncDecoderContext_Reset,
     fstate = syncDecoderStateNodes, fcontext = \<lparr>sctx_nodeDecoder = New nodeDecoder\<rparr>, currentByte = ?n,
     mustSatisfySize = False\<rparr>"
  have len: "length (sync_Nodes s) \<le> 255" and wf: "\<forall>n \<in> set (sync_Nodes s). wfNode n"
    using assms by (auto simp: list_all_iff)
  have ready: "Reset (New nodeDecoder) = New nodeDecoder" by (simp add: fsm_simps nodeDecoder_def)
  have start: "Drive (Feed syncDecoder_Feed) (New syncDecoder) (message_wire (MSync s) @ ys)
     = (if sync_Nodes s = [] then Some (Some (?v, ?rest), Reset (?g\<lparr>fstate := syncDecoderStateSize\<rparr>))
        else Drive (Feed syncDecoder_Feed) ?g ?rest)"
    using len
    by (cases s) (simp add: Drive_direct syncDecoder_Feed_def syncDecoder_def New_eq [of syncDecoder, unfolded syncDecoder_def]
      syncDecoderContext_Reset_def ready TransitionSize_def Transition_def ResetPayload_def Let_def After_simps
      count_byte count_byte_zero del: Drive.simps)
  show ?thesis
  proof (cases "sync_Nodes s = []")
    case True
    then have "?v = s" by (cases s) simp
    with True start show ?thesis by simp
  next
    case False
    obtain f' where "Drive (Feed syncDecoder_Feed) ?g ?rest = Some (Some (fold sync_add (sync_Nodes s) (Value ?g), ys), f')"
      using sync_items.Drive_items [of ?g "sync_Nodes s" ys] False wf
      by (auto simp: sync_in_nodes_def node_ready_def)
    with False start show ?thesis by (simp add: fold_sync_add)
  qed
qed

lemma Pong_flags_fields:
  assumes "unat (pong_LastKnownEventKind p) < 64"
  shows "(Pong_flags p AND 1 = 1) = pong_Ack p" and "(Pong_flags p AND 2 = 2) = pong_IsLastStateKnown p"
    and "pong_IsLastStateKnown p \<Longrightarrow> drop_bit 2 (Pong_flags p) = pong_LastKnownEventKind p"
  subgoal by (auto simp: Pong_flags_def Let_def and_one_bit bit_simps)
  subgoal by (auto simp: Pong_flags_def Let_def and_two_bit bit_simps)
  subgoal using unat_lt_64_bit [OF assms] by (intro bit_word_eqI) (auto simp: Pong_flags_def Let_def bit_simps)
  done

lemma pong_decodes:
  assumes "wfMessage (MPong p)"
  shows "\<exists>f'. Drive (Feed pongDecoder_Feed) (New pongDecoder) (message_wire (MPong p) @ ys) = Some (Some (p, ys), f')"
proof -
  have "unat (pong_LastKnownEventKind p) < 64" using assms by simp
  note fl = Pong_flags_fields [OF this]
  show ?thesis
    using assms fl
    by (cases "pong_IsLastStateKnown p")
      (simp_all add: Drive_direct Drive_block pongDecoder_Feed_def pongDecoder_def fsm_simps del: Drive.simps)
qed

lemma indirectPing_decodes:
  assumes "wfMessage (MIndirectPing i)"
  shows "\<exists>f'. Drive (Feed indirectPingDecoder_Feed) (New indirectPingDecoder) (message_wire (MIndirectPing i) @ ys)
    = Some (Some (i, ys), f')"
  using assms
  by (simp add: Drive_satisfied Drive_block indirectPingDecoder_Feed_def indirectPingDecoder_def fsm_simps
      IP_Size_def fsmCopyIP_wire del: Drive.simps)

lemma indirectPong_decodes:
  "\<exists>f'. Drive (Feed indirectPongDecoder_Feed) (New indirectPongDecoder) (message_wire (MIndirectPong i) @ ys)
    = Some (Some (i, ys), f')"
  by (simp add: Drive_block indirectPongDecoder_Feed_def indirectPongDecoder_def fsm_simps del: Drive.simps)

subsection \<open>No input makes the decoders panic\<close>

fun ping_need :: "pingDecoderState \<Rightarrow> nat" where
  "ping_need pingDecoderStateEventSize = 0"
| "ping_need pingDecoderStateEvents = 0"
| "ping_need _ = 2"

definition ping_inv :: "pingFSM \<Rightarrow> bool" where
  "ping_inv f \<longleftrightarrow> typedMessage (MPing (Value f)) \<and> event_inv (pctx_eventDecoder (fcontext f)) \<and>
     (if ping_need (fstate f) = 0 then \<not> mustSatisfySize f else pending f (ping_need (fstate f)))"

lemma ping_safe_step:
  assumes inv: "ping_inv f"
  shows "\<exists>v f'. Feed pingDecoder_Feed f b = Some (v, None, f') \<and> sound_out ping_inv (\<lambda>_. True) (\<lambda>p. typedMessage (MPing p)) v f'"
proof (cases "fstate f = pingDecoderStateEvents")
  case True
  obtain v d' where "Feed eventDecoder_Feed (pctx_eventDecoder (fcontext f)) b = Some (v, None, d')"
    "sound_out event_inv event_inv typedEvent v d'"
    using event_safe.safe_step inv unfolding ping_inv_def by blast
  with True inv show ?thesis
    by (intro safe_direct; cases v)
      (auto simp: ping_inv_def FeedStep_def pingDecoder_Feed_def Let_def)
next
  case False
  show ?thesis
  proof (cases "fstate f = pingDecoderStateEventSize")
    case True
    with inv show ?thesis
      by (intro safe_direct) (auto simp: ping_inv_def FeedStep_def pingDecoder_Feed_def fsm_op_defs)
  next
    case F2: False
    with False inv have pend: "pending f 2" by (cases "fstate f") (auto simp: ping_inv_def)
    show ?thesis
      using False F2 inv
      by (intro safe_pending [OF pend]; cases "fstate f")
        (auto simp: ping_inv_def FeedStep_def pingDecoder_Feed_def fsm_op_defs pending_def Uint16_def)
  qed
qed

fun pong_need :: "pongDecoderState \<Rightarrow> nat" where
  "pong_need pongDecoderStateFlags = 0"
| "pong_need _ = 2"

definition pong_inv :: "pongFSM \<Rightarrow> bool" where
  "pong_inv f \<longleftrightarrow> (if pong_need (fstate f) = 0 then \<not> mustSatisfySize f else pending f (pong_need (fstate f)))"

lemma pong_safe_step:
  assumes inv: "pong_inv f"
  shows "\<exists>v f'. Feed pongDecoder_Feed f b = Some (v, None, f') \<and> sound_out pong_inv (\<lambda>_. True) (\<lambda>p. typedMessage (MPong p)) v f'"
proof (cases "fstate f = pongDecoderStateFlags")
  case True
  with inv show ?thesis
    by (intro safe_direct) (auto simp: pong_inv_def FeedStep_def pongDecoder_Feed_def fsm_op_defs pending_def)
next
  case False
  with inv have pend: "pending f 2" by (cases "fstate f") (auto simp: pong_inv_def)
  show ?thesis
    using False inv
    by (intro safe_pending [OF pend]; cases "fstate f")
      (auto simp: pong_inv_def FeedStep_def pongDecoder_Feed_def fsm_op_defs pending_def Uint16_def)
qed

fun indirectPing_need :: "indirectPingDecoderState \<Rightarrow> IndirectPing \<Rightarrow> nat" where
  "indirectPing_need indirectPingDecoderStateFlags i = 1"
| "indirectPing_need indirectPingDecoderStateCookie i = 2"
| "indirectPing_need indirectPingDecoderStatePeriod i = 2"
| "indirectPing_need indirectPingDecoderStateAddress i = IP_Size (iping_Address i)"

definition indirectPing_inv :: "indirectPingFSM \<Rightarrow> bool" where
  "indirectPing_inv f \<longleftrightarrow> typedIP (iping_Address (Value f)) \<and> pending f (indirectPing_need (fstate f) (Value f))"

lemma indirectPing_safe_step:
  assumes inv: "indirectPing_inv f"
  shows "\<exists>v f'. Feed indirectPingDecoder_Feed f b = Some (v, None, f')
    \<and> sound_out indirectPing_inv (\<lambda>_. True) (\<lambda>p. typedMessage (MIndirectPing p)) v f'"
proof -
  have pend: "pending f (indirectPing_need (fstate f) (Value f))"
    using inv by (simp add: indirectPing_inv_def)
  show ?thesis
    using inv
    by (intro safe_pending [OF pend]; cases "fstate f")
      (auto simp: indirectPing_inv_def FeedStep_def indirectPingDecoder_Feed_def fsm_op_defs pending_def
        Uint16_def fsmCopyIP_def typedIP_def IP_Size_def)
qed

definition indirectPong_inv :: "indirectPongFSM \<Rightarrow> bool" where
  "indirectPong_inv f \<longleftrightarrow> pending f 2"

lemma indirectPong_safe_step:
  assumes inv: "indirectPong_inv f"
  shows "\<exists>v f'. Feed indirectPongDecoder_Feed f b = Some (v, None, f')
    \<and> sound_out indirectPong_inv (\<lambda>_. True) (\<lambda>p. typedMessage (MIndirectPong p)) v f'"
  using inv
  by (intro safe_pending [OF inv [unfolded indirectPong_inv_def]]; cases "fstate f")
    (auto simp: indirectPong_inv_def FeedStep_def indirectPongDecoder_Feed_def fsm_op_defs pending_def Uint16_def)

definition sync_inv :: "syncFSM \<Rightarrow> bool" where
  "sync_inv f \<longleftrightarrow> typedMessage (MSync (Value f)) \<and> node_inv (sctx_nodeDecoder (fcontext f)) \<and> \<not> mustSatisfySize f"

lemma sync_safe_step:
  assumes inv: "sync_inv f"
  shows "\<exists>v f'. Feed syncDecoder_Feed f b = Some (v, None, f') \<and> sound_out sync_inv (\<lambda>_. True) (\<lambda>p. typedMessage (MSync p)) v f'"
proof -
  obtain v d' where "Feed nodeDecoder_Feed (sctx_nodeDecoder (fcontext f)) b = Some (v, None, d')"
    "sound_out node_inv node_inv typedNode v d'"
    using node_safe.safe_step inv unfolding sync_inv_def by blast
  with inv show ?thesis
    by (intro safe_direct; cases v; cases "fstate f")
      (auto simp: sync_inv_def FeedStep_def syncDecoder_Feed_def fsm_op_defs)
qed

end
