(* ===== verification/Proto_Packet.thy ===== *)
theory Proto_Packet
  imports Message_Codec
begin

text \<open>
  \<open>header.go\<close>, \<open>packet.go\<close>, \<open>tcp_packet.go\<close> and the packet functions of \<open>base.go\<close>
  (\<open>EncPkt\<close>, \<open>EncTCPPkt\<close>, \<open>ParsePacket\<close>, the decoder tables). A packet is a five-byte header
  followed by the body of one message; a TCP packet frames an opaque payload with its length.

  \<open>Packet.Message\<close> is an interface value: \<open>None\<close> is nil.
\<close>

subsection \<open>Header\<close>

record Header =
  h_Magic :: u16
  h_Version :: byte
  h_OpCode :: OpCode
  h_Incarnation :: u16

definition Header_RequiredSize :: "Header \<Rightarrow> nat" where
  "Header_RequiredSize h = 5"

definition Header_Encode :: "Header \<Rightarrow> byte list \<Rightarrow> byte list option" where
  "Header_Encode h into = do {
     into \<leftarrow> PutUint16 into (h_Magic h);
     into \<leftarrow> (if 2 < length into then Some (into[2 := push_bit 4 (h_Version h) OR h_OpCode h]) else None);
     tl3 \<leftarrow> (if 3 \<le> length into then PutUint16 (drop 3 into) (h_Incarnation h) else None);
     Some (take 3 into @ tl3)
   }"

datatype headerDecoderState =
    headerDecoderStateMagic
  | headerDecoderStateVersionOpCode
  | headerDecoderStateIncarnation

type_synonym headerFSM = "(Header, headerDecoderState, unit) FSM"

text \<open>The deferred \<open>Reset\<close> runs when the delegate returns.\<close>

definition headerDecoder_Feed :: "(Header, headerDecoderState, unit) feedFn" where
  "headerDecoder_Feed f st b = (case st of
     headerDecoderStateMagic \<Rightarrow> do {
       m \<leftarrow> U16 f;
       let f = f\<lparr>Value := (Value f)\<lparr>h_Magic := m\<rparr>\<rparr>;
       if m \<noteq> protocolMagic then Some (None, Reset f)
       else Some (None, Transition f headerDecoderStateVersionOpCode)
     }
   | headerDecoderStateVersionOpCode \<Rightarrow>
       (let v = (Value f)\<lparr>h_Version := drop_bit 4 (b AND 0xF0), h_OpCode := b AND 0x0F\<rparr>;
            f = f\<lparr>Value := v\<rparr>
        in if h_Version v \<noteq> protocolVersion then Some (None, Reset f)
           else if h_OpCode v < minOpCode \<or> h_OpCode v > maxOpCode then Some (None, Reset f)
           else Some (None, TransitionSatisfySize f headerDecoderStateIncarnation 2))
   | headerDecoderStateIncarnation \<Rightarrow> do {
       v \<leftarrow> U16 f;
       Some (Some Done, f\<lparr>Value := (Value f)\<lparr>h_Incarnation := v\<rparr>\<rparr>)
     })"

definition headerDecoder :: "(Header, headerDecoderState, unit) Def" where
  "headerDecoder = \<lparr>InitialSize = 2, InitialState = headerDecoderStateMagic,
     NewT = \<lparr>h_Magic = 0, h_Version = 0, h_OpCode = 0, h_Incarnation = 0\<rparr>,
     NewC = (), ResetC = id, DefFeed = headerDecoder_Feed, DefPrepare = id\<rparr>"

subsection \<open>Packet\<close>

record Packet =
  p_Source :: NetIP
  p_Header :: Header
  p_Message :: "Message option"

definition Packet_RequiredSize :: "Header \<Rightarrow> Message \<Rightarrow> nat" where
  "Packet_RequiredSize h m = Header_RequiredSize h + Message_RequiredSize m"

definition Packet_Encode :: "Packet \<Rightarrow> byte list \<Rightarrow> byte list option" where
  "Packet_Encode p into = (let headerSize = Header_RequiredSize (p_Header p) in do {
     into \<leftarrow> Header_Encode (p_Header p) into;
     m \<leftarrow> p_Message p;
     body \<leftarrow> Message_Encode m (drop headerSize into);
     Some (take headerSize into @ body)
   })"

definition Pkt :: "u16 \<Rightarrow> Message \<Rightarrow> Packet" where
  "Pkt incarnation msg = \<lparr>p_Source = [],
     p_Header = \<lparr>h_Magic = protocolMagic, h_Version = protocolVersion, h_OpCode = Message_OpCode msg,
       h_Incarnation = incarnation\<rparr>,
     p_Message = Some msg\<rparr>"

text \<open>\<open>EncPkt\<close>: the buffer has the required size, the header goes first and the body behind it.\<close>

definition EncPkt :: "u16 \<Rightarrow> Message \<Rightarrow> byte list option" where
  "EncPkt incarnation message = (let h = p_Header (Pkt incarnation message);
       data = replicate (Packet_RequiredSize h message) 0
     in do {
       data \<leftarrow> Header_Encode h data;
       body \<leftarrow> Message_Encode message (drop (Header_RequiredSize h) data);
       Some (take (Header_RequiredSize h) data @ body)
     })"

subsection \<open>Decoding a packet\<close>

datatype anyMessageDecoder =
    DPing pingFSM
  | DPong pongFSM
  | DIndirectPing indirectPingFSM
  | DIndirectPong indirectPongFSM
  | DSync syncFSM

fun MessageDecoder_FeedAny :: "anyMessageDecoder \<Rightarrow> byte
    \<Rightarrow> (Message option \<times> go_error option \<times> anyMessageDecoder) option" where
  "MessageDecoder_FeedAny (DPing f) b = FeedAny (Feed pingDecoder_Feed) MPing DPing f b"
| "MessageDecoder_FeedAny (DPong f) b = FeedAny (Feed pongDecoder_Feed) MPong DPong f b"
| "MessageDecoder_FeedAny (DIndirectPing f) b = FeedAny (Feed indirectPingDecoder_Feed) MIndirectPing DIndirectPing f b"
| "MessageDecoder_FeedAny (DIndirectPong f) b = FeedAny (Feed indirectPongDecoder_Feed) MIndirectPong DIndirectPong f b"
| "MessageDecoder_FeedAny (DSync f) b = FeedAny (Feed syncDecoder_Feed) MSync DSync f b"

text \<open>The table of decoders: \<open>None\<close> for a missing key, \<open>Some None\<close> for a key with a nil decoder,
  otherwise a new decoder (\<open>NewGeneric\<close>).\<close>

definition messageDecoderList :: "OpCode \<Rightarrow> anyMessageDecoder option option" where
  "messageDecoderList op =
     (if op = BTRP \<or> op = BTRR \<or> op = BTRA then Some None
      else if op = PING then Some (Some (DPing (New pingDecoder)))
      else if op = PONG then Some (Some (DPong (New pongDecoder)))
      else if op = IING then Some (Some (DIndirectPing (New indirectPingDecoder)))
      else if op = IONG then Some (Some (DIndirectPong (New indirectPongDecoder)))
      else if op = SYNC then Some (Some (DSync (New syncDecoder)))
      else None)"

definition emptyMessageTypes :: "OpCode \<Rightarrow> Message option" where
  "emptyMessageTypes op =
     (if op = BTRP then Some MBootstrapRequest
      else if op = BTRR then Some MBootstrapResponse
      else if op = BTRA then Some MBootstrapAck
      else None)"

datatype packetDecoderState = packetDecoderStateHeader | packetDecoderStatePayload

record packetDecoderContext =
  pk_headerDecoder :: headerFSM
  pk_payloadDecoder :: "anyMessageDecoder option"

definition packetDecoderContext_Reset :: "packetDecoderContext \<Rightarrow> packetDecoderContext" where
  "packetDecoderContext_Reset p = p\<lparr>pk_headerDecoder := Reset (pk_headerDecoder p), pk_payloadDecoder := None\<rparr>"

type_synonym packetFSM = "(Packet, packetDecoderState, packetDecoderContext) FSM"

definition PacketDecoder_Feed :: "(Packet, packetDecoderState, packetDecoderContext) feedFn" where
  "PacketDecoder_Feed f st b = (case st of
     packetDecoderStateHeader \<Rightarrow> do {
       (head, err, dec) \<leftarrow> Feed headerDecoder_Feed (pk_headerDecoder (fcontext f)) b;
       let f = f\<lparr>fcontext := (fcontext f)\<lparr>pk_headerDecoder := dec\<rparr>\<rparr>;
       (case err of Some e \<Rightarrow> Some (Some e, f)
        | None \<Rightarrow> (case head of None \<Rightarrow> Some (None, f)
          | Some h \<Rightarrow> (case messageDecoderList (h_OpCode h) of
              None \<Rightarrow> Some (Some (NoDecoderError (h_OpCode h)), f)
            | Some d \<Rightarrow>
                (let f = f\<lparr>Value := (Value f)\<lparr>p_Header := h\<rparr>\<rparr> in
                 case d of
                   None \<Rightarrow>
                     (let f = (case emptyMessageTypes (h_OpCode h) of None \<Rightarrow> f
                          | Some m \<Rightarrow> f\<lparr>Value := (Value f)\<lparr>p_Message := Some m\<rparr>\<rparr>)
                      in Some (Some Done, f))
                 | Some dec \<Rightarrow>
                     Some (None, Transition (f\<lparr>fcontext := (fcontext f)\<lparr>pk_payloadDecoder := Some dec\<rparr>\<rparr>)
                       packetDecoderStatePayload)))))
     }
   | packetDecoderStatePayload \<Rightarrow>
       (case pk_payloadDecoder (fcontext f) of
          None \<Rightarrow> None
        | Some dec \<Rightarrow> do {
            (msg, err, dec) \<leftarrow> MessageDecoder_FeedAny dec b;
            let f = f\<lparr>fcontext := (fcontext f)\<lparr>pk_payloadDecoder := Some dec\<rparr>\<rparr>;
            (case err of Some e \<Rightarrow> Some (Some e, f)
             | None \<Rightarrow> (case msg of None \<Rightarrow> Some (None, f)
                 | Some m \<Rightarrow> Some (Some Done, f\<lparr>Value := (Value f)\<lparr>p_Message := Some m\<rparr>\<rparr>)))
          }))"

definition PacketDecoder :: "(Packet, packetDecoderState, packetDecoderContext) Def" where
  "PacketDecoder = \<lparr>InitialSize = 0, InitialState = packetDecoderStateHeader,
     NewT = \<lparr>p_Source = [], p_Header = NewT headerDecoder, p_Message = None\<rparr>,
     NewC = \<lparr>pk_headerDecoder = New headerDecoder, pk_payloadDecoder = None\<rparr>,
     ResetC = packetDecoderContext_Reset, DefFeed = PacketDecoder_Feed, DefPrepare = id\<rparr>"

fun ParsePacket_loop :: "packetFSM \<Rightarrow> byte list \<Rightarrow> (go_error + Packet) option" where
  "ParsePacket_loop dec [] = Some (Inl CouldNotParsePacketErr)"
| "ParsePacket_loop dec (b # data) = do {
     (pkt, err, dec) \<leftarrow> Feed PacketDecoder_Feed dec b;
     (case err of Some e \<Rightarrow> Some (Inl e)
      | None \<Rightarrow> (case pkt of Some p \<Rightarrow> Some (Inr p)
          | None \<Rightarrow> ParsePacket_loop dec data))
   }"

definition ParsePacket :: "byte list \<Rightarrow> (go_error + Packet) option" where
  "ParsePacket data = ParsePacket_loop (New PacketDecoder) data"

subsection \<open>TCP packets\<close>

record TCPPacket =
  t_Magic :: u16
  t_Version :: byte
  t_Payload :: "byte list"

definition TCPPacket_RequiredSize :: "TCPPacket \<Rightarrow> nat" where
  "TCPPacket_RequiredSize t = 7 + length (t_Payload t)"

definition TCPPacket_Encode :: "TCPPacket \<Rightarrow> byte list \<Rightarrow> byte list option" where
  "TCPPacket_Encode t into = do {
     w \<leftarrow> w_u16 protocolMagic (newWriter into);
     w \<leftarrow> w_u8 protocolVersion w;
     w \<leftarrow> w_u32 (word_of_nat (length (t_Payload t))) w;
     w \<leftarrow> w_bytes (t_Payload t) w;
     Some (wbuffer w)
   }"

datatype tcpPacketDecoderState =
    tcpPacketDecoderStateMagic
  | tcpPacketDecoderStateVersion
  | tcpPacketDecoderStateSize
  | tcpPacketDecoderStatePayload

type_synonym tcpFSM = "(TCPPacket, tcpPacketDecoderState, unit) FSM"

definition TCPPacketDecoder_Feed :: "(TCPPacket, tcpPacketDecoderState, unit) feedFn" where
  "TCPPacketDecoder_Feed f st b = (case st of
     tcpPacketDecoderStateMagic \<Rightarrow> do {
       m \<leftarrow> U16 f;
       if m \<noteq> protocolMagic then Some (None, Reset f)
       else Some (None, TransitionSatisfySize (f\<lparr>Value := (Value f)\<lparr>t_Magic := protocolMagic\<rparr>\<rparr>)
              tcpPacketDecoderStateVersion 1)
     }
   | tcpPacketDecoderStateVersion \<Rightarrow>
       (if b \<noteq> 1 then Some (None, Reset f)
        else Some (None, TransitionSatisfySize (f\<lparr>Value := (Value f)\<lparr>t_Version := b\<rparr>\<rparr>)
               tcpPacketDecoderStateSize 4))
   | tcpPacketDecoderStateSize \<Rightarrow> do {
       n \<leftarrow> U32 f;
       let f = f\<lparr>Value := (Value f)\<lparr>t_Payload := replicate (unat n) 0\<rparr>\<rparr>;
       Some (None, TransitionSatisfySize f tcpPacketDecoderStatePayload (int (length (t_Payload (Value f)))))
     }
   | tcpPacketDecoderStatePayload \<Rightarrow>
       Some (Some Done, f\<lparr>Value := (Value f)\<lparr>t_Payload := CopyPayload f (t_Payload (Value f))\<rparr>\<rparr>))"

definition TCPPacketDecoder :: "(TCPPacket, tcpPacketDecoderState, unit) Def" where
  "TCPPacketDecoder = \<lparr>InitialSize = 2, InitialState = tcpPacketDecoderStateMagic,
     NewT = \<lparr>t_Magic = 0, t_Version = 0, t_Payload = []\<rparr>,
     NewC = (), ResetC = id, DefFeed = TCPPacketDecoder_Feed, DefPrepare = id\<rparr>"

text \<open>\<open>EncTCPPkt\<close>: the sealer may fail with an error, which is returned.\<close>

definition EncTCPPkt :: "u16 \<Rightarrow> Message \<Rightarrow> (byte list \<Rightarrow> 'e + byte list) \<Rightarrow> ('e + TCPPacket) option" where
  "EncTCPPkt incarnation message cryptoSealer = do {
     buf \<leftarrow> EncPkt incarnation message;
     (case cryptoSealer buf of
        Inl err \<Rightarrow> Some (Inl err)
      | Inr buf \<Rightarrow> Some (Inr \<lparr>t_Magic = protocolMagic, t_Version = protocolVersion, t_Payload = buf\<rparr>))
   }"

end
