(* ===== verification/Packet_Codec.thy ===== *)
theory Packet_Codec
  imports Proto_Packet
begin

text \<open>
  What packets guarantee: \<open>ParsePacket\<close> inverts \<open>EncPkt\<close>, never panics, and only returns packets
  whose message agrees with its header; the TCP decoder recovers every packet of a stream.
\<close>

subsection \<open>Headers\<close>

definition header_wire :: "Header \<Rightarrow> byte list" where
  "header_wire h = be16 (h_Magic h) @ (push_bit 4 (h_Version h) OR h_OpCode h) # be16 (h_Incarnation h)"

interpretation header_enc: encoder Header_Encode Header_RequiredSize header_wire "\<lambda>_. True"
proof
  fix v :: Header and buf :: "byte list"
  assume len: "Header_RequiredSize v \<le> length buf"
  then obtain b0 b1 b2 b3 b4 r where "buf = b0 # b1 # b2 # b3 # b4 # r"
    by (auto simp: Header_RequiredSize_def numeral_eq_Suc Suc_le_length_iff)
  then show "Header_Encode v buf = Some (header_wire v @ drop (Header_RequiredSize v) buf)"
    by (simp add: Header_Encode_def header_wire_def Header_RequiredSize_def PutUint16_eq be16_def numeral_eq_Suc)
qed (simp add: Header_RequiredSize_def header_wire_def)

definition wfHeader :: "Header \<Rightarrow> bool" where
  "wfHeader h \<longleftrightarrow> h_Magic h = protocolMagic \<and> h_Version h = protocolVersion
     \<and> minOpCode \<le> h_OpCode h \<and> h_OpCode h \<le> maxOpCode"

lemma version_opcode_byte:
  fixes c :: byte
  assumes "c \<le> maxOpCode"
  shows "drop_bit 4 ((push_bit 4 protocolVersion OR c) AND 0xF0) = protocolVersion"
    and "(push_bit 4 protocolVersion OR c) AND 0x0F = c"
proof -
  have "unat c \<le> 8" using assms by (simp add: word_le_nat_alt)
  then have "c \<in> {0, 1, 2, 3, 4, 5, 6, 7, 8}"
    by (simp add: word_unat_eq_iff) linarith
  then show "drop_bit 4 ((push_bit 4 protocolVersion OR c) AND 0xF0) = protocolVersion"
    and "(push_bit 4 protocolVersion OR c) AND 0x0F = c"
    by (elim insertE emptyE; simp)+
qed

definition header_ready :: "headerFSM \<Rightarrow> bool" where
  "header_ready f \<longleftrightarrow> f = New headerDecoder"

interpretation header_dec: stream_decoder "Feed headerDecoder_Feed" header_ready wfHeader header_wire
proof
  fix f :: headerFSM and h :: Header
  assume "header_ready f" and wf: "wfHeader h"
  then have f: "f = New headerDecoder" by (simp add: header_ready_def)
  obtain m v c i where h: "h = \<lparr>h_Magic = m, h_Version = v, h_OpCode = c, h_Incarnation = i\<rparr>" by (cases h)
  have c: "m = protocolMagic" "v = protocolVersion" "c \<le> maxOpCode" "\<not> c < minOpCode" "\<not> maxOpCode < c"
    using wf by (auto simp: wfHeader_def h not_less)
  have "Drive (Feed headerDecoder_Feed) f (header_wire h @ ys) = Some (Some (h, ys), New headerDecoder)" for ys
    unfolding f h header_wire_def append_Cons append_assoc
    using c version_opcode_byte [OF c(3)]
    by (simp add: Drive_direct Drive_block headerDecoder_Feed_def headerDecoder_def fsm_simps del: Drive.simps)
  then show "\<exists>f'. header_ready f' \<and> (\<forall>ys. Drive (Feed headerDecoder_Feed) f (header_wire h @ ys) = Some (Some (h, ys), f'))"
    by (auto simp: header_ready_def)
qed

definition header_inv :: "headerFSM \<Rightarrow> bool" where
  "header_inv f \<longleftrightarrow> of_def headerDecoder f \<and> (case fstate f of
     headerDecoderStateMagic \<Rightarrow> pending f 2
   | headerDecoderStateVersionOpCode \<Rightarrow> \<not> mustSatisfySize f \<and> h_Magic (Value f) = protocolMagic
   | headerDecoderStateIncarnation \<Rightarrow> pending f 2 \<and> wfHeader (Value f))"

lemma header_inv_New [simp]: "header_inv (New headerDecoder)"
  by (simp add: header_inv_def New_eq headerDecoder_def of_def_def pending_def)

lemma header_inv_Reset [simp]: "of_def headerDecoder f \<Longrightarrow> header_inv (Reset f)"
  by (simp add: header_inv_def of_def_fields fsm_simps) (simp add: headerDecoder_def pending_def)

interpretation header_safe: safe_decoder "Feed headerDecoder_Feed" header_inv header_inv wfHeader
proof
  fix f :: headerFSM and b :: byte
  assume inv: "header_inv f"
  then have f: "of_def headerDecoder f" by (simp add: header_inv_def)
  show "\<exists>v f'. Feed headerDecoder_Feed f b = Some (v, None, f') \<and> sound_out header_inv header_inv wfHeader v f'"
  proof (cases "fstate f")
    case headerDecoderStateMagic
    with inv have pend: "pending f 2" by (simp add: header_inv_def)
    show ?thesis
      using headerDecoderStateMagic f pend
      by (intro safe_pending [OF pend])
        (simp_all add: FeedStep_def headerDecoder_Feed_def U16_def Uint16_def Let_def,
         simp_all add: header_inv_def fsm_op_defs pending_def)
  next
    case headerDecoderStateVersionOpCode
    with inv have d: "\<not> mustSatisfySize f" "h_Magic (Value f) = protocolMagic" by (simp_all add: header_inv_def)
    show ?thesis
      using headerDecoderStateVersionOpCode f d
      by (intro safe_direct)
        (simp_all add: FeedStep_def headerDecoder_Feed_def Let_def,
         auto simp: header_inv_def TransitionSatisfySize_def TransitionSize_def ResetPayload_def SatisfySize_def
           pending_def wfHeader_def byte_ge_one not_less)
  next
    case headerDecoderStateIncarnation
    with inv have pend: "pending f 2" and wf: "wfHeader (Value f)" by (simp_all add: header_inv_def)
    show ?thesis
      using headerDecoderStateIncarnation f wf pend
      by (intro safe_pending [OF pend])
        (simp_all add: FeedStep_def headerDecoder_Feed_def U16_def Uint16_def,
         simp_all add: header_inv_def pending_def wfHeader_def)
  qed
qed


subsection \<open>Messages behind their interface\<close>

lemma MessageDecoder_FeedAny_error_nil: "MessageDecoder_FeedAny d b = Some (v, e, d') \<Longrightarrow> e = None"
  by (cases d) (auto simp: FeedAny_def dest: Feed_error_nil_aux)

lemma MessageDecoder_wrapped:
  "Drive MessageDecoder_FeedAny (DPing f1) = (\<lambda>xs. map_option (\<lambda>(r, g). (map_option (\<lambda>(v, ys). (MPing v, ys)) r, DPing g)) (Drive (Feed pingDecoder_Feed) f1 xs))"
  "Drive MessageDecoder_FeedAny (DPong f2) = (\<lambda>xs. map_option (\<lambda>(r, g). (map_option (\<lambda>(v, ys). (MPong v, ys)) r, DPong g)) (Drive (Feed pongDecoder_Feed) f2 xs))"
  "Drive MessageDecoder_FeedAny (DIndirectPing f3) = (\<lambda>xs. map_option (\<lambda>(r, g). (map_option (\<lambda>(v, ys). (MIndirectPing v, ys)) r, DIndirectPing g)) (Drive (Feed indirectPingDecoder_Feed) f3 xs))"
  "Drive MessageDecoder_FeedAny (DIndirectPong f4) = (\<lambda>xs. map_option (\<lambda>(r, g). (map_option (\<lambda>(v, ys). (MIndirectPong v, ys)) r, DIndirectPong g)) (Drive (Feed indirectPongDecoder_Feed) f4 xs))"
  "Drive MessageDecoder_FeedAny (DSync f5) = (\<lambda>xs. map_option (\<lambda>(r, g). (map_option (\<lambda>(v, ys). (MSync v, ys)) r, DSync g)) (Drive (Feed syncDecoder_Feed) f5 xs))"
  by (rule ext, rule Drive_wrapped, simp add: FeedAny_def)+

text \<open>A message with a body has a decoder under its operation code, and that decoder reads it back.\<close>

lemma message_decodes:
  assumes "wfMessage m" and "messageDecoderList (Message_OpCode m) = Some (Some d)"
  shows "\<exists>d'. Drive MessageDecoder_FeedAny d (message_wire m @ ys) = Some (Some (m, ys), d')"
proof (cases m)
  case (MPing p)
  with assms ping_decodes [of p ys] show ?thesis
    by (auto simp: messageDecoderList_def MessageDecoder_wrapped simp del: message_wire.simps)
next
  case (MPong p)
  with assms pong_decodes [of p ys] show ?thesis
    by (auto simp: messageDecoderList_def MessageDecoder_wrapped simp del: message_wire.simps)
next
  case (MIndirectPing p)
  with assms indirectPing_decodes [of p ys] show ?thesis
    by (auto simp: messageDecoderList_def MessageDecoder_wrapped simp del: message_wire.simps)
next
  case (MIndirectPong p)
  with assms indirectPong_decodes [of p ys] show ?thesis
    by (auto simp: messageDecoderList_def MessageDecoder_wrapped simp del: message_wire.simps)
next
  case (MSync p)
  with assms sync_decodes [of p ys] show ?thesis
    by (auto simp: messageDecoderList_def MessageDecoder_wrapped simp del: message_wire.simps)
qed (use assms in \<open>simp_all add: messageDecoderList_def\<close>)

lemma message_without_body:
  "messageDecoderList (Message_OpCode m) = Some None \<Longrightarrow>
   message_wire m = [] \<and> emptyMessageTypes (Message_OpCode m) = Some m"
  by (cases m) (simp_all add: messageDecoderList_def emptyMessageTypes_def)

lemma messageDecoderList_total: "messageDecoderList (Message_OpCode m) \<noteq> None"
  by (cases m) (simp_all add: messageDecoderList_def)

lemma Message_OpCode_range: "minOpCode \<le> Message_OpCode m" "Message_OpCode m \<le> maxOpCode"
  by (cases m; simp)+

fun message_inv :: "anyMessageDecoder \<Rightarrow> bool" where
  "message_inv (DPing f) = ping_inv f"
| "message_inv (DPong f) = pong_inv f"
| "message_inv (DIndirectPing f) = indirectPing_inv f"
| "message_inv (DIndirectPong f) = indirectPong_inv f"
| "message_inv (DSync f) = sync_inv f"

fun decoder_op :: "anyMessageDecoder \<Rightarrow> OpCode" where
  "decoder_op (DPing f) = PING"
| "decoder_op (DPong f) = PONG"
| "decoder_op (DIndirectPing f) = IING"
| "decoder_op (DIndirectPong f) = IONG"
| "decoder_op (DSync f) = SYNC"

lemmas ping_safe_any = safe_wrapped [where I = ping_inv and post = "\<lambda>_. True" and ok = "\<lambda>p. typedMessage (MPing p)",
  OF ping_safe_step]
lemmas pong_safe_any = safe_wrapped [where I = pong_inv and post = "\<lambda>_. True" and ok = "\<lambda>p. typedMessage (MPong p)",
  OF pong_safe_step]
lemmas indirectPing_safe_any = safe_wrapped [where I = indirectPing_inv and post = "\<lambda>_. True"
  and ok = "\<lambda>p. typedMessage (MIndirectPing p)", OF indirectPing_safe_step]
lemmas indirectPong_safe_any = safe_wrapped [where I = indirectPong_inv and post = "\<lambda>_. True"
  and ok = "\<lambda>p. typedMessage (MIndirectPong p)", OF indirectPong_safe_step]
lemmas sync_safe_any = safe_wrapped [where I = sync_inv and post = "\<lambda>_. True" and ok = "\<lambda>p. typedMessage (MSync p)",
  OF sync_safe_step]

text \<open>A decoder keeps its kind, and yields messages of that kind.\<close>

lemma message_safe:
  assumes "message_inv d"
  shows "\<exists>v d'. MessageDecoder_FeedAny d b = Some (v, None, d') \<and>
    sound_out (\<lambda>e. message_inv e \<and> decoder_op e = decoder_op d) (\<lambda>_. True)
      (\<lambda>m. typedMessage m \<and> Message_OpCode m = decoder_op d) v d'"
  using assms
  by (cases d)
    (simp_all add: ping_safe_any pong_safe_any indirectPing_safe_any indirectPong_safe_any sync_safe_any
      del: typedMessage.simps)

lemma message_inv_New:
  "ping_inv (New pingDecoder)" "pong_inv (New pongDecoder)" "indirectPing_inv (New indirectPingDecoder)"
  "indirectPong_inv (New indirectPongDecoder)" "sync_inv (New syncDecoder)"
  unfolding ping_inv_def pong_inv_def indirectPing_inv_def indirectPong_inv_def sync_inv_def pending_def
    New_eq [of pingDecoder] New_eq [of pongDecoder] New_eq [of indirectPingDecoder]
    New_eq [of indirectPongDecoder] New_eq [of syncDecoder]
  by (simp_all add: pingDecoder_def pongDecoder_def indirectPingDecoder_def indirectPongDecoder_def
      syncDecoder_def pingDecoderContext_Reset_def syncDecoderContext_Reset_def)

lemma messageDecoderList_safe:
  "messageDecoderList c = Some (Some d) \<Longrightarrow> message_inv d \<and> decoder_op d = c"
  by (auto simp: messageDecoderList_def message_inv_New split: if_splits)


subsection \<open>Packets\<close>

text \<open>What the packet decoder does with a decoded header.\<close>

definition packet_header :: "Header \<Rightarrow> packetFSM \<Rightarrow> (go_error option \<times> packetFSM) option" where
  "packet_header h f = (case messageDecoderList (h_OpCode h) of
     None \<Rightarrow> Some (Some (NoDecoderError (h_OpCode h)), f)
   | Some None \<Rightarrow> Some (Some Done, f\<lparr>Value := (case emptyMessageTypes (h_OpCode h) of
         None \<Rightarrow> (Value f)\<lparr>p_Header := h\<rparr>
       | Some m \<Rightarrow> (Value f)\<lparr>p_Header := h, p_Message := Some m\<rparr>)\<rparr>)
   | Some (Some dec) \<Rightarrow> Some (None, Transition (f\<lparr>Value := (Value f)\<lparr>p_Header := h\<rparr>,
         fcontext := (fcontext f)\<lparr>pk_payloadDecoder := Some dec\<rparr>\<rparr>) packetDecoderStatePayload))"

definition packet_in_header :: "packetFSM \<Rightarrow> bool" where
  "packet_in_header f \<longleftrightarrow> \<not> mustSatisfySize f \<and> fstate f = packetDecoderStateHeader"

definition packet_in_payload :: "packetFSM \<Rightarrow> bool" where
  "packet_in_payload f \<longleftrightarrow> \<not> mustSatisfySize f \<and> fstate f = packetDecoderStatePayload
     \<and> pk_payloadDecoder (fcontext f) \<noteq> None"

interpretation packet_hd: delegation PacketDecoder_Feed "Feed headerDecoder_Feed"
  "\<lambda>f. pk_headerDecoder (fcontext f)"
  "\<lambda>g f. f\<lparr>fcontext := (fcontext f)\<lparr>pk_headerDecoder := g\<rparr>\<rparr>" packet_in_header packet_header
  by unfold_locales
    (auto simp: packet_in_header_def PacketDecoder_Feed_def packet_header_def Feed_error_nil_aux Let_def
      split: option.splits)

interpretation packet_pl: delegation PacketDecoder_Feed MessageDecoder_FeedAny
  "\<lambda>f. the (pk_payloadDecoder (fcontext f))"
  "\<lambda>g f. f\<lparr>fcontext := (fcontext f)\<lparr>pk_payloadDecoder := Some g\<rparr>\<rparr>" packet_in_payload
  "\<lambda>m f. Some (Some Done, f\<lparr>Value := (Value f)\<lparr>p_Message := Some m\<rparr>\<rparr>)"
  by unfold_locales
    (auto simp: packet_in_payload_def PacketDecoder_Feed_def MessageDecoder_FeedAny_error_nil Let_def
      split: option.splits)

lemma ParsePacket_loop_Drive:
  "ParsePacket_loop dec data = (case Drive (Feed PacketDecoder_Feed) dec data of
     None \<Rightarrow> None
   | Some (None, _) \<Rightarrow> Some (Inl CouldNotParsePacketErr)
   | Some (Some (p, _), _) \<Rightarrow> Some (Inr p))"
  by (induction data arbitrary: dec) (auto simp: dest: Feed_error_nil_aux split: option.splits Option.bind_splits)

definition packet_wire :: "u16 \<Rightarrow> Message \<Rightarrow> byte list" where
  "packet_wire inc m = header_wire (p_Header (Pkt inc m)) @ message_wire m"

lemma EncPkt_wire: "typedMessage m \<Longrightarrow> EncPkt inc m = Some (packet_wire inc m)"
  using header_enc.wire_length [of "p_Header (Pkt inc m)"] message_enc.Encode_exact [of m]
  by (simp add: EncPkt_def Let_def header_enc.Encode_wire Packet_RequiredSize_def packet_wire_def)

lemma wfHeader_Pkt: "wfHeader (p_Header (Pkt inc m))"
  by (simp add: wfHeader_def Pkt_def Message_OpCode_range)

text \<open>After its header, the decoder of a packet with a body waits for that body.\<close>

lemma packet_decodes:
  assumes "wfMessage m"
  shows "\<exists>f'. Drive (Feed PacketDecoder_Feed) (New PacketDecoder) (packet_wire inc m @ ys) = Some (Some (Pkt inc m, ys), f')"
proof -
  let ?h = "p_Header (Pkt inc m)" and ?F = "Drive (Feed PacketDecoder_Feed)"
  have op: "h_OpCode ?h = Message_OpCode m" by (simp add: Pkt_def)
  have rd: "header_ready (pk_headerDecoder (fcontext (New PacketDecoder)))"
    by (simp add: header_ready_def fsm_simps PacketDecoder_def packetDecoderContext_Reset_def headerDecoder_def)
  have here: "packet_in_header (New PacketDecoder)"
    by (simp add: packet_in_header_def fsm_simps PacketDecoder_def)
  obtain g where g: "Drive (Feed headerDecoder_Feed) (pk_headerDecoder (fcontext (New PacketDecoder)))
      (packet_wire inc m @ ys) = Some (Some (?h, message_wire m @ ys), g)"
    using header_dec.decodes [OF rd wfHeader_Pkt] unfolding packet_wire_def append_assoc by blast
  define f where "f = (\<lambda>c. (New PacketDecoder)\<lparr>currentByte := c,
    fcontext := (fcontext (New PacketDecoder))\<lparr>pk_headerDecoder := g\<rparr>\<rparr>)"
  obtain c where c: "?F (New PacketDecoder) (packet_wire inc m @ ys)
      = After PacketDecoder_Feed (packet_header ?h (f c)) (message_wire m @ ys)"
    using packet_hd.Drive_delegate [OF here g] by (auto simp: f_def)
  have val: "Value (f c) = \<lparr>p_Source = [], p_Header = NewT headerDecoder, p_Message = None\<rparr>"
    by (simp add: f_def fsm_simps PacketDecoder_def)
  consider "messageDecoderList (Message_OpCode m) = Some None"
    | d where "messageDecoderList (Message_OpCode m) = Some (Some d)"
    using messageDecoderList_total [of m] by (metis not_None_eq)
  then show ?thesis
  proof cases
    case 1
    with message_without_body [OF 1] c val op show ?thesis
      by (simp add: packet_header_def After_simps) (simp add: Pkt_def)
  next
    case (2 d)
    let ?f = "Transition ((f c)\<lparr>Value := (Value (f c))\<lparr>p_Header := ?h\<rparr>,
      fcontext := (fcontext (f c))\<lparr>pk_payloadDecoder := Some d\<rparr>\<rparr>) packetDecoderStatePayload"
    have here2: "packet_in_payload ?f"
      by (simp add: packet_in_payload_def fsm_simps f_def PacketDecoder_def)
    have inner: "the (pk_payloadDecoder (fcontext ?f)) = d"
      by (simp add: fsm_op_defs)
    obtain d' where d': "Drive MessageDecoder_FeedAny (the (pk_payloadDecoder (fcontext ?f))) (message_wire m @ ys)
        = Some (Some (m, ys), d')"
      unfolding inner using message_decodes [OF assms 2] by blast
    have "?F (New PacketDecoder) (packet_wire inc m @ ys) = ?F ?f (message_wire m @ ys)"
      using c 2 op by (simp add: packet_header_def After_simps)
    with packet_pl.Drive_delegate [OF here2 d'] val show ?thesis
      by (auto simp: After_simps fsm_op_defs) (simp add: Pkt_def)
  qed
qed


subsection \<open>Packets from arbitrary bytes\<close>

definition packet_ok :: "Packet \<Rightarrow> bool" where
  "packet_ok p \<longleftrightarrow> wfHeader (p_Header p) \<and>
     (\<exists>m. p_Message p = Some m \<and> typedMessage m \<and> Message_OpCode m = h_OpCode (p_Header p))"

definition packet_inv :: "packetFSM \<Rightarrow> bool" where
  "packet_inv f \<longleftrightarrow> of_def PacketDecoder f \<and> \<not> mustSatisfySize f \<and> header_inv (pk_headerDecoder (fcontext f)) \<and>
     (fstate f = packetDecoderStatePayload \<longrightarrow> wfHeader (p_Header (Value f)) \<and>
       (\<exists>d. pk_payloadDecoder (fcontext f) = Some d \<and> message_inv d \<and> decoder_op d = h_OpCode (p_Header (Value f))))"

lemma packet_inv_New: "packet_inv (New PacketDecoder)"
proof -
  have "header_inv (Reset (New headerDecoder))" by simp
  then show ?thesis
    unfolding packet_inv_def New_eq [of PacketDecoder]
    by (simp add: PacketDecoder_def packetDecoderContext_Reset_def of_def_def)
qed

lemma header_has_decoder: "wfHeader h \<Longrightarrow> messageDecoderList (h_OpCode h) \<noteq> None"
proof -
  assume "wfHeader h"
  then have "1 \<le> unat (h_OpCode h)" "unat (h_OpCode h) \<le> 8" by (auto simp: wfHeader_def word_le_nat_alt)
  then have "h_OpCode h \<in> {1, 2, 3, 4, 5, 6, 7, 8}" by (simp add: word_unat_eq_iff) linarith
  then show ?thesis by (auto simp: messageDecoderList_def)
qed

lemma bodyless_has_message:
  "messageDecoderList c = Some None \<Longrightarrow>
   \<exists>m. emptyMessageTypes c = Some m \<and> typedMessage m \<and> Message_OpCode m = c"
  by (auto simp: messageDecoderList_def emptyMessageTypes_def split: if_splits)

text \<open>The step of the packet decoder on a decoded header keeps the invariant or yields a good packet.\<close>

lemma packet_header_safe:
  assumes "wfHeader h" and "of_def PacketDecoder f" and "\<not> mustSatisfySize f"
    and "header_inv (pk_headerDecoder (fcontext f))"
  shows "\<exists>e f'. packet_header h f = Some (e, f') \<and> (if e = Some Done then packet_ok (Value f') else packet_inv f')"
proof -
  obtain d where d: "messageDecoderList (h_OpCode h) = Some d"
    using header_has_decoder [OF assms(1)] by blast
  show ?thesis
  proof (cases d)
    case None
    then obtain m where "emptyMessageTypes (h_OpCode h) = Some m" "typedMessage m" "Message_OpCode m = h_OpCode h"
      using bodyless_has_message d by blast
    with None d assms(1) show ?thesis by (simp add: packet_header_def packet_ok_def)
  next
    case (Some dec)
    with d messageDecoderList_safe [of "h_OpCode h" dec] assms show ?thesis
      by (simp add: packet_header_def packet_inv_def fsm_op_defs)
  qed
qed

lemma packet_context_byte: "fcontext ((f :: packetFSM)\<lparr>currentByte := b\<rparr>) = fcontext f"
  by (cases f) simp

interpretation packet_safe: safe_decoder "Feed PacketDecoder_Feed" packet_inv "\<lambda>_. True" packet_ok
proof
  fix f :: packetFSM and b :: byte
  assume inv: "packet_inv f"
  then have f: "of_def PacketDecoder f" "\<not> mustSatisfySize f" "header_inv (pk_headerDecoder (fcontext f))"
    by (simp_all add: packet_inv_def)
  show "\<exists>v f'. Feed PacketDecoder_Feed f b = Some (v, None, f') \<and> sound_out packet_inv (\<lambda>_. True) packet_ok v f'"
  proof (cases "fstate f")
    case packetDecoderStateHeader
    then have here: "packet_in_header (f\<lparr>currentByte := b\<rparr>)" using f by (simp add: packet_in_header_def)
    obtain v g where g: "Feed headerDecoder_Feed (pk_headerDecoder (fcontext f)) b = Some (v, None, g)"
        "sound_out header_inv header_inv wfHeader v g"
      using header_safe.safe_step [OF f(3)] by blast
    let ?f = "f\<lparr>currentByte := b, fcontext := (fcontext f)\<lparr>pk_headerDecoder := g\<rparr>\<rparr>"
    have F: "PacketDecoder_Feed (f\<lparr>currentByte := b\<rparr>) (fstate f) b
        = (case v of None \<Rightarrow> Some (None, ?f) | Some h \<Rightarrow> packet_header h ?f)"
      using packet_hd.delegates [OF here, of b v g] g(1) by (cases v) (simp_all add: packet_context_byte)
    show ?thesis
    proof (cases v)
      case None
      with F f g packetDecoderStateHeader show ?thesis
        by (intro safe_direct) (simp_all add: FeedStep_def packet_inv_def)
    next
      case (Some h)
      obtain e f' where "packet_header h ?f = Some (e, f')"
          "if e = Some Done then packet_ok (Value f') else packet_inv f'"
        using packet_header_safe [of h ?f] Some f g(2) by auto
      with F Some f show ?thesis
        by (intro safe_direct) (auto simp: FeedStep_def split: if_splits)
    qed
  next
    case packetDecoderStatePayload
    with inv obtain d where d: "pk_payloadDecoder (fcontext f) = Some d" "message_inv d"
        "decoder_op d = h_OpCode (p_Header (Value f))" "wfHeader (p_Header (Value f))"
      by (auto simp: packet_inv_def)
    obtain v d' where "MessageDecoder_FeedAny d b = Some (v, None, d')"
        "sound_out (\<lambda>e. message_inv e \<and> decoder_op e = decoder_op d) (\<lambda>_. True)
          (\<lambda>m. typedMessage m \<and> Message_OpCode m = decoder_op d) v d'"
      using message_safe [OF d(2)] by blast
    with d f packetDecoderStatePayload show ?thesis
      by (intro safe_direct; cases v)
        (auto simp: FeedStep_def PacketDecoder_Feed_def packet_inv_def packet_ok_def)
  qed
qed

subsection \<open>TCP packets\<close>

definition tcp_wire :: "TCPPacket \<Rightarrow> byte list" where
  "tcp_wire t = be16 protocolMagic @ protocolVersion # be32 (word_of_nat (length (t_Payload t))) @ t_Payload t"

interpretation tcp_enc: encoder TCPPacket_Encode TCPPacket_RequiredSize tcp_wire "\<lambda>_. True"
  by unfold_locales
    (auto simp: TCPPacket_Encode_def TCPPacket_RequiredSize_def tcp_wire_def wire_simps ac_simps numeral_eq_Suc)

text \<open>The packets the framing can carry: a payload that is not empty and whose length fits 32 bits.\<close>

definition wfTCP :: "TCPPacket \<Rightarrow> bool" where
  "wfTCP t \<longleftrightarrow> t_Magic t = protocolMagic \<and> t_Version t = protocolVersion
     \<and> t_Payload t \<noteq> [] \<and> length (t_Payload t) < 2 ^ 32"

definition tcp_ready :: "tcpFSM \<Rightarrow> bool" where
  "tcp_ready f \<longleftrightarrow> f = New TCPPacketDecoder"

lemma tcp_header_decodes:
  assumes "n < 2 ^ 32"
  shows "Drive (Feed TCPPacketDecoder_Feed) (New TCPPacketDecoder)
      (be16 protocolMagic @ protocolVersion # be32 (word_of_nat n) @ zs)
    = Drive (Feed TCPPacketDecoder_Feed) \<lparr>Value = \<lparr>t_Magic = protocolMagic, t_Version = protocolVersion, t_Payload = replicate n 0\<rparr>,
        Size = int n, Payload = [], initialSize = 2, initialState = tcpPacketDecoderStateMagic,
        newT = NewT TCPPacketDecoder, resetC = id, fstate = tcpPacketDecoderStatePayload, fcontext = (),
        currentByte = last (be32 (word_of_nat n)), mustSatisfySize = True\<rparr> zs"
proof -
  have "unat (word_of_nat n :: u32) = n" and "uint (word_of_nat n :: u32) = int n"
    using assms by (simp_all add: unat_of_nat uint_nat)
  then show ?thesis
    by (simp add: Drive_block Drive_satisfied TCPPacketDecoder_Feed_def TCPPacketDecoder_def fsm_simps del: Drive.simps)
qed

interpretation tcp_dec: stream_decoder "Feed TCPPacketDecoder_Feed" tcp_ready wfTCP tcp_wire
proof
  fix f :: tcpFSM and t :: TCPPacket
  assume "tcp_ready f" and wf: "wfTCP t"
  then have f: "f = New TCPPacketDecoder" and len: "length (t_Payload t) < 2 ^ 32"
    by (simp_all add: tcp_ready_def wfTCP_def)
  have "Drive (Feed TCPPacketDecoder_Feed) f (tcp_wire t @ ys) = Some (Some (t, ys), New TCPPacketDecoder)" for ys
    unfolding f tcp_wire_def append_Cons append_assoc tcp_header_decodes [OF len]
    using wf
    by (cases t) (simp add: wfTCP_def Drive_block TCPPacketDecoder_Feed_def TCPPacketDecoder_def
      fsm_simps go_copy_same_length del: Drive.simps)
  then show "\<exists>f'. tcp_ready f' \<and> (\<forall>ys. Drive (Feed TCPPacketDecoder_Feed) f (tcp_wire t @ ys) = Some (Some (t, ys), f'))"
    by (auto simp: tcp_ready_def)
qed

text \<open>A declared payload of no bytes: the decoder waits for a size it can never satisfy.\<close>

lemma tcp_empty_stuck:
  "\<exists>f'. Drive (Feed TCPPacketDecoder_Feed) (New TCPPacketDecoder)
     (be16 protocolMagic @ protocolVersion # be32 0 @ xs) = Some (None, f')"
proof -
  have "Drive (Feed TCPPacketDecoder_Feed) (New TCPPacketDecoder) (be16 protocolMagic @ protocolVersion # be32 0 @ xs)
    = Drive (Feed TCPPacketDecoder_Feed) \<lparr>Value = \<lparr>t_Magic = protocolMagic, t_Version = protocolVersion, t_Payload = []\<rparr>,
        Size = 0, Payload = [], initialSize = 2, initialState = tcpPacketDecoderStateMagic,
        newT = NewT TCPPacketDecoder, resetC = id, fstate = tcpPacketDecoderStatePayload, fcontext = (),
        currentByte = last (be32 0), mustSatisfySize = True\<rparr> xs"
    using tcp_header_decodes [of 0 xs] by simp
  then show ?thesis by (metis Drive_stuck FSM.select_convs(2, 11) order_refl)
qed

subsection \<open>Counts beyond one byte\<close>

text \<open>The count byte is the number of items modulo 256, so the wire form of a long list begins with the
  wire form of the list cut to that many items.\<close>

lemma count_byte_mod: "(word_of_nat (n mod 256) :: byte) = word_of_nat n"
  by (simp add: word_unat_eq_iff unat_of_nat)

lemma concat_map_take: "concat (map h (take n xs)) @ concat (map h (drop n xs)) = concat (map h xs)"
  by (metis append_take_drop_id concat_append map_append)

lemma min_mod_length [simp]: "min (length xs) (length xs mod 256) = length xs mod 256"
  by (simp add: min_def)

definition cut_sync :: "Sync \<Rightarrow> Sync" where
  "cut_sync s = s\<lparr>sync_Nodes := take (length (sync_Nodes s) mod 256) (sync_Nodes s)\<rparr>"

definition cut_ping :: "Ping \<Rightarrow> Ping" where
  "cut_ping p = p\<lparr>ping_Events := take (length (ping_Events p) mod 256) (ping_Events p)\<rparr>"

lemma packet_wire_cut:
  assumes "message_wire m = message_wire m' @ rest" and "Message_OpCode m = Message_OpCode m'"
  shows "packet_wire inc m = packet_wire inc m' @ rest"
  using assms by (simp add: packet_wire_def Pkt_def)

lemma sync_wire_cut: "message_wire (MSync s) = message_wire (MSync (cut_sync s))
    @ concat (map node_wire (drop (length (sync_Nodes s) mod 256) (sync_Nodes s)))"
  by (simp add: cut_sync_def count_byte_mod concat_map_take)

lemma ping_wire_cut: "message_wire (MPing p) = message_wire (MPing (cut_ping p))
    @ concat (map event_wire (drop (length (ping_Events p) mod 256) (ping_Events p)))"
  by (simp add: cut_ping_def count_byte_mod concat_map_take)

lemma wf_cut_sync: "list_all wfNode (sync_Nodes s) \<Longrightarrow> wfMessage (MSync (cut_sync s))"
  using mod_less_divisor [of 256 "length (sync_Nodes s)"]
  by (auto simp: cut_sync_def list_all_iff dest: in_set_takeD)

lemma wf_cut_ping: "list_all wfEvent (ping_Events p) \<Longrightarrow> wfMessage (MPing (cut_ping p))"
  using mod_less_divisor [of 256 "length (ping_Events p)"]
  by (auto simp: cut_ping_def list_all_iff dest: in_set_takeD)

subsection \<open>Parsing what was encoded\<close>

lemma ParsePacket_wire: "wfMessage m \<Longrightarrow> ParsePacket (packet_wire inc m @ ys) = Some (Inr (Pkt inc m))"
  using packet_decodes [of m inc ys] by (auto simp: ParsePacket_def ParsePacket_loop_Drive)

lemma ParsePacket_cut:
  assumes "typedMessage m" and "message_wire m = message_wire m' @ rest"
    and "Message_OpCode m = Message_OpCode m'" and "wfMessage m'"
  shows "\<exists>data. EncPkt inc m = Some data \<and> ParsePacket data = Some (Inr (Pkt inc m'))"
  using assms EncPkt_wire packet_wire_cut ParsePacket_wire by metis

lemma packet_wire_length: "typedMessage m \<Longrightarrow> length (packet_wire inc m) = 5 + Message_RequiredSize m"
  using header_enc.wire_length [of "p_Header (Pkt inc m)"] message_enc.wire_length [of m]
  by (simp add: packet_wire_def Header_RequiredSize_def)

lemma ParsePacket_sound:
  "ParsePacket data = Some (Inl CouldNotParsePacketErr) \<or>
   (\<exists>p. ParsePacket data = Some (Inr p) \<and> packet_ok p)"
proof -
  obtain r f where "Drive (Feed PacketDecoder_Feed) (New PacketDecoder) data = Some (r, f)"
      and "sound_out packet_inv (\<lambda>_. True) (packet_ok \<circ> fst) r f"
    using packet_safe.Drive_safe [OF packet_inv_New] by blast
  then show ?thesis
    by (cases r) (auto simp: ParsePacket_def ParsePacket_loop_Drive)
qed

end
