(* ===== verification/Wire_Properties.thy ===== *)
theory Wire_Properties
  imports Packet_Codec
begin

text \<open>
  The properties of the protocol library as its clients see it: packets survive the trip through
  \<open>EncPkt\<close> and \<open>ParsePacket\<close>, a stream of TCP packets survives the trip through \<open>TCPPacketDecoder\<close>,
  no input makes \<open>ParsePacket\<close> panic, and what the one-byte counts and the zero-length payload do.
  Each has a witness on a concrete packet.
\<close>

abbreviation ipA :: IP where
  "ipA \<equiv> \<lparr>AddressKind = AddressIPv4, AddressBytes = [10, 0, 0, 1, 0, 0, 0, 0, 0, 0, 0, 0, 0, 0, 0, 0]\<rparr>"

abbreviation ipB :: IP where
  "ipB \<equiv> \<lparr>AddressKind = AddressIPv6, AddressBytes = [254, 128, 0, 0, 0, 0, 0, 0, 0, 0, 0, 0, 0, 0, 0, 2]\<rparr>"

abbreviation examplePing :: Ping where
  "examplePing \<equiv> \<lparr>ping_Cookie = 513, ping_Period = 7, ping_TargetIncarnation = 65535,
     ping_Events = [\<lparr>ev_Payload = PSuspect \<lparr>e_Source = ipA, e_Subject = ipB, e_Incarnation = 3\<rparr>\<rparr>,
       \<lparr>ev_Payload = PWrap \<lparr>w_Subject = ipB, w_Incarnation = 65535, w_NewIncarnation = 0\<rparr>\<rparr>]\<rparr>"

lemma example_wf: "wfMessage (MPing examplePing)"
  by (simp add: wfEvent_def wfPayload_def wfIP_def typedIP_def numeral_eq_Suc)

text \<open>C2: a packet encoded with \<open>EncPkt\<close> parses back, whatever bytes follow it in the datagram: the
  parser yields the header and the message that were encoded.\<close>

theorem ParsePacket_EncPkt:
  assumes "wfMessage m"
  shows "\<exists>data. EncPkt inc m = Some data \<and> ParsePacket (data @ rest) = Some (Inr (Pkt inc m))"
  using assms EncPkt_wire ParsePacket_wire by auto

theorem ParsePacket_EncPkt_witness:
  "\<exists>data. EncPkt 42 (MPing examplePing) = Some data \<and> ParsePacket (data @ []) = Some (Inr (Pkt 42 (MPing examplePing)))"
  using example_wf by (rule ParsePacket_EncPkt)

text \<open>C10: \<open>ParsePacket\<close> never panics, whatever the datagram holds. It fails with
  \<open>CouldNotParsePacketErr\<close> or yields a packet with the right magic and version, whose message is the
  one its op-code names and has addresses of the right length.\<close>

theorem ParsePacket_safe:
  "ParsePacket data = Some (Inl CouldNotParsePacketErr) \<or>
   (\<exists>p. ParsePacket data = Some (Inr p) \<and> packet_ok p)"
  by (rule ParsePacket_sound)

text \<open>Encoding a packet never panics, and it fills exactly the buffer \<open>EncPkt\<close> allocates: five bytes
  of header and the size the message asks for.\<close>

lemma EncPkt_fills_buffer:
  assumes "typedMessage m"
  shows "\<exists>data. EncPkt inc m = Some data \<and> length data = Packet_RequiredSize (p_Header (Pkt inc m)) m"
  using EncPkt_wire [OF assms, of inc] packet_wire_length [OF assms, of inc]
  by (simp add: Packet_RequiredSize_def Header_RequiredSize_def)

lemma EncPkt_fills_buffer_witness:
  "\<exists>data. EncPkt 42 (MPing examplePing) = Some data
     \<and> length data = Packet_RequiredSize (p_Header (Pkt 42 (MPing examplePing))) (MPing examplePing)"
  using wfMessage_typed [OF example_wf] by (rule EncPkt_fills_buffer)

text \<open>A stream of encoded TCP packets, however many, decodes to exactly those packets in order,
  and the decoder is then as new.\<close>

lemma TCP_stream_roundtrip:
  assumes "list_all2 (\<lambda>t d. TCPPacket_Encode t (replicate (TCPPacket_RequiredSize t) 0) = Some d) ts ds"
    and "list_all wfTCP ts"
  shows "DriveAll (Feed TCPPacketDecoder_Feed) (New TCPPacketDecoder) (concat ds) = Some (ts, New TCPPacketDecoder)"
proof -
  have "ds = map tcp_wire ts"
    using assms(1) by (induction rule: list_all2_induct) (simp_all add: tcp_enc.Encode_exact)
  then show ?thesis
    using tcp_dec.DriveAll_concat [of "New TCPPacketDecoder" ts] assms(2) by (auto simp: tcp_ready_def list_all_iff)
qed

lemma TCP_stream_roundtrip_witness:
  "DriveAll (Feed TCPPacketDecoder_Feed) (New TCPPacketDecoder)
     (concat [[202, 254, 1, 0, 0, 0, 2, 5, 6], [202, 254, 1, 0, 0, 0, 1, 9]])
   = Some ([\<lparr>t_Magic = protocolMagic, t_Version = protocolVersion, t_Payload = [5, 6]\<rparr>,
       \<lparr>t_Magic = protocolMagic, t_Version = protocolVersion, t_Payload = [9]\<rparr>], New TCPPacketDecoder)"
  by (rule TCP_stream_roundtrip) (simp_all add: tcp_enc.Encode_exact tcp_wire_def wfTCP_def be16_def be32_def)

text \<open>A TCP frame that declares a payload of no bytes blocks the connection: whatever follows,
  the decoder yields nothing more.\<close>

lemma TCP_empty_payload_stalls:
  "\<exists>d f. TCPPacket_Encode \<lparr>t_Magic = protocolMagic, t_Version = protocolVersion, t_Payload = []\<rparr> (replicate 7 0) = Some d
     \<and> Drive (Feed TCPPacketDecoder_Feed) (New TCPPacketDecoder) (d @ stream) = Some (None, f)"
  using tcp_empty_stuck [of stream]
    tcp_enc.Encode_exact [where v = "\<lparr>t_Magic = protocolMagic, t_Version = protocolVersion, t_Payload = []\<rparr>"]
  by (auto simp: TCPPacket_RequiredSize_def tcp_wire_def)

text \<open>C31: the count of a Sync message is one byte. A Sync of \<open>n\<close> nodes arrives with the first
  \<open>n mod 256\<close> of them, and with none at all when there are 256.\<close>

theorem Sync_arrives_mod_256:
  assumes "list_all wfNode (sync_Nodes s)"
  shows "\<exists>data. EncPkt inc (MSync s) = Some data \<and> ParsePacket data = Some (Inr (Pkt inc (MSync
    (s\<lparr>sync_Nodes := take (length (sync_Nodes s) mod 256) (sync_Nodes s)\<rparr>))))"
  unfolding cut_sync_def [symmetric]
  using assms by (intro ParsePacket_cut [OF _ sync_wire_cut _ wf_cut_sync]) (auto simp: list_all_iff)

theorem Sync_arrives_mod_256_witness:
  "\<exists>data. EncPkt 1 (MSync \<lparr>sync_Nodes = replicate 256 \<lparr>n_Suspect = False, n_Incarnation = 9, n_Address = ipA\<rparr>, sync_Mode = 1\<rparr>)
     = Some data \<and> ParsePacket data = Some (Inr (Pkt 1 (MSync \<lparr>sync_Nodes = [], sync_Mode = 1\<rparr>)))"
  using Sync_arrives_mod_256 [of "\<lparr>sync_Nodes = replicate 256 \<lparr>n_Suspect = False, n_Incarnation = 9, n_Address = ipA\<rparr>, sync_Mode = 1\<rparr>" 1]
  by (simp add: list_all_iff wfNode_def wfIP_def typedIP_def numeral_eq_Suc)

text \<open>The count of a Ping's events is one byte too: a Ping with \<open>n\<close> events arrives with the first
  \<open>n mod 256\<close>.\<close>

lemma Ping_arrives_mod_256:
  assumes "list_all wfEvent (ping_Events p)"
  shows "\<exists>data. EncPkt inc (MPing p) = Some data \<and> ParsePacket data = Some (Inr (Pkt inc (MPing
    (p\<lparr>ping_Events := take (length (ping_Events p) mod 256) (ping_Events p)\<rparr>))))"
  unfolding cut_ping_def [symmetric]
  using assms by (intro ParsePacket_cut [OF _ ping_wire_cut _ wf_cut_ping]) (auto simp: list_all_iff)

text \<open>The machine of \<open>internal/fsm\<close> drops the errors of its delegate. \<open>Feed\<close> always returns a nil
  error, and when the delegate reports an error the machine stays where the delegate left it instead
  of being reset.\<close>

lemma Feed_drops_errors:
  assumes "\<not> mustSatisfySize f" and "F (f\<lparr>currentByte := b\<rparr>) (fstate f) b = Some (Some e, f')" and "e \<noteq> Done"
  shows "Feed F f b = Some (None, None, f')"
  using assms by (simp add: Feed_direct FeedStep_def)

lemma Feed_drops_errors_witness:
  "Feed eventDecoder_Feed (New eventDecoder) 0xF0
   = Some (None, None, (New eventDecoder)\<lparr>fcontext := (fcontext (New eventDecoder))\<lparr>eventKind := 15\<rparr>\<rparr>)"
  by (rule Feed_drops_errors [where e = "NoEventDecoderError 15"])
    (simp_all add: eventDecoder_def fsm_simps eventDecoder_Feed_def eventDecoderList_def eventDecoderContext_Reset_def)

text \<open>Two nodes with protocol addresses have the same hash exactly when they have the same address,
  so the hash is a sound key for the node tables.\<close>

lemma Hash_identifies_address:
  assumes "wfNode a" and "wfNode b"
  shows "Hash a = Hash b \<longleftrightarrow> n_Address a = n_Address b"
  using assms by (simp add: Hash_def wfNode_def IntoHash_inj)

end
