(* ===== verification/Transition_System.thy ===== *)
theory Transition_System
  imports Prelude
begin

text \<open>
  Labelled transition systems, their traces, and forward simulation. A component whose operations
  are the steps of such a system is related to its abstract specification by an interpretation of
  \<open>simulation\<close>: its laws are that every step keeps the invariant and is matched by a step of the
  specification under the abstraction function.
\<close>

inductive trace :: "('l \<Rightarrow> 's \<Rightarrow> 's \<Rightarrow> bool) \<Rightarrow> 's \<Rightarrow> 'l list \<Rightarrow> 's \<Rightarrow> bool" for R where
  trace_Nil: "trace R s [] s"
| trace_Cons: "R l s t \<Longrightarrow> trace R t ls u \<Longrightarrow> trace R s (l # ls) u"

inductive_simps trace_Nil_iff [simp]: "trace R s [] t"
inductive_simps trace_Cons_iff: "trace R s (l # ls) t"

lemma trace_append: "trace R s (xs @ ys) u \<longleftrightarrow> (\<exists>t. trace R s xs t \<and> trace R t ys u)"
  by (induction xs arbitrary: s) (auto simp: trace_Cons_iff)

locale invariant =
  fixes C :: "'l \<Rightarrow> 's \<Rightarrow> 's \<Rightarrow> bool"
    and inv :: "'s \<Rightarrow> bool"
  assumes step_inv: "inv s \<Longrightarrow> C l s t \<Longrightarrow> inv t"
begin

lemma trace_inv: "trace C s ls t \<Longrightarrow> inv s \<Longrightarrow> inv t"
  by (induction rule: trace.induct) (auto intro: step_inv)

end

locale simulation = invariant C inv
  for C :: "'l \<Rightarrow> 'c \<Rightarrow> 'c \<Rightarrow> bool"
    and inv :: "'c \<Rightarrow> bool" +
  fixes A :: "'l \<Rightarrow> 'a \<Rightarrow> 'a \<Rightarrow> bool"
    and abs :: "'c \<Rightarrow> 'a"
  assumes step_sim: "inv s \<Longrightarrow> C l s t \<Longrightarrow> A l (abs s) (abs t)"
begin

lemma trace_sim: "trace C s ls t \<Longrightarrow> inv s \<Longrightarrow> trace A (abs s) ls (abs t)"
  by (induction rule: trace.induct) (auto intro: trace.intros step_inv step_sim)

end

end
