(* ===== verification/Node_List.thy ===== *)
theory Node_List
  imports Proto_Node Transition_System
begin

text \<open>
  \<open>internal/core/node_list.go\<close>: the member list. The three Go maps are maps from hashes; a pointer to
  a node held by one of them is the node itself, and a write through a pointer that \<open>NodeByHash\<close>
  returned is \<open>writeNode\<close>. Go iterates over a map in an unspecified order, so an operation that
  does so takes the order of the keys as an argument. Every operation runs to completion on its own;
  \<open>Member_Races\<close> looks at how they interleave. The logger is not modelled.

  The abstract specification is a single map \<open>members\<close> from a hash to a member, stable or suspect.
  \<open>nl_inv\<close> is the invariant of the concrete state: the three maps agree, every node is filed under its
  own hash and carries the suspect flag of the map it is in, and the instance never lists itself.
\<close>

subsection \<open>Types\<close>

type_synonym NodeType = byte

abbreviation (input) NodeTypeStable :: NodeType where "NodeTypeStable \<equiv> 1"
abbreviation (input) NodeTypeSuspect :: NodeType where "NodeTypeSuspect \<equiv> 2"
abbreviation (input) NodeTypeRemote :: NodeType where "NodeTypeRemote \<equiv> 4"
abbreviation (input) NodeTypeInvalid :: NodeType where "NodeTypeInvalid \<equiv> 0"
abbreviation (input) nodeTypeAll :: NodeType where "nodeTypeAll \<equiv> 3"

definition NodeType_Is :: "NodeType \<Rightarrow> NodeType \<Rightarrow> bool" where
  "NodeType_Is n c \<longleftrightarrow> n AND c = c"

record SuspectNode =
  sn_Node :: Node
  SuspectAtPeriod :: u16
  FromRemote :: bool

record nodeList =
  nodeByType :: "NodeHash \<rightharpoonup> NodeType"
  stable :: "NodeHash \<rightharpoonup> Node"
  suspects :: "NodeHash \<rightharpoonup> SuspectNode"
  selfAddr :: IP

definition NewNodeList :: "IP \<Rightarrow> nodeList" where
  "NewNodeList self = \<lparr>nodeByType = Map.empty, stable = Map.empty, suspects = Map.empty, selfAddr = self\<rparr>"

subsection \<open>Operations\<close>

definition unsafeAdd :: "u16 \<Rightarrow> Node \<Rightarrow> nodeList \<Rightarrow> nodeList" where
  "unsafeAdd period node n =
     (if IP_Equal (selfAddr n) (Some (n_Address node)) then n
      else let hash = Hash node in
        if nodeByType n hash \<noteq> None then n
        else if \<not> n_Suspect node then
          n\<lparr>nodeByType := (nodeByType n)(hash \<mapsto> NodeTypeStable), stable := (stable n)(hash \<mapsto> node)\<rparr>
        else
          n\<lparr>nodeByType := (nodeByType n)(hash \<mapsto> NodeTypeSuspect),
            suspects := (suspects n)(hash \<mapsto> \<lparr>sn_Node = node, SuspectAtPeriod = period, FromRemote = True\<rparr>)\<rparr>)"

definition Add :: "u16 \<Rightarrow> Node \<Rightarrow> nodeList \<Rightarrow> nodeList" where
  "Add currentPeriod node n = unsafeAdd currentPeriod node n"

text \<open>The callback of \<open>Range\<close> returns whether to go on, and a state of its own. The loops return
  whether they ran to their end.\<close>

fun Range_stable :: "('s \<Rightarrow> Node \<Rightarrow> bool \<times> 's) \<Rightarrow> nodeList \<Rightarrow> NodeHash list \<Rightarrow> 's \<Rightarrow> bool \<times> 's" where
  "Range_stable fn n [] s = (True, s)"
| "Range_stable fn n (h # hs) s = (case stable n h of
     None \<Rightarrow> Range_stable fn n hs s
   | Some v \<Rightarrow> (let (go, s) = fn s v in if \<not> go then (False, s) else Range_stable fn n hs s))"

fun Range_suspects :: "('s \<Rightarrow> Node \<Rightarrow> bool \<times> 's) \<Rightarrow> bool \<Rightarrow> nodeList \<Rightarrow> NodeHash list \<Rightarrow> 's \<Rightarrow> bool \<times> 's" where
  "Range_suspects fn wantsRemote n [] s = (True, s)"
| "Range_suspects fn wantsRemote n (h # hs) s = (case suspects n h of
     None \<Rightarrow> Range_suspects fn wantsRemote n hs s
   | Some v \<Rightarrow>
       if wantsRemote \<and> \<not> FromRemote v then Range_suspects fn wantsRemote n hs s
       else (let (go, s) = fn s (sn_Node v) in if \<not> go then (False, s) else Range_suspects fn wantsRemote n hs s))"

definition nodeList_Range :: "NodeType \<Rightarrow> ('s \<Rightarrow> Node \<Rightarrow> bool \<times> 's) \<Rightarrow> NodeHash list \<Rightarrow> NodeHash list \<Rightarrow> nodeList \<Rightarrow> 's \<Rightarrow> 's" where
  "nodeList_Range filt fn ordStable ordSuspects n s =
     (let filt = (if filt = NodeTypeInvalid then nodeTypeAll else filt);
          wantsRemote = NodeType_Is filt NodeTypeRemote;
          (go, s) = (if NodeType_Is filt NodeTypeStable then Range_stable fn n ordStable s else (True, s))
      in if \<not> go then s
         else if NodeType_Is filt NodeTypeSuspect then snd (Range_suspects fn wantsRemote n ordSuspects s)
         else s)"

definition unsafeTakeAndDelete :: "NodeHash \<Rightarrow> NodeType \<Rightarrow> nodeList \<Rightarrow> Node option \<times> nodeList" where
  "unsafeTakeAndDelete hash source n =
     (if source = NodeTypeStable then
        (case stable n hash of None \<Rightarrow> (None, n)
         | Some node \<Rightarrow> (Some node, n\<lparr>stable := (stable n)(hash := None), nodeByType := (nodeByType n)(hash := None)\<rparr>))
      else if source = NodeTypeSuspect then
        (case suspects n hash of None \<Rightarrow> (None, n)
         | Some s \<Rightarrow> (Some (sn_Node s),
             n\<lparr>suspects := (suspects n)(hash := None), nodeByType := (nodeByType n)(hash := None)\<rparr>))
      else (None, n))"

definition MarkStable :: "NodeHash \<Rightarrow> nodeList \<Rightarrow> nodeList" where
  "MarkStable hash n = (case nodeByType n hash of None \<Rightarrow> n
     | Some currentState \<Rightarrow>
         if currentState = NodeTypeStable then n
         else (case unsafeTakeAndDelete hash currentState n of
             (None, n) \<Rightarrow> n
           | (Some node, n) \<Rightarrow>
               let node = node\<lparr>n_Suspect := False\<rparr>
               in n\<lparr>nodeByType := (nodeByType n)(hash \<mapsto> NodeTypeStable), stable := (stable n)(hash \<mapsto> node)\<rparr>))"

definition MarkSuspect :: "u16 \<Rightarrow> bool \<Rightarrow> NodeHash \<Rightarrow> nodeList \<Rightarrow> nodeList" where
  "MarkSuspect period remote hash n = (case nodeByType n hash of None \<Rightarrow> n
     | Some currentState \<Rightarrow>
         if currentState = NodeTypeSuspect then n
         else (case unsafeTakeAndDelete hash currentState n of
             (None, n) \<Rightarrow> n
           | (Some node, n) \<Rightarrow>
               let node = node\<lparr>n_Suspect := True\<rparr>
               in n\<lparr>nodeByType := (nodeByType n)(hash \<mapsto> NodeTypeSuspect),
                   suspects := (suspects n)(hash \<mapsto> \<lparr>sn_Node = node, SuspectAtPeriod = period, FromRemote = remote\<rparr>)\<rparr>))"

definition unsafeMarkFaulty :: "NodeHash \<Rightarrow> nodeList \<Rightarrow> nodeList" where
  "unsafeMarkFaulty hash n = (case nodeByType n hash of None \<Rightarrow> n
     | Some currentState \<Rightarrow> snd (unsafeTakeAndDelete hash currentState n))"

definition MarkFaulty :: "NodeHash \<Rightarrow> nodeList \<Rightarrow> nodeList" where
  "MarkFaulty hash n = unsafeMarkFaulty hash n"

text \<open>The rounds a suspect has been one: the absolute difference of the periods, capped at 65534.
  Both periods are exact as floating-point numbers.\<close>

definition suspectRounds :: "u16 \<Rightarrow> SuspectNode \<Rightarrow> nat" where
  "suspectRounds currentPeriod s =
     nat (min \<bar>int (unat currentPeriod) - int (unat (SuspectAtPeriod s))\<bar> 65534)"

fun ExpiredSuspects_loop :: "u16 \<Rightarrow> u16 \<Rightarrow> NodeHash list \<Rightarrow> nodeList \<Rightarrow> Node list \<Rightarrow> Node list \<times> nodeList" where
  "ExpiredSuspects_loop currentPeriod expirationRounds [] n result = (result, n)"
| "ExpiredSuspects_loop currentPeriod expirationRounds (hash # hs) n result = (case suspects n hash of
     None \<Rightarrow> ExpiredSuspects_loop currentPeriod expirationRounds hs n result
   | Some node \<Rightarrow>
       if suspectRounds currentPeriod node \<ge> unat expirationRounds then
         (if FromRemote node
          then ExpiredSuspects_loop currentPeriod expirationRounds hs (unsafeMarkFaulty hash n) result
          else ExpiredSuspects_loop currentPeriod expirationRounds hs n (result @ [sn_Node node]))
       else ExpiredSuspects_loop currentPeriod expirationRounds hs n result)"

definition ExpiredSuspects :: "u16 \<Rightarrow> u16 \<Rightarrow> NodeHash list \<Rightarrow> nodeList \<Rightarrow> Node list \<times> nodeList" where
  "ExpiredSuspects currentPeriod expirationRounds ord n =
     ExpiredSuspects_loop currentPeriod expirationRounds ord n []"

definition Delete :: "NodeHash \<Rightarrow> nodeList \<Rightarrow> nodeList" where
  "Delete hash n = (case nodeByType n hash of None \<Rightarrow> n
     | Some currentType \<Rightarrow>
         let n = (if currentType = NodeTypeStable then n\<lparr>stable := (stable n)(hash := None)\<rparr>
                  else if currentType = NodeTypeSuspect then n\<lparr>suspects := (suspects n)(hash := None)\<rparr>
                  else n)
         in n\<lparr>nodeByType := (nodeByType n)(hash := None)\<rparr>)"

definition Bootstrap :: "u16 \<Rightarrow> Node list \<Rightarrow> nodeList \<Rightarrow> nodeList" where
  "Bootstrap period list n = fold (unsafeAdd period) list n"

definition NodeByHash :: "NodeHash \<Rightarrow> nodeList \<Rightarrow> Node option" where
  "NodeByHash hash n = (case nodeByType n hash of None \<Rightarrow> None
     | Some kind \<Rightarrow>
         if kind = NodeTypeStable then stable n hash
         else map_option sn_Node (suspects n hash))"

definition NodeByIP :: "IP \<Rightarrow> nodeList \<Rightarrow> Node option" where
  "NodeByIP ip n = NodeByHash (IntoHash ip) n"

text \<open>A write through the pointer that \<open>NodeByHash hash\<close> returned.\<close>

definition writeNode :: "NodeHash \<Rightarrow> (Node \<Rightarrow> Node) \<Rightarrow> nodeList \<Rightarrow> nodeList" where
  "writeNode hash upd n = (case nodeByType n hash of None \<Rightarrow> n
     | Some kind \<Rightarrow>
         if kind = NodeTypeStable then n\<lparr>stable := (stable n)(hash := map_option upd (stable n hash))\<rparr>
         else n\<lparr>suspects := (suspects n)(hash := map_option (\<lambda>s. s\<lparr>sn_Node := upd (sn_Node s)\<rparr>) (suspects n hash))\<rparr>)"

text \<open>A result of \<open>None\<close> is a panic: a negative capacity, or a suspect that is not in its map. An element
  \<open>None\<close> of the result is a nil pointer.\<close>

fun IndirectPing_loop :: "int \<Rightarrow> NodeHash \<Rightarrow> NodeHash list \<Rightarrow> nodeList \<Rightarrow> Node option list \<Rightarrow> Node option list option" where
  "IndirectPing_loop k exc [] n result = Some result"
| "IndirectPing_loop k exc (key # ks) n result = (case nodeByType n key of
     None \<Rightarrow> IndirectPing_loop k exc ks n result
   | Some source \<Rightarrow>
       if key = exc then IndirectPing_loop k exc ks n result
       else do {
         result \<leftarrow> (if source = NodeTypeStable then Some (result @ [stable n key])
                    else if source = NodeTypeSuspect then
                      (case suspects n key of None \<Rightarrow> None | Some s \<Rightarrow> Some (result @ [Some (sn_Node s)]))
                    else Some result);
         if int (length result) = k then Some result
         else IndirectPing_loop k exc ks n result
       })"

definition IndirectPingCandidates :: "int \<Rightarrow> NodeHash \<Rightarrow> NodeHash list \<Rightarrow> nodeList \<Rightarrow> Node option list option" where
  "IndirectPingCandidates k exc ord n =
     (if nodeByType n = Map.empty then Some []
      else if k < 0 then None
      else IndirectPing_loop k exc ord n [])"

subsection \<open>The abstract member map\<close>

datatype member = MStable (mnode: Node) | MSuspect (msuspect: SuspectNode)

fun node_of :: "member \<Rightarrow> Node" where
  "node_of (MStable v) = v"
| "node_of (MSuspect s) = sn_Node s"

fun kind_of :: "member \<Rightarrow> NodeType" where
  "kind_of (MStable v) = NodeTypeStable"
| "kind_of (MSuspect s) = NodeTypeSuspect"

fun is_suspect :: "member \<Rightarrow> bool" where
  "is_suspect (MStable v) = False"
| "is_suspect (MSuspect s) = True"

type_synonym member_map = "NodeHash \<rightharpoonup> member"

definition members :: "nodeList \<Rightarrow> member_map" where
  "members n h = (case stable n h of Some v \<Rightarrow> Some (MStable v)
     | None \<Rightarrow> map_option MSuspect (suspects n h))"

definition new_member :: "u16 \<Rightarrow> Node \<Rightarrow> member" where
  "new_member period node = (if n_Suspect node
     then MSuspect \<lparr>sn_Node = node, SuspectAtPeriod = period, FromRemote = True\<rparr> else MStable node)"

definition m_add :: "IP \<Rightarrow> u16 \<Rightarrow> Node \<Rightarrow> member_map \<Rightarrow> member_map" where
  "m_add self period node m = (if self = n_Address node \<or> m (Hash node) \<noteq> None then m
     else m(Hash node \<mapsto> new_member period node))"

definition m_stable :: "NodeHash \<Rightarrow> member_map \<Rightarrow> member_map" where
  "m_stable h m = (case m h of Some (MSuspect s) \<Rightarrow> m(h \<mapsto> MStable ((sn_Node s)\<lparr>n_Suspect := False\<rparr>)) | _ \<Rightarrow> m)"

definition m_suspect :: "u16 \<Rightarrow> bool \<Rightarrow> NodeHash \<Rightarrow> member_map \<Rightarrow> member_map" where
  "m_suspect period remote h m = (case m h of
     Some (MStable v) \<Rightarrow> m(h \<mapsto> MSuspect \<lparr>sn_Node = v\<lparr>n_Suspect := True\<rparr>, SuspectAtPeriod = period, FromRemote = remote\<rparr>)
   | _ \<Rightarrow> m)"

definition m_remove :: "NodeHash \<Rightarrow> member_map \<Rightarrow> member_map" where
  "m_remove h m = m(h := None)"

definition expired :: "u16 \<Rightarrow> u16 \<Rightarrow> SuspectNode \<Rightarrow> bool" where
  "expired currentPeriod rounds s \<longleftrightarrow> unat rounds \<le> suspectRounds currentPeriod s"

definition m_expire :: "u16 \<Rightarrow> u16 \<Rightarrow> member_map \<Rightarrow> member_map" where
  "m_expire currentPeriod rounds m = (\<lambda>h. case m h of
     Some (MSuspect s) \<Rightarrow> if expired currentPeriod rounds s \<and> FromRemote s then None else m h
   | v \<Rightarrow> v)"

fun m_upd :: "(Node \<Rightarrow> Node) \<Rightarrow> member \<Rightarrow> member" where
  "m_upd f (MStable v) = MStable (f v)"
| "m_upd f (MSuspect s) = MSuspect (s\<lparr>sn_Node := f (sn_Node s)\<rparr>)"

definition m_write :: "NodeHash \<Rightarrow> (Node \<Rightarrow> Node) \<Rightarrow> member_map \<Rightarrow> member_map" where
  "m_write h f m = m(h := map_option (m_upd f) (m h))"

subsection \<open>The invariant\<close>

text \<open>\<open>nl_cons\<close>: the three maps agree. \<open>m_inv\<close>: the members themselves are sound.\<close>

definition nl_cons :: "nodeList \<Rightarrow> bool" where
  "nl_cons n \<longleftrightarrow> (\<forall>h. nodeByType n h = map_option kind_of (members n h))
     \<and> (\<forall>h. stable n h = None \<or> suspects n h = None)
     \<and> finite (dom (nodeByType n))"

definition sound :: "IP \<Rightarrow> NodeHash \<Rightarrow> member \<Rightarrow> bool" where
  "sound self h v \<longleftrightarrow> Hash (node_of v) = h \<and> n_Address (node_of v) \<noteq> self \<and> n_Suspect (node_of v) = is_suspect v"

definition m_inv :: "IP \<Rightarrow> member_map \<Rightarrow> bool" where
  "m_inv self m \<longleftrightarrow> (\<forall>h v. m h = Some v \<longrightarrow> sound self h v)"

definition nl_inv :: "nodeList \<Rightarrow> bool" where
  "nl_inv n \<longleftrightarrow> nl_cons n \<and> m_inv (selfAddr n) (members n)"

lemma nl_cons_cases:
  assumes "nl_cons n"
  obtains "nodeByType n h = None" "stable n h = None" "suspects n h = None" "members n h = None"
  | v where "nodeByType n h = Some NodeTypeStable" "stable n h = Some v" "suspects n h = None" "members n h = Some (MStable v)"
  | s where "nodeByType n h = Some NodeTypeSuspect" "stable n h = None" "suspects n h = Some s" "members n h = Some (MSuspect s)"
proof -
  have "nodeByType n h = map_option kind_of (members n h)" and "stable n h = None \<or> suspects n h = None"
    using assms by (auto simp: nl_cons_def)
  then show ?thesis
    using that by (cases "stable n h"; cases "suspects n h") (auto simp: members_def)
qed

subsection \<open>Every operation implements its abstract counterpart\<close>

lemmas nl_op_defs = unsafeAdd_def Add_def unsafeTakeAndDelete_def MarkStable_def MarkSuspect_def
  unsafeMarkFaulty_def MarkFaulty_def Delete_def writeNode_def

lemmas m_op_defs = m_add_def m_stable_def m_suspect_def m_remove_def m_write_def

text \<open>Storing the member \<open>v\<close> (or none) under the key \<open>h\<close> in the three maps at once. Each operation on one
  key amounts to it.\<close>

definition put :: "NodeHash \<Rightarrow> member option \<Rightarrow> nodeList \<Rightarrow> nodeList" where
  "put h v n = n\<lparr>nodeByType := (nodeByType n)(h := map_option kind_of v),
     stable := (stable n)(h := (case v of Some (MStable x) \<Rightarrow> Some x | _ \<Rightarrow> None)),
     suspects := (suspects n)(h := (case v of Some (MSuspect s) \<Rightarrow> Some s | _ \<Rightarrow> None))\<rparr>"

lemma put_selfAddr [node_simps]: "selfAddr (put h v n) = selfAddr n"
  by (simp add: put_def)

lemma members_put [node_simps]: "members (put h v n) = (members n)(h := v)"
  by (rule ext) (auto simp: members_def put_def split: option.splits member.splits)

lemma nl_cons_put: "nl_cons n \<Longrightarrow> nl_cons (put h v n)"
  unfolding nl_cons_def members_put by (cases v) (auto simp: put_def split: member.splits)

lemma put_same:
  assumes "nl_cons n" shows "put h (members n h) n = n"
  by (rule nl_cons_cases [OF assms, of h]) (simp_all add: put_def fun_upd_idem)

lemma members_new [node_simps]: "members (NewNodeList self) = Map.empty"
  by (rule ext) (simp add: members_def NewNodeList_def)

lemma selfAddr_new [simp]: "selfAddr (NewNodeList self) = self"
  by (simp add: NewNodeList_def)

lemma nl_cons_new: "nl_cons (NewNodeList self)"
  unfolding nl_cons_def members_new by (simp add: NewNodeList_def)

lemma unsafeAdd_put:
  assumes "nl_cons n"
  shows "unsafeAdd p node n = put (Hash node) (m_add (selfAddr n) p node (members n) (Hash node)) n"
  by (rule nl_cons_cases [OF assms, of "Hash node"])
    (auto simp: unsafeAdd_def m_add_def new_member_def put_def fun_upd_idem Let_def)

lemma MarkStable_put:
  assumes "nl_cons n" shows "MarkStable h n = put h (m_stable h (members n) h) n"
  by (rule nl_cons_cases [OF assms, of h])
    (simp_all add: MarkStable_def unsafeTakeAndDelete_def m_stable_def put_def fun_upd_idem)

lemma MarkSuspect_put:
  assumes "nl_cons n" shows "MarkSuspect p r h n = put h (m_suspect p r h (members n) h) n"
  by (rule nl_cons_cases [OF assms, of h])
    (simp_all add: MarkSuspect_def unsafeTakeAndDelete_def m_suspect_def put_def fun_upd_idem)

lemma unsafeMarkFaulty_put:
  assumes "nl_cons n" shows "unsafeMarkFaulty h n = put h None n"
  by (rule nl_cons_cases [OF assms, of h])
    (simp_all add: unsafeMarkFaulty_def unsafeTakeAndDelete_def put_def fun_upd_idem)

lemma Delete_put:
  assumes "nl_cons n" shows "Delete h n = put h None n"
  by (rule nl_cons_cases [OF assms, of h]) (simp_all add: Delete_def put_def fun_upd_idem)

lemma writeNode_put:
  assumes "nl_cons n" shows "writeNode h f n = put h (map_option (m_upd f) (members n h)) n"
  by (rule nl_cons_cases [OF assms, of h]) (simp_all add: writeNode_def put_def fun_upd_idem)

lemma NodeByHash_members:
  assumes "nl_cons n" shows "NodeByHash h n = map_option node_of (members n h)"
  by (rule nl_cons_cases [OF assms, of h]) (simp_all add: NodeByHash_def)

text \<open>Each abstract operation changes one key only, and keeps the members sound.\<close>

lemma m_local:
  "m(Hash node := m_add self p node m (Hash node)) = m_add self p node m"
  "m(h := m_stable h m h) = m_stable h m"
  "m(h := m_suspect p r h m h) = m_suspect p r h m"
  by (auto simp: m_op_defs fun_upd_idem split: option.splits member.splits)

lemma sound_changes:
  "sound self h (MSuspect s) \<Longrightarrow> sound self h (MStable ((sn_Node s)\<lparr>n_Suspect := False\<rparr>))"
  "sound self h (MStable v) \<Longrightarrow> sound self h (MSuspect \<lparr>sn_Node = v\<lparr>n_Suspect := True\<rparr>, SuspectAtPeriod = p, FromRemote = r\<rparr>)"
  "self \<noteq> n_Address node \<Longrightarrow> sound self (Hash node) (new_member p node)"
  by (simp_all add: sound_def Hash_def new_member_def)

lemma sound_write:
  assumes "\<And>v. n_Address (f v) = n_Address v" and "\<And>v. n_Suspect (f v) = n_Suspect v" and "sound self h w"
  shows "sound self h (m_upd f w)"
  using assms(3) by (cases w) (simp_all add: sound_def Hash_def assms(1, 2))

lemma m_inv_upd:
  "m_inv self m \<Longrightarrow> (\<And>x. v = Some x \<Longrightarrow> sound self h x) \<Longrightarrow> m_inv self (m(h := v))"
  by (auto simp: m_inv_def)

lemma m_inv_ops:
  assumes "m_inv self m"
  shows "m_inv self (m_add self p node m)" "m_inv self (m_stable h m)" "m_inv self (m_suspect p r h m)"
    "m_inv self (m_remove h m)" "m_inv self (m_expire c k m)"
    "(\<And>v. n_Address (f v) = n_Address v) \<Longrightarrow> (\<And>v. n_Suspect (f v) = n_Suspect v) \<Longrightarrow> m_inv self (m_write h f m)"
proof -
  have at: "m h = Some v \<Longrightarrow> sound self h v" for h v using assms by (simp add: m_inv_def)
  show "m_inv self (m_add self p node m)"
    using assms by (auto simp: m_add_def intro: m_inv_upd sound_changes)
  show "m_inv self (m_stable h m)"
    using assms at by (auto simp: m_stable_def intro: m_inv_upd sound_changes split: option.split member.split)
  show "m_inv self (m_suspect p r h m)"
    using assms at by (auto simp: m_suspect_def intro: m_inv_upd sound_changes split: option.split member.split)
  show "m_inv self (m_remove h m)" using assms by (auto simp: m_remove_def intro: m_inv_upd)
  show "m_inv self (m_expire c k m)"
    using at by (auto simp: m_inv_def m_expire_def split: option.splits member.splits if_splits)
  assume f: "\<And>v. n_Address (f v) = n_Address v" "\<And>v. n_Suspect (f v) = n_Suspect v"
  show "m_inv self (m_write h f m)"
    unfolding m_write_def using at by (intro m_inv_upd [OF assms]) (auto intro: sound_write [OF f])
qed

text \<open>The expiry loop, over the keys in any order.\<close>

definition local_expired :: "u16 \<Rightarrow> u16 \<Rightarrow> member_map \<Rightarrow> NodeHash \<Rightarrow> Node option" where
  "local_expired c k m h = (case m h of
     Some (MSuspect s) \<Rightarrow> if expired c k s \<and> \<not> FromRemote s then Some (sn_Node s) else None
   | _ \<Rightarrow> None)"

lemma map_filter_cong: "(\<And>x. x \<in> set xs \<Longrightarrow> f x = g x) \<Longrightarrow> List.map_filter f xs = List.map_filter g xs"
  by (induction xs) (auto split: option.split)

lemma set_map_filter_eq: "set (List.map_filter f xs) = {y. \<exists>x \<in> set xs. f x = Some y}"
  by (induction xs) (auto split: option.split)

lemma ExpiredSuspects_loop_spec:
  assumes "nl_cons n" and "distinct hs"
  shows "fst (ExpiredSuspects_loop c k hs n result) = result @ List.map_filter (local_expired c k (members n)) hs
     \<and> nl_cons (snd (ExpiredSuspects_loop c k hs n result))
     \<and> selfAddr (snd (ExpiredSuspects_loop c k hs n result)) = selfAddr n
     \<and> members (snd (ExpiredSuspects_loop c k hs n result))
         = (\<lambda>h. if h \<in> set hs then m_expire c k (members n) h else members n h)"
  using assms
proof (induction hs arbitrary: n result)
  case Nil
  then show ?case by simp
next
  case (Cons h hs)
  from Cons.prems(2) have h: "h \<notin> set hs" and dist: "distinct hs" by simp_all
  show ?case
  proof (cases "\<exists>s. members n h = Some (MSuspect s) \<and> expired c k s \<and> FromRemote s")
    case True
    then obtain s where s: "members n h = Some (MSuspect s)" "expired c k s" "FromRemote s" by blast
    then have sus: "suspects n h = Some s" by (rule_tac nl_cons_cases [OF Cons.prems(1), of h]) simp_all
    let ?n = "put h None n"
    have same: "List.map_filter (local_expired c k (members ?n)) hs = List.map_filter (local_expired c k (members n)) hs"
      using h by (intro map_filter_cong) (auto simp: local_expired_def members_put)
    have "ExpiredSuspects_loop c k (h # hs) n result = ExpiredSuspects_loop c k hs ?n result"
      using s sus by (simp add: expired_def unsafeMarkFaulty_put [OF Cons.prems(1)])
    moreover have "m_expire c k (members ?n) k' = m_expire c k (members n) k'" if "k' \<in> set hs" for k'
      using that h by (auto simp: m_expire_def members_put split: option.split member.split)
    moreover have "members ?n k' = members n k'" if "k' \<noteq> h" for k'
      using that by (simp add: members_put)
    moreover have "local_expired c k (members n) h = None" "m_expire c k (members n) h = None" "members ?n h = None"
      using s by (simp_all add: local_expired_def m_expire_def members_put)
    ultimately show ?thesis
      using Cons.IH [OF nl_cons_put [OF Cons.prems(1)] dist, of h None result] same h
      by (auto simp: put_selfAddr intro!: ext simp del: ExpiredSuspects_loop.simps)
  next
    case False
    have keep: "m_expire c k (members n) h = members n h"
      using False by (auto simp: m_expire_def split: option.splits member.splits)
    have "ExpiredSuspects_loop c k (h # hs) n result
        = ExpiredSuspects_loop c k hs n (case local_expired c k (members n) h of None \<Rightarrow> result | Some v \<Rightarrow> result @ [v])"
      by (rule nl_cons_cases [OF Cons.prems(1), of h]) (use False in \<open>auto simp: local_expired_def expired_def\<close>)
    with Cons.IH [OF Cons.prems(1) dist] keep h show ?thesis
      by (auto intro!: ext simp del: ExpiredSuspects_loop.simps split: option.splits)
  qed
qed

subsection \<open>The member list as a transition system\<close>

text \<open>The operations that change the list, with the arguments that matter to the specification. The
  order in which the expiry loop meets the suspects is any enumeration of them. \<open>OIncarnation\<close> is the
  write of the incarnation that the node manager makes through the pointer it looked up.\<close>

datatype nl_op =
    OAdd u16 Node
  | OBootstrap u16 "Node list"
  | OMarkStable NodeHash
  | OMarkSuspect u16 bool NodeHash
  | OMarkFaulty NodeHash
  | ODelete NodeHash
  | OExpire u16 u16
  | OIncarnation NodeHash u16

abbreviation setIncarnation :: "u16 \<Rightarrow> Node \<Rightarrow> Node" where
  "setIncarnation i v \<equiv> v\<lparr>n_Incarnation := i\<rparr>"

inductive nl_step :: "nl_op \<Rightarrow> nodeList \<Rightarrow> nodeList \<Rightarrow> bool" where
  nl_Add: "nl_step (OAdd p v) n (Add p v n)"
| nl_Bootstrap: "nl_step (OBootstrap p vs) n (Bootstrap p vs n)"
| nl_MarkStable: "nl_step (OMarkStable h) n (MarkStable h n)"
| nl_MarkSuspect: "nl_step (OMarkSuspect p r h) n (MarkSuspect p r h n)"
| nl_MarkFaulty: "nl_step (OMarkFaulty h) n (MarkFaulty h n)"
| nl_Delete: "nl_step (ODelete h) n (Delete h n)"
| nl_Expire: "distinct ord \<Longrightarrow> set ord = dom (suspects n) \<Longrightarrow> nl_step (OExpire c k) n (snd (ExpiredSuspects c k ord n))"
| nl_Incarnation: "nl_step (OIncarnation h i) n (writeNode h (setIncarnation i) n)"

inductive_cases nl_stepE: "nl_step l n n'"

fun m_op :: "IP \<Rightarrow> nl_op \<Rightarrow> member_map \<Rightarrow> member_map" where
  "m_op self (OAdd p v) m = m_add self p v m"
| "m_op self (OBootstrap p vs) m = fold (m_add self p) vs m"
| "m_op self (OMarkStable h) m = m_stable h m"
| "m_op self (OMarkSuspect p r h) m = m_suspect p r h m"
| "m_op self (OMarkFaulty h) m = m_remove h m"
| "m_op self (ODelete h) m = m_remove h m"
| "m_op self (OExpire c k) m = m_expire c k m"
| "m_op self (OIncarnation h i) m = m_write h (setIncarnation i) m"

definition m_step :: "nl_op \<Rightarrow> IP \<times> member_map \<Rightarrow> IP \<times> member_map \<Rightarrow> bool" where
  "m_step l s t \<longleftrightarrow> t = (fst s, m_op (fst s) l (snd s))"

lemma m_inv_op: "m_inv self m \<Longrightarrow> m_inv self (m_op self l m)"
proof (induction l)
  case (OBootstrap p vs)
  then show ?case by (induction vs arbitrary: m) (simp_all add: m_inv_ops)
qed (simp_all add: m_inv_ops)

lemma Bootstrap_spec:
  "nl_cons n \<Longrightarrow> nl_cons (Bootstrap p vs n) \<and> selfAddr (Bootstrap p vs n) = selfAddr n
     \<and> members (Bootstrap p vs n) = fold (m_add (selfAddr n) p) vs (members n)"
  unfolding Bootstrap_def
  by (induction vs arbitrary: n) (simp_all add: unsafeAdd_put nl_cons_put members_put put_selfAddr m_local)

lemma ExpiredSuspects_spec:
  assumes "nl_cons n" and "distinct ord" and "set ord = dom (suspects n)"
  shows "fst (ExpiredSuspects c k ord n) = List.map_filter (local_expired c k (members n)) ord"
    and "nl_cons (snd (ExpiredSuspects c k ord n))"
    and "selfAddr (snd (ExpiredSuspects c k ord n)) = selfAddr n"
    and "members (snd (ExpiredSuspects c k ord n)) = m_expire c k (members n)"
proof -
  have "members n h = m_expire c k (members n) h" if "h \<notin> dom (suspects n)" for h
    by (rule nl_cons_cases [OF assms(1), of h]) (use that in \<open>simp_all add: m_expire_def dom_def\<close>)
  with ExpiredSuspects_loop_spec [OF assms(1, 2), of c k "[]"] assms(3)
  show "fst (ExpiredSuspects c k ord n) = List.map_filter (local_expired c k (members n)) ord"
    "nl_cons (snd (ExpiredSuspects c k ord n))" "selfAddr (snd (ExpiredSuspects c k ord n)) = selfAddr n"
    "members (snd (ExpiredSuspects c k ord n)) = m_expire c k (members n)"
    by (auto simp: ExpiredSuspects_def intro!: ext)
qed

lemma nl_step_spec:
  assumes "nl_cons n" and "nl_step l n n'"
  shows "nl_cons n' \<and> selfAddr n' = selfAddr n \<and> members n' = m_op (selfAddr n) l (members n)"
  using assms(2)
  by (rule nl_stepE)
    (use assms(1) in \<open>simp_all add: Add_def MarkFaulty_def Bootstrap_spec ExpiredSuspects_spec unsafeAdd_put MarkStable_put
      MarkSuspect_put unsafeMarkFaulty_put Delete_put writeNode_put nl_cons_put members_put put_selfAddr
      m_local m_remove_def m_write_def\<close>)

interpretation nl: simulation nl_step nl_inv m_step "\<lambda>n. (selfAddr n, members n)"
proof unfold_locales
  fix n n' l
  assume n: "nl_inv n" and step: "nl_step l n n'"
  then have "nl_cons n' \<and> selfAddr n' = selfAddr n \<and> members n' = m_op (selfAddr n) l (members n)"
    by (intro nl_step_spec) (simp_all add: nl_inv_def)
  with n show "nl_inv n'" and "m_step l (selfAddr n, members n) (selfAddr n', members n')"
    by (simp_all add: nl_inv_def m_inv_op m_step_def)
qed

lemma nl_inv_new: "nl_inv (NewNodeList self)"
  unfolding nl_inv_def members_new using nl_cons_new by (simp add: m_inv_def)

subsection \<open>Choosing indirect probes\<close>

lemma IndirectPing_loop_spec:
  assumes "nl_cons n" and "set ks \<subseteq> dom (nodeByType n)" and "int (length r) < k"
  shows "IndirectPing_loop k exc ks n r
     = Some (r @ map (\<lambda>h. NodeByHash h n) (take (nat k - length r) (filter (\<lambda>h. h \<noteq> exc) ks)))"
  using assms(2, 3)
proof (induction ks arbitrary: r)
  case Nil
  then show ?case by simp
next
  case (Cons h ks)
  have found: "IndirectPing_loop k exc (h # ks) n r = (if h = exc then IndirectPing_loop k exc ks n r
      else if int (length r) + 1 = k then Some (r @ [NodeByHash h n])
      else IndirectPing_loop k exc ks n (r @ [NodeByHash h n]))"
    by (rule nl_cons_cases [OF assms(1), of h]) (use Cons.prems in \<open>auto simp: NodeByHash_def\<close>)
  have more: "nat k - length r = Suc (nat k - Suc (length r))" using Cons.prems by simp
  show ?case
    unfolding found using Cons by (auto simp: more)
qed

lemma members_dom: "nl_cons n \<Longrightarrow> dom (nodeByType n) = dom (members n)"
  by (auto simp: nl_cons_def)

text \<open>C4: under every sequence of operations the member list behaves like one map from hashes to members,
  stable or suspect: the three maps of the state never disagree, every node is filed under its own hash
  with the right suspect flag, the instance never lists itself, and a lookup returns what the map holds.\<close>

theorem nodeList_refines_member_map:
  assumes "trace nl_step (NewNodeList self) ops n"
  shows "nl_inv n \<and> members n = fold (m_op self) ops Map.empty
     \<and> (\<forall>h. NodeByHash h n = map_option node_of (members n h))"
proof -
  have inv: "nl_inv n" using assms nl_inv_new by (rule nl.trace_inv)
  have "trace m_step (self, Map.empty) ops (selfAddr n, members n)"
    using nl.trace_sim [OF assms nl_inv_new] by (simp add: members_new)
  moreover have "trace m_step s ops t \<Longrightarrow> t = (fst s, fold (m_op (fst s)) ops (snd s))" for s t
    by (induction rule: trace.induct) (simp_all add: m_step_def)
  ultimately show ?thesis
    using inv NodeByHash_members by (fastforce simp: nl_inv_def)
qed

abbreviation hostIP :: "byte \<Rightarrow> IP" where
  "hostIP b \<equiv> \<lparr>AddressKind = AddressIPv4, AddressBytes = [10, 0, 0, b, 0, 0, 0, 0, 0, 0, 0, 0, 0, 0, 0, 0]\<rparr>"

abbreviation host :: "bool \<Rightarrow> u16 \<Rightarrow> byte \<Rightarrow> Node" where
  "host s i b \<equiv> \<lparr>n_Suspect = s, n_Incarnation = i, n_Address = hostIP b\<rparr>"

abbreviation hostHash :: "byte \<Rightarrow> NodeHash" where
  "hostHash b \<equiv> Addr4 [10, 0, 0, b]"

lemma Hash_host [simp]: "Hash (host s i b) = hostHash b"
  by (simp add: Hash_def IntoHash_def AddrFromSlice_def IP_Bytes_def IP_Size_def AddressKind_Size_def)

theorem nodeList_refines_member_map_witness:
  "nl_inv (MarkSuspect 3 True (hostHash 2) (Add 1 (host False 5 2) (NewNodeList (hostIP 1))))
   \<and> members (MarkSuspect 3 True (hostHash 2) (Add 1 (host False 5 2) (NewNodeList (hostIP 1))))
     = fold (m_op (hostIP 1)) [OAdd 1 (host False 5 2), OMarkSuspect 3 True (hostHash 2)] Map.empty
   \<and> (\<forall>h. NodeByHash h (MarkSuspect 3 True (hostHash 2) (Add 1 (host False 5 2) (NewNodeList (hostIP 1))))
     = map_option node_of (members (MarkSuspect 3 True (hostHash 2) (Add 1 (host False 5 2) (NewNodeList (hostIP 1)))) h))"
  by (rule nodeList_refines_member_map) (rule trace_Cons nl_Add nl_MarkSuspect trace_Nil)+

text \<open>C12: \<open>ExpiredSuspects\<close> returns exactly the nodes this instance has suspected for the given number of
  rounds, drops exactly the expired suspects other members reported, and leaves every other member as
  it was, whatever the order the suspects are visited in.\<close>

theorem ExpiredSuspects_exact:
  assumes "nl_inv n" and "distinct ord" and "set ord = dom (suspects n)"
  shows "set (fst (ExpiredSuspects c k ord n))
      = {sn_Node s | s h. suspects n h = Some s \<and> unat k \<le> suspectRounds c s \<and> \<not> FromRemote s}
    \<and> (\<forall>h. members (snd (ExpiredSuspects c k ord n)) h
      = (case suspects n h of Some s \<Rightarrow> if unat k \<le> suspectRounds c s \<and> FromRemote s then None else members n h
         | None \<Rightarrow> members n h))"
proof -
  have cons: "nl_cons n" using assms(1) by (simp add: nl_inv_def)
  have loc: "local_expired c k (members n) h = Some v \<longleftrightarrow>
      (\<exists>s. suspects n h = Some s \<and> unat k \<le> suspectRounds c s \<and> \<not> FromRemote s \<and> v = sn_Node s)" for h v
    by (rule nl_cons_cases [OF cons, of h]) (auto simp: local_expired_def expired_def)
  have "set (fst (ExpiredSuspects c k ord n)) = {v. \<exists>h. local_expired c k (members n) h = Some v}"
    unfolding ExpiredSuspects_spec(1) [OF cons assms(2, 3)] set_map_filter_eq assms(3) by (auto simp: loc)
  moreover have "m_expire c k (members n) h
      = (case suspects n h of Some s \<Rightarrow> if unat k \<le> suspectRounds c s \<and> FromRemote s then None else members n h
         | None \<Rightarrow> members n h)" for h
    by (rule nl_cons_cases [OF cons, of h]) (simp_all add: m_expire_def expired_def)
  ultimately show ?thesis
    using loc ExpiredSuspects_spec(4) [OF cons assms(2, 3)] by auto
qed

text \<open>A list with a suspect of its own (10.0.0.2, since period 3) and one reported by another member
  (10.0.0.3, since period 1).\<close>

definition exampleList :: nodeList where
  "exampleList = Add 1 (host True 7 3) (MarkSuspect 3 False (hostHash 2) (Add 1 (host False 5 2) (NewNodeList (hostIP 1))))"

lemma example_maps:
  "nodeByType exampleList = [hostHash 2 \<mapsto> NodeTypeSuspect, hostHash 3 \<mapsto> NodeTypeSuspect]"
  "stable exampleList = Map.empty"
  "suspects exampleList = [hostHash 2 \<mapsto> \<lparr>sn_Node = host True 5 2, SuspectAtPeriod = 3, FromRemote = False\<rparr>,
     hostHash 3 \<mapsto> \<lparr>sn_Node = host True 7 3, SuspectAtPeriod = 1, FromRemote = True\<rparr>]"
  by (simp_all add: exampleList_def nl_op_defs NewNodeList_def Let_def)

lemma example_inv: "nl_inv exampleList"
proof -
  have "trace nl_step (NewNodeList (hostIP 1))
      [OAdd 1 (host False 5 2), OMarkSuspect 3 False (hostHash 2), OAdd 1 (host True 7 3)] exampleList"
    unfolding exampleList_def by (rule trace_Cons nl_Add nl_MarkSuspect trace_Nil)+
  then show ?thesis using nl_inv_new by (rule nl.trace_inv)
qed

theorem ExpiredSuspects_exact_witness:
  "set (fst (ExpiredSuspects 10 5 [hostHash 3, hostHash 2] exampleList)) = {host True 5 2}
   \<and> members (snd (ExpiredSuspects 10 5 [hostHash 3, hostHash 2] exampleList)) (hostHash 3) = None"
proof -
  have ord: "distinct [hostHash 3, hostHash 2]" "set [hostHash 3, hostHash 2] = dom (suspects exampleList)"
    by (auto simp: example_maps)
  have "{sn_Node s | s h. suspects exampleList h = Some s \<and> unat (5 :: u16) \<le> suspectRounds 10 s \<and> \<not> FromRemote s}
      = {host True 5 2}"
    by (auto simp: example_maps suspectRounds_def split: if_splits)
      (rule exI [of _ "\<lparr>sn_Node = host True 5 2, SuspectAtPeriod = 3, FromRemote = False\<rparr>"],
        auto intro: exI [of _ "hostHash 2"])
  moreover have "(case suspects exampleList (hostHash 3) of
      Some s \<Rightarrow> if unat (5 :: u16) \<le> suspectRounds 10 s \<and> FromRemote s then None else members exampleList (hostHash 3)
    | None \<Rightarrow> members exampleList (hostHash 3)) = None"
    by (simp add: example_maps suspectRounds_def)
  ultimately show ?thesis using ExpiredSuspects_exact [OF example_inv ord, of 10 5] by metis
qed

lemma IndirectPingCandidates_result:
  assumes "nl_inv n" and "distinct ord" and "set ord = dom (nodeByType n)" and "0 < k"
  shows "\<exists>vs. IndirectPingCandidates k exc ord n = Some (map Some vs)
    \<and> map Hash vs = take (nat k) (filter (\<lambda>h. h \<noteq> exc) ord)
    \<and> (\<forall>v \<in> set vs. NodeByHash (Hash v) n = Some v)"
proof -
  have cons: "nl_cons n" and m: "m_inv (selfAddr n) (members n)" using assms(1) by (simp_all add: nl_inv_def)
  define hs where "hs = take (nat k) (filter (\<lambda>h. h \<noteq> exc) ord)"
  have hs: "\<exists>v. NodeByHash h n = Some v \<and> Hash v = h" if "h \<in> set hs" for h
  proof -
    have "h \<in> dom (members n)" using that assms(3) members_dom [OF cons] by (auto simp: hs_def dest: in_set_takeD)
    with m show ?thesis by (auto simp: NodeByHash_members [OF cons] m_inv_def sound_def)
  qed
  then have node: "NodeByHash h n = Some (the (NodeByHash h n)) \<and> Hash (the (NodeByHash h n)) = h" if "h \<in> set hs" for h
    using that by force
  have "nodeByType n = Map.empty \<Longrightarrow> ord = []" using assms(3) by simp
  then have "IndirectPingCandidates k exc ord n = Some (map (\<lambda>h. NodeByHash h n) hs)"
    using IndirectPing_loop_spec [OF cons, of ord "[]" k exc] assms(3, 4)
    by (auto simp: IndirectPingCandidates_def hs_def)
  moreover have "map (\<lambda>h. NodeByHash h n) hs = map Some (map (\<lambda>h. the (NodeByHash h n)) hs)"
    using node by simp
  moreover have "map Hash (map (\<lambda>h. the (NodeByHash h n)) hs) = hs"
    using node by (simp add: map_idI)
  ultimately show ?thesis
    using node unfolding hs_def [symmetric] by (intro exI [of _ "map (\<lambda>h. the (NodeByHash h n)) hs"]) simp
qed

text \<open>\<open>IndirectPingCandidates\<close> never panics and never yields a nil pointer on a positive bound: it
  returns the first \<open>k\<close> members, other than the excepted one, in the order the map is visited in.\<close>

lemma IndirectPingCandidates_spec:
  assumes "nl_inv n" and "distinct ord" and "set ord = dom (nodeByType n)" and "0 < k"
  shows "\<exists>vs. IndirectPingCandidates k exc ord n = Some (map Some vs)
    \<and> map Hash vs = take (nat k) (filter (\<lambda>h. h \<noteq> exc) ord)
    \<and> (\<forall>v \<in> set vs. NodeByHash (Hash v) n = Some v)"
  using assms by (rule IndirectPingCandidates_result)

lemma IndirectPingCandidates_spec_witness:
  "\<exists>vs. IndirectPingCandidates 1 (hostHash 3) [hostHash 3, hostHash 2] exampleList = Some (map Some vs)
    \<and> map Hash vs = [hostHash 2] \<and> (\<forall>v \<in> set vs. NodeByHash (Hash v) exampleList = Some v)"
  using IndirectPingCandidates_spec [OF example_inv, of "[hostHash 3, hostHash 2]" 1 "hostHash 3"]
  by (auto simp: example_maps split: if_splits)

text \<open>The age of a suspect does not account for the wrap of the period counter. A node that became
  suspect in the last period before the wrap, 65534, has expired one period later, in period 0, for
  every number of rounds up to 65534.\<close>

lemma suspect_expires_at_wrap:
  assumes "SuspectAtPeriod s = 65534" and "unat rounds \<le> 65534"
    and "suspects n h = Some s" and "\<not> FromRemote s"
  shows "fst (ExpiredSuspects 0 rounds [h] n) = [sn_Node s]"
  using assms by (simp add: ExpiredSuspects_def suspectRounds_def)

lemma suspect_expires_at_wrap_witness:
  "fst (ExpiredSuspects 0 100 [hostHash 2]
     (MarkSuspect 65534 False (hostHash 2) (Add 1 (host False 5 2) (NewNodeList (hostIP 1))))) = [host True 5 2]"
  using suspect_expires_at_wrap [of "\<lparr>sn_Node = host True 5 2, SuspectAtPeriod = 65534, FromRemote = False\<rparr>" 100
      "MarkSuspect 65534 False (hostHash 2) (Add 1 (host False 5 2) (NewNodeList (hostIP 1)))" "hostHash 2"]
  by (simp add: nl_op_defs NewNodeList_def Let_def)

end
