(* ===== verification/Node_Manager.thy ===== *)
theory Node_Manager
  imports Node_List
begin

text \<open>
  \<open>internal/core/node_manager.go\<close>: the member list together with the list of nodes still to be
  pinged in this round. The embedded \<open>nodeList\<close> is a field; the methods it promotes act on that
  field alone. \<open>rand.Shuffle\<close> takes its random source as an argument, and every loop over the maps
  takes the order of their keys.

  \<open>nm_step\<close> is the manager as a transition system over all its operations, with the invariant
  \<open>nm_inv\<close>. The properties are those of the ping list (every member is pinged once a round, and what
  empties the list for good) and of the incarnations.
\<close>

subsection \<open>The manager\<close>

record nodeManager =
  nm_list :: nodeList
  nodesToPing :: "NodeHash list"
  nm_selfAddr :: IP

text \<open>The choices one traversal of the maps and one shuffle make: a random source, and the order of the
  stable nodes and of the suspects.\<close>

type_synonym choices = "(nat \<Rightarrow> nat) \<times> NodeHash list \<times> NodeHash list"

definition NewNodeManager :: "IP \<Rightarrow> nodeManager" where
  "NewNodeManager self = \<lparr>nm_list = NewNodeList self, nodesToPing = [], nm_selfAddr = self\<rparr>"

definition nodeManager_All :: "NodeType \<Rightarrow> NodeHash list \<Rightarrow> NodeHash list \<Rightarrow> nodeManager \<Rightarrow> Node list" where
  "nodeManager_All filt ordStable ordSuspects n =
     nodeList_Range filt (\<lambda>listCopy v. (True, listCopy @ [v])) ordStable ordSuspects (nm_list n) []"

definition unsafePreparePingList :: "choices \<Rightarrow> nodeManager \<Rightarrow> nodeManager" where
  "unsafePreparePingList ch n = (case ch of (rnd, ordStable, ordSuspects) \<Rightarrow>
     let hashes = nodeList_Range (NodeTypeStable OR NodeTypeSuspect) (\<lambda>acc node. (True, acc @ [Hash node]))
           ordStable ordSuspects (nm_list n) []
     in n\<lparr>nodesToPing := Shuffle rnd hashes\<rparr>)"

definition nodeManager_Bootstrap :: "choices \<Rightarrow> u16 \<Rightarrow> Node list \<Rightarrow> nodeManager \<Rightarrow> nodeManager" where
  "nodeManager_Bootstrap ch period list n =
     unsafePreparePingList ch (n\<lparr>nm_list := Bootstrap period list (nm_list n)\<rparr>)"

definition nodeManager_Add :: "u16 \<Rightarrow> Node \<Rightarrow> nodeManager \<Rightarrow> nodeManager" where
  "nodeManager_Add period node n = n\<lparr>nm_list := Add period node (nm_list n)\<rparr>"

definition WrapIncarnation :: "u16 \<Rightarrow> Node \<Rightarrow> nodeManager \<Rightarrow> nodeManager" where
  "WrapIncarnation period node n = (let hash = Hash node in
     case NodeByHash hash (nm_list n) of
       None \<Rightarrow> nodeManager_Add period node n
     | Some localNode \<Rightarrow>
         let n = n\<lparr>nm_list := MarkStable hash (nm_list n)\<rparr>
         in n\<lparr>nm_list := writeNode hash (setIncarnation (n_Incarnation node)) (nm_list n)\<rparr>)"

definition UpdateOrCreate :: "u16 \<Rightarrow> Node \<Rightarrow> nodeManager \<Rightarrow> nodeManager" where
  "UpdateOrCreate period node n = (let hash = Hash node in
     case NodeByHash hash (nm_list n) of
       None \<Rightarrow> nodeManager_Add period node n
     | Some localNode \<Rightarrow>
         if n_Incarnation localNode > n_Incarnation node then n
         else let n = n\<lparr>nm_list := writeNode hash (setIncarnation (n_Incarnation node)) (nm_list n)\<rparr> in
           if n_Suspect node then n\<lparr>nm_list := MarkSuspect period True hash (nm_list n)\<rparr>
           else n\<lparr>nm_list := MarkStable hash (nm_list n)\<rparr>)"

text \<open>\<open>None\<close> would be the panic of \<open>slices.Delete\<close>.\<close>

definition nodeManager_MarkFaulty :: "NodeHash \<Rightarrow> nodeManager \<Rightarrow> nodeManager option" where
  "nodeManager_MarkFaulty hash n =
     (let n = n\<lparr>nm_list := MarkFaulty hash (nm_list n)\<rparr>;
          idxToRemove = slices_Index (nodesToPing n) hash
      in if idxToRemove = -1 then Some n
         else do {
           ping \<leftarrow> slices_Delete (nodesToPing n) (nat idxToRemove) (nat idxToRemove + 1);
           Some (n\<lparr>nodesToPing := ping\<rparr>)
         })"

definition NextPing :: "choices \<Rightarrow> nodeManager \<Rightarrow> Node option \<times> nodeManager" where
  "NextPing ch n = (case nodesToPing n of [] \<Rightarrow> (None, n)
     | toPing # rest \<Rightarrow>
         let n = n\<lparr>nodesToPing := rest\<rparr>;
             n = (if nodesToPing n = [] then unsafePreparePingList ch n else n)
         in (NodeByHash toPing (nm_list n), n))"

subsection \<open>Traversals\<close>

abbreviation enumerates :: "'a list \<Rightarrow> ('a \<rightharpoonup> 'b) \<Rightarrow> bool" where
  "enumerates ord m \<equiv> distinct ord \<and> set ord = dom m"

definition valid_choices :: "choices \<Rightarrow> nodeList \<Rightarrow> bool" where
  "valid_choices ch n \<longleftrightarrow> enumerates (fst (snd ch)) (stable n) \<and> enumerates (snd (snd ch)) (suspects n)"

lemma Range_stable_collect:
  "Range_stable (\<lambda>acc v. (True, acc @ [f v])) n hs acc = (True, acc @ List.map_filter (\<lambda>h. map_option f (stable n h)) hs)"
  by (induction hs arbitrary: acc) (auto split: option.split)

lemma Range_suspects_collect:
  "Range_suspects (\<lambda>acc v. (True, acc @ [f v])) False n hs acc
   = (True, acc @ List.map_filter (\<lambda>h. map_option (f \<circ> sn_Node) (suspects n h)) hs)"
  by (induction hs arbitrary: acc) (auto split: option.split)

lemma Range_all_collect:
  "nodeList_Range 3 (\<lambda>acc v. (True, acc @ [f v])) ordS ordP n acc
   = acc @ List.map_filter (\<lambda>h. map_option f (stable n h)) ordS
       @ List.map_filter (\<lambda>h. map_option (f \<circ> sn_Node) (suspects n h)) ordP"
  by (simp add: nodeList_Range_def NodeType_Is_def Range_stable_collect Range_suspects_collect)

lemma map_filter_key: "(\<And>h. h \<in> set hs \<Longrightarrow> f h = Some h) \<Longrightarrow> List.map_filter f hs = hs"
  by (induction hs) auto

lemma hash_filed:
  assumes "nl_inv n"
  shows "stable n h = Some v \<Longrightarrow> Hash v = h" and "suspects n h = Some s \<Longrightarrow> Hash (sn_Node s) = h"
proof -
  have cons: "nl_cons n" and m: "\<And>h v. members n h = Some v \<Longrightarrow> Hash (node_of v) = h"
    using assms by (auto simp: nl_inv_def m_inv_def sound_def)
  show "stable n h = Some v \<Longrightarrow> Hash v = h" "suspects n h = Some s \<Longrightarrow> Hash (sn_Node s) = h"
    using m [of h] by (rule_tac [!] nl_cons_cases [OF cons, of h]) auto
qed

text \<open>A new ping list holds every member exactly once.\<close>

lemma prepare_spec:
  assumes "nl_inv (nm_list n)" and "valid_choices ch (nm_list n)"
  shows "nm_list (unsafePreparePingList ch n) = nm_list n"
    and "enumerates (nodesToPing (unsafePreparePingList ch n)) (members (nm_list n))"
proof -
  let ?n = "nm_list n"
  obtain rnd ordS ordP where ch: "ch = (rnd, ordS, ordP)" by (cases ch) auto
  have ord: "distinct ordS" "set ordS = dom (stable ?n)" "distinct ordP" "set ordP = dom (suspects ?n)"
    using assms(2) ch by (simp_all add: valid_choices_def)
  have "List.map_filter (\<lambda>h. map_option Hash (stable ?n h)) ordS = ordS"
    "List.map_filter (\<lambda>h. map_option (Hash \<circ> sn_Node) (suspects ?n h)) ordP = ordP"
    using ord hash_filed [OF assms(1)] by (auto intro!: map_filter_key)
  then have ping: "nodesToPing (unsafePreparePingList ch n) = Shuffle rnd (ordS @ ordP)"
    by (simp add: ch unsafePreparePingList_def Range_all_collect)
  have disj: "stable ?n h = None \<or> suspects ?n h = None" for h
    using assms(1) by (simp add: nl_inv_def nl_cons_def)
  have "dom (members ?n) = dom (stable ?n) \<union> dom (suspects ?n)"
    by (auto simp: members_def split: option.splits)
  with ord ping show "enumerates (nodesToPing (unsafePreparePingList ch n)) (members ?n)"
    using disj by (auto simp: disjoint_iff)  (metis option.distinct(1))
  show "nm_list (unsafePreparePingList ch n) = nm_list n" by (simp add: ch unsafePreparePingList_def)
qed

subsection \<open>The manager as a transition system\<close>

datatype nm_op =
    NAdd u16 Node
  | NBootstrap u16 "Node list"
  | NUpdateOrCreate u16 Node
  | NWrapIncarnation u16 Node
  | NMarkStable NodeHash
  | NMarkSuspect u16 bool NodeHash
  | NMarkFaulty NodeHash
  | NDelete NodeHash
  | NExpire u16 u16
  | NNextPing

inductive nm_step :: "nm_op \<Rightarrow> nodeManager \<Rightarrow> nodeManager \<Rightarrow> bool" where
  nm_Add: "nm_step (NAdd p v) n (nodeManager_Add p v n)"
| nm_Bootstrap: "valid_choices ch (Bootstrap p vs (nm_list n)) \<Longrightarrow> nm_step (NBootstrap p vs) n (nodeManager_Bootstrap ch p vs n)"
| nm_UpdateOrCreate: "nm_step (NUpdateOrCreate p v) n (UpdateOrCreate p v n)"
| nm_WrapIncarnation: "nm_step (NWrapIncarnation p v) n (WrapIncarnation p v n)"
| nm_MarkStable: "nm_step (NMarkStable h) n (n\<lparr>nm_list := MarkStable h (nm_list n)\<rparr>)"
| nm_MarkSuspect: "nm_step (NMarkSuspect p r h) n (n\<lparr>nm_list := MarkSuspect p r h (nm_list n)\<rparr>)"
| nm_MarkFaulty: "nodeManager_MarkFaulty h n = Some n' \<Longrightarrow> nm_step (NMarkFaulty h) n n'"
| nm_Delete: "nm_step (NDelete h) n (n\<lparr>nm_list := Delete h (nm_list n)\<rparr>)"
| nm_Expire: "enumerates ord (suspects (nm_list n)) \<Longrightarrow>
    nm_step (NExpire c k) n (n\<lparr>nm_list := snd (ExpiredSuspects c k ord (nm_list n))\<rparr>)"
| nm_NextPing: "valid_choices ch (nm_list n) \<Longrightarrow> nm_step NNextPing n (snd (NextPing ch n))"

inductive_cases nm_stepE: "nm_step l n n'"

text \<open>The steps of the member list that an operation of the manager makes.\<close>

fun nm_ops :: "nm_op \<Rightarrow> nodeList \<Rightarrow> nl_op list" where
  "nm_ops (NAdd p v) n = [OAdd p v]"
| "nm_ops (NBootstrap p vs) n = [OBootstrap p vs]"
| "nm_ops (NUpdateOrCreate p v) n = (case NodeByHash (Hash v) n of None \<Rightarrow> [OAdd p v]
     | Some w \<Rightarrow> if n_Incarnation w > n_Incarnation v then []
         else [OIncarnation (Hash v) (n_Incarnation v),
           if n_Suspect v then OMarkSuspect p True (Hash v) else OMarkStable (Hash v)])"
| "nm_ops (NWrapIncarnation p v) n = (case NodeByHash (Hash v) n of None \<Rightarrow> [OAdd p v]
     | Some w \<Rightarrow> [OMarkStable (Hash v), OIncarnation (Hash v) (n_Incarnation v)])"
| "nm_ops (NMarkStable h) n = [OMarkStable h]"
| "nm_ops (NMarkSuspect p r h) n = [OMarkSuspect p r h]"
| "nm_ops (NMarkFaulty h) n = [OMarkFaulty h]"
| "nm_ops (NDelete h) n = [ODelete h]"
| "nm_ops (NExpire c k) n = [OExpire c k]"
| "nm_ops NNextPing n = []"

lemma MarkFaulty_result:
  "nodeManager_MarkFaulty h n = Some (n\<lparr>nm_list := MarkFaulty h (nm_list n), nodesToPing := remove1 h (nodesToPing n)\<rparr>)"
  using slices_Delete_Index [of h "nodesToPing n"] slices_Index_missing [of "nodesToPing n" h]
  by (cases "h \<in> set (nodesToPing n)") (auto simp: nodeManager_MarkFaulty_def Let_def remove1_idem)

lemma nm_list_prepare [simp]: "nm_list (unsafePreparePingList ch n) = nm_list n"
  by (simp add: unsafePreparePingList_def split: prod.split)

lemma NextPing_list [simp]: "nm_list (snd (NextPing ch n)) = nm_list n"
  by (simp add: NextPing_def Let_def split: list.split)

lemma nm_step_list: "nm_step l n n' \<Longrightarrow> trace nl_step (nm_list n) (nm_ops l (nm_list n)) (nm_list n')"
proof (erule nm_stepE, goal_cases)
  case (3 p v)
  show ?case
  proof (cases "NodeByHash (Hash v) (nm_list n)")
    case (Some w)
    with 3 show ?thesis
      by (auto simp: trace_Cons_iff UpdateOrCreate_def Let_def
          intro!: nl_step.intros exI conjI [OF nl_Incarnation])
  qed (use 3 in \<open>simp add: trace_Cons_iff nl_Add UpdateOrCreate_def nodeManager_Add_def\<close>)
next
  case (4 p v)
  show ?case
  proof (cases "NodeByHash (Hash v) (nm_list n)")
    case (Some w)
    with 4 show ?thesis
      by (auto simp: trace_Cons_iff WrapIncarnation_def Let_def
          intro!: nl_step.intros exI conjI [OF nl_MarkStable])
  qed (use 4 in \<open>simp add: trace_Cons_iff nl_Add WrapIncarnation_def nodeManager_Add_def\<close>)
qed (auto simp: trace_Cons_iff nodeManager_Add_def nodeManager_Bootstrap_def MarkFaulty_result intro: nl_step.intros)

subsection \<open>The invariant\<close>

definition nm_inv :: "nodeManager \<Rightarrow> bool" where
  "nm_inv n \<longleftrightarrow> nl_inv (nm_list n) \<and> distinct (nodesToPing n)"

lemma nm_inv_new: "nm_inv (NewNodeManager self)"
  by (simp add: nm_inv_def NewNodeManager_def nl_inv_new)

lemma UpdateOrCreate_ping [simp]: "nodesToPing (UpdateOrCreate p v n) = nodesToPing n"
  by (simp add: UpdateOrCreate_def nodeManager_Add_def Let_def split: option.split)

lemma WrapIncarnation_ping [simp]: "nodesToPing (WrapIncarnation p v n) = nodesToPing n"
  by (simp add: WrapIncarnation_def nodeManager_Add_def Let_def split: option.split)

lemma NextPing_ping:
  assumes "nl_inv (nm_list n)" and "valid_choices ch (nm_list n)" and "distinct (nodesToPing n)"
  shows "distinct (nodesToPing (snd (NextPing ch n)))"
  using assms prepare_spec(2) [of "n\<lparr>nodesToPing := []\<rparr>" ch]
  by (auto simp: NextPing_def Let_def split: list.split)

interpretation nm: invariant nm_step nm_inv
proof
  fix n n' l
  assume inv: "nm_inv n" and step: "nm_step l n n'"
  have list: "nl_inv (nm_list n')"
    using nl.trace_inv [OF nm_step_list [OF step]] inv by (simp add: nm_inv_def)
  have "distinct (nodesToPing n')"
    using step
  proof (rule nm_stepE, goal_cases)
    case (2 ch p vs)
    then have "nl_inv (nm_list (n\<lparr>nm_list := Bootstrap p vs (nm_list n)\<rparr>))"
      using list by (simp add: nodeManager_Bootstrap_def)
    with 2 show ?case using prepare_spec(2) by (fastforce simp: nodeManager_Bootstrap_def)
  next
    case (10 ch)
    with inv show ?case by (simp add: nm_inv_def NextPing_ping)
  qed (use inv in \<open>auto simp: nm_inv_def nodeManager_Add_def MarkFaulty_result\<close>)
  with list show "nm_inv n'" by (simp add: nm_inv_def)
qed

subsection \<open>Rounds of pings\<close>

text \<open>Successive calls of \<open>NextPing\<close>, each with choices of its own.\<close>

fun NextPings :: "choices list \<Rightarrow> nodeManager \<Rightarrow> Node option list \<times> nodeManager" where
  "NextPings [] n = ([], n)"
| "NextPings (ch # chs) n = (let (v, n) = NextPing ch n; (vs, n) = NextPings chs n in (v # vs, n))"

definition fresh :: "nodeManager \<Rightarrow> bool" where
  "fresh n \<longleftrightarrow> enumerates (nodesToPing n) (members (nm_list n))"

lemma NextPings_round:
  assumes "nl_inv (nm_list n)" and "\<forall>ch \<in> set chs. valid_choices ch (nm_list n)"
    and "length chs = length (nodesToPing n)" and "nodesToPing n \<noteq> []"
  shows "\<exists>n'. NextPings chs n = (map (\<lambda>h. NodeByHash h (nm_list n)) (nodesToPing n), n')
    \<and> nm_list n' = nm_list n \<and> fresh n'"
  using assms
proof (induction chs arbitrary: n)
  case Nil
  then show ?case by simp
next
  case (Cons ch chs)
  then obtain h hs where hs: "nodesToPing n = h # hs" by (cases "nodesToPing n") auto
  show ?case
  proof (cases hs)
    case Nil
    let ?n = "unsafePreparePingList ch (n\<lparr>nodesToPing := []\<rparr>)"
    have "NextPings (ch # chs) n = ([NodeByHash h (nm_list n)], ?n)"
      using hs Nil Cons.prems by (simp add: NextPing_def Let_def)
    moreover have "fresh ?n"
      using prepare_spec(2) [of "n\<lparr>nodesToPing := []\<rparr>" ch] Cons.prems by (simp add: fresh_def)
    ultimately show ?thesis using hs Nil by simp
  next
    case (Cons h2 hs2)
    let ?n = "n\<lparr>nodesToPing := hs\<rparr>"
    have "NextPing ch n = (NodeByHash h (nm_list n), ?n)"
      using hs Cons by (simp add: NextPing_def)
    moreover have "\<exists>n'. NextPings chs ?n = (map (\<lambda>h. NodeByHash h (nm_list ?n)) (nodesToPing ?n), n')
        \<and> nm_list n' = nm_list ?n \<and> fresh n'"
      using Cons hs Cons.prems by (intro Cons.IH) auto
    ultimately show ?thesis using hs by auto
  qed
qed

text \<open>C8: rounds of pings. From a ping list that holds every member once, as many calls of \<open>NextPing\<close> as
  there are members return each member exactly once and never nil, whatever the shuffles and the orders
  of the maps, and leave a ping list that again holds every member once.\<close>

theorem NextPing_round_robin:
  assumes "nm_inv n" and "enumerates (nodesToPing n) (members (nm_list n))" and "nodesToPing n \<noteq> []"
    and "\<forall>ch \<in> set chs. valid_choices ch (nm_list n)" and "length chs = length (nodesToPing n)"
  shows "\<exists>vs n'. NextPings chs n = (map Some vs, n') \<and> distinct (map Hash vs)
    \<and> set (map Hash vs) = dom (members (nm_list n)) \<and> nm_list n' = nm_list n
    \<and> enumerates (nodesToPing n') (members (nm_list n'))"
proof -
  let ?l = "nm_list n" and ?hs = "nodesToPing n"
  have inv: "nl_inv ?l" using assms(1) by (simp add: nm_inv_def)
  obtain n' where n': "NextPings chs n = (map (\<lambda>h. NodeByHash h ?l) ?hs, n')" "nm_list n' = ?l" "fresh n'"
    using NextPings_round [OF inv assms(4, 5, 3)] by blast
  have node: "NodeByHash h ?l = Some (the (NodeByHash h ?l)) \<and> Hash (the (NodeByHash h ?l)) = h" if "h \<in> set ?hs" for h
    using that assms(2) inv by (auto simp: nl_inv_def NodeByHash_members m_inv_def sound_def)
  let ?vs = "map (\<lambda>h. the (NodeByHash h ?l)) ?hs"
  have "map (\<lambda>h. NodeByHash h ?l) ?hs = map Some ?vs" and "map Hash ?vs = ?hs"
    using node by (simp, simp add: map_idI)
  with n' assms(2) show ?thesis
    by (intro exI [of _ ?vs] exI [of _ n']) (simp add: fresh_def)
qed

abbreviation exampleChoices :: choices where
  "exampleChoices \<equiv> (\<lambda>_. 0, [], [hostHash 2, hostHash 3])"

abbreviation exampleManager :: nodeManager where
  "exampleManager \<equiv> unsafePreparePingList exampleChoices \<lparr>nm_list = exampleList, nodesToPing = [], nm_selfAddr = hostIP 1\<rparr>"

lemma example_choices: "valid_choices exampleChoices exampleList"
  by (auto simp: valid_choices_def example_maps)

lemma example_ping: "nodesToPing exampleManager = [hostHash 3, hostHash 2]"
  by (simp add: unsafePreparePingList_def Range_all_collect example_maps Shuffle_def swap_def)

theorem NextPing_round_robin_witness:
  "\<exists>vs n'. NextPings [exampleChoices, exampleChoices] exampleManager = (map Some vs, n') \<and> distinct (map Hash vs)
    \<and> set (map Hash vs) = dom (members exampleList) \<and> nm_list n' = exampleList
    \<and> enumerates (nodesToPing n') (members (nm_list n'))"
proof -
  let ?m = "\<lparr>nm_list = exampleList, nodesToPing = [], nm_selfAddr = hostIP 1\<rparr> :: nodeManager"
  have "enumerates (nodesToPing exampleManager) (members (nm_list exampleManager))"
    using prepare_spec(2) [of ?m exampleChoices] example_inv example_choices by simp
  then show ?thesis
    using NextPing_round_robin [of exampleManager "[exampleChoices, exampleChoices]"] example_inv example_choices
    by (simp add: nm_inv_def example_ping)
qed

lemma ping_empty_step:
  "nm_step l n n' \<Longrightarrow> nodesToPing n = [] \<Longrightarrow> \<forall>p vs. l \<noteq> NBootstrap p vs \<Longrightarrow> nodesToPing n' = []"
  by (erule nm_stepE) (auto simp: nodeManager_Add_def MarkFaulty_result NextPing_def)

lemma ping_empty_trace:
  "trace nm_step n ops n' \<Longrightarrow> nodesToPing n = [] \<Longrightarrow> \<forall>p vs. NBootstrap p vs \<notin> set ops \<Longrightarrow> nodesToPing n' = []"
  by (induction rule: trace.induct) (auto dest: ping_empty_step)

text \<open>C32: only \<open>Bootstrap\<close> fills an empty ping list. From a new manager, through any sequence of operations
  without \<open>Bootstrap\<close>, whatever nodes \<open>Add\<close> and \<open>UpdateOrCreate\<close> bring in, the ping list stays empty and
  \<open>NextPing\<close> returns nil.\<close>

theorem ping_list_starves_without_Bootstrap:
  assumes "trace nm_step (NewNodeManager self) ops n" and "\<forall>p vs. NBootstrap p vs \<notin> set ops"
  shows "nodesToPing n = [] \<and> NextPing ch n = (None, n)"
  using ping_empty_trace [OF assms(1) _ assms(2)] by (simp add: NewNodeManager_def NextPing_def)

theorem ping_list_starves_without_Bootstrap_witness:
  "nodesToPing (nodeManager_Add 1 (host False 5 2) (NewNodeManager (hostIP 1))) = []
   \<and> NextPing exampleChoices (nodeManager_Add 1 (host False 5 2) (NewNodeManager (hostIP 1)))
     = (None, nodeManager_Add 1 (host False 5 2) (NewNodeManager (hostIP 1)))"
  by (rule ping_list_starves_without_Bootstrap [of "hostIP 1" "[NAdd 1 (host False 5 2)]"])
    ((rule trace_Cons nm_Add trace_Nil)+, simp)

subsection \<open>Incarnations\<close>

text \<open>What \<open>UpdateOrCreate\<close> and \<open>WrapIncarnation\<close> make of the members.\<close>

definition m_update :: "IP \<Rightarrow> u16 \<Rightarrow> Node \<Rightarrow> member_map \<Rightarrow> member_map" where
  "m_update self p v m = (case m (Hash v) of None \<Rightarrow> m_add self p v m
     | Some w \<Rightarrow> if n_Incarnation (node_of w) > n_Incarnation v then m
         else (if n_Suspect v then m_suspect p True (Hash v) else m_stable (Hash v))
           (m_write (Hash v) (setIncarnation (n_Incarnation v)) m))"

lemma trace_members:
  assumes "nl_inv n" and "trace nl_step n ops n'"
  shows "members n' = fold (m_op (selfAddr n)) ops (members n) \<and> selfAddr n' = selfAddr n"
proof -
  have "trace m_step s ops t \<Longrightarrow> t = (fst s, fold (m_op (fst s)) ops (snd s))" for s t
    by (induction rule: trace.induct) (simp_all add: m_step_def)
  from this [OF nl.trace_sim [OF assms(2, 1)]] show ?thesis by simp
qed

lemma nm_step_members:
  assumes "nm_inv n" and "nm_step l n n'"
  shows "members (nm_list n') = fold (m_op (selfAddr (nm_list n))) (nm_ops l (nm_list n)) (members (nm_list n))"
  using trace_members [OF _ nm_step_list [OF assms(2)]] assms(1) by (simp add: nm_inv_def)

lemma UpdateOrCreate_members:
  assumes "nm_inv n"
  shows "members (nm_list (UpdateOrCreate p v n)) = m_update (selfAddr (nm_list n)) p v (members (nm_list n))"
proof -
  have "nl_cons (nm_list n)" using assms by (simp add: nm_inv_def nl_inv_def)
  then show ?thesis
    using nm_step_members [OF assms nm_UpdateOrCreate [of p v n]]
    by (simp add: NodeByHash_members m_update_def split: option.split)
qed

lemma node_of_m_upd [simp]: "node_of (m_upd f v) = f (node_of v)" "is_suspect (m_upd f v) = is_suspect v"
  by (cases v; simp)+

lemma m_update_at:
  assumes "\<And>w. m (Hash v) = Some w \<Longrightarrow> n_Suspect (node_of w) = is_suspect w"
  shows "map_option node_of (m_update self p v m (Hash v)) = (case map_option node_of (m (Hash v)) of
      None \<Rightarrow> if n_Address v = self then None else Some v
    | Some w \<Rightarrow> Some (if n_Incarnation v < n_Incarnation w then w
        else w\<lparr>n_Incarnation := n_Incarnation v, n_Suspect := n_Suspect v\<rparr>))"
proof (cases "m (Hash v)")
  case None
  then show ?thesis by (simp add: m_update_def m_add_def new_member_def)
next
  case (Some w)
  with assms show ?thesis
    by (cases w) (auto simp: m_update_def m_write_def m_suspect_def m_stable_def)
qed

lemma m_update_other: "h \<noteq> Hash v \<Longrightarrow> m_update self p v m h = m h"
  by (auto simp: m_update_def m_add_def m_write_def m_suspect_def m_stable_def split: option.split member.split)

lemma UpdateOrCreate_result:
  assumes "nm_inv n"
  shows "(case NodeByHash (Hash v) (nm_list n) of
       None \<Rightarrow> NodeByHash (Hash v) (nm_list (UpdateOrCreate p v n))
         = (if n_Address v = selfAddr (nm_list n) then None else Some v)
     | Some w \<Rightarrow> NodeByHash (Hash v) (nm_list (UpdateOrCreate p v n))
         = Some (if n_Incarnation v < n_Incarnation w then w
             else w\<lparr>n_Incarnation := n_Incarnation v, n_Suspect := n_Suspect v\<rparr>))
    \<and> (\<forall>h. h \<noteq> Hash v \<longrightarrow> members (nm_list (UpdateOrCreate p v n)) h = members (nm_list n) h)"
proof -
  let ?m = "members (nm_list n)" and ?n' = "UpdateOrCreate p v n"
  have "nm_inv ?n'" using nm.step_inv [OF assms nm_UpdateOrCreate] .
  then have cons: "nl_cons (nm_list n)" "nl_cons (nm_list ?n')" using assms by (simp_all add: nm_inv_def nl_inv_def)
  have flag: "n_Suspect (node_of w) = is_suspect w" if "?m h = Some w" for h w
    using that assms by (auto simp: nm_inv_def nl_inv_def m_inv_def sound_def)
  have "map_option node_of (m_update (selfAddr (nm_list n)) p v ?m (Hash v)) = (case map_option node_of (?m (Hash v)) of
      None \<Rightarrow> if n_Address v = selfAddr (nm_list n) then None else Some v
    | Some w \<Rightarrow> Some (if n_Incarnation v < n_Incarnation w then w
        else w\<lparr>n_Incarnation := n_Incarnation v, n_Suspect := n_Suspect v\<rparr>))"
    by (rule m_update_at) (rule flag)
  then show ?thesis
    unfolding NodeByHash_members [OF cons(1)] NodeByHash_members [OF cons(2)] UpdateOrCreate_members [OF assms]
    by (cases "?m (Hash v)") (simp_all add: m_update_other)
qed

text \<open>C11: \<open>UpdateOrCreate\<close> on every branch. It adds an unknown node unless that is the instance itself,
  ignores older news about a known one, and otherwise gives the known node the incarnation and the
  state of the news; no other member changes.\<close>

theorem UpdateOrCreate_spec:
  assumes "nm_inv n"
  shows "(case NodeByHash (Hash v) (nm_list n) of
       None \<Rightarrow> NodeByHash (Hash v) (nm_list (UpdateOrCreate p v n))
         = (if n_Address v = selfAddr (nm_list n) then None else Some v)
     | Some w \<Rightarrow> NodeByHash (Hash v) (nm_list (UpdateOrCreate p v n))
         = Some (if n_Incarnation v < n_Incarnation w then w
             else w\<lparr>n_Incarnation := n_Incarnation v, n_Suspect := n_Suspect v\<rparr>))
    \<and> (\<forall>h. h \<noteq> Hash v \<longrightarrow> members (nm_list (UpdateOrCreate p v n)) h = members (nm_list n) h)"
  using assms by (rule UpdateOrCreate_result)

lemma example_nm_inv: "nm_inv \<lparr>nm_list = exampleList, nodesToPing = [], nm_selfAddr = hostIP 1\<rparr>"
  by (simp add: nm_inv_def example_inv)

lemma example_lookup: "NodeByHash (hostHash 2) exampleList = Some (host True 5 2)"
  by (simp add: NodeByHash_def example_maps)

theorem UpdateOrCreate_spec_witness:
  "NodeByHash (hostHash 2) (nm_list (UpdateOrCreate 9 (host False 6 2)
     \<lparr>nm_list = exampleList, nodesToPing = [], nm_selfAddr = hostIP 1\<rparr>)) = Some (host False 6 2)"
  using UpdateOrCreate_spec [OF example_nm_inv, of "host False 6 2" 9] by (simp add: example_lookup)

text \<open>\<open>grows m m'\<close>: every member is still one, at the same address, and its incarnation has not gone down.\<close>

definition grows :: "member_map \<Rightarrow> member_map \<Rightarrow> bool" where
  "grows m m' \<longleftrightarrow> (\<forall>h v. m h = Some v \<longrightarrow> (\<exists>v'. m' h = Some v'
     \<and> n_Incarnation (node_of v) \<le> n_Incarnation (node_of v') \<and> n_Address (node_of v') = n_Address (node_of v)))"

lemma grows_refl [simp]: "grows m m"
  by (simp add: grows_def)

lemma grows_trans:
  assumes ab: "grows a b" and bc: "grows b c"
  shows "grows a c"
  unfolding grows_def
proof (intro allI impI)
  fix h v
  assume "a h = Some v"
  then obtain w where w: "b h = Some w" "n_Incarnation (node_of v) \<le> n_Incarnation (node_of w)"
      "n_Address (node_of w) = n_Address (node_of v)"
    using ab by (auto simp: grows_def)
  then obtain u where "c h = Some u" "n_Incarnation (node_of w) \<le> n_Incarnation (node_of u)"
      "n_Address (node_of u) = n_Address (node_of w)"
    using bc unfolding grows_def by blast
  with w show "\<exists>v'. c h = Some v' \<and> n_Incarnation (node_of v) \<le> n_Incarnation (node_of v')
      \<and> n_Address (node_of v') = n_Address (node_of v)"
    by auto
qed

lemma grows_ops:
  "grows m (m_add self p v m)" "grows m (m_stable h m)" "grows m (m_suspect p r h m)"
  by (auto simp: grows_def m_add_def m_stable_def m_suspect_def split: option.split member.split)

lemma grows_write:
  "(\<And>w. m h = Some w \<Longrightarrow> n_Incarnation (node_of w) \<le> i) \<Longrightarrow> grows m (m_write h (setIncarnation i) m)"
  by (auto simp: grows_def m_write_def)

lemma grows_update: "grows m (m_update self p v m)"
  using grows_write [of m "Hash v" "n_Incarnation v"]
  by (auto simp: m_update_def grows_ops not_less intro: grows_trans [OF _ grows_ops(2)] grows_trans [OF _ grows_ops(3)]
      split: option.split)

lemma grows_bootstrap: "grows m (fold (m_add self p) vs m)"
  by (induction vs arbitrary: m) (auto intro: grows_trans grows_ops)

text \<open>The operations that neither remove a node nor wrap its incarnation.\<close>

fun gentle :: "nm_op \<Rightarrow> bool" where
  "gentle (NWrapIncarnation p v) = False"
| "gentle (NMarkFaulty h) = False"
| "gentle (NDelete h) = False"
| "gentle (NExpire c k) = False"
| "gentle _ = True"

lemma gentle_step: "nm_inv n \<Longrightarrow> nm_step l n n' \<Longrightarrow> gentle l \<Longrightarrow> grows (members (nm_list n)) (members (nm_list n'))"
proof (cases l)
  case (NUpdateOrCreate p v)
  assume "nm_inv n" and "nm_step l n n'"
  with NUpdateOrCreate show ?thesis
    by (auto simp: UpdateOrCreate_members grows_update elim: nm_stepE)
qed (auto simp: nm_step_members grows_ops grows_bootstrap)

text \<open>The operations that can remove the member filed under \<open>h\<close>, and those that wrap its incarnation.\<close>

fun removes :: "NodeHash \<Rightarrow> nm_op \<Rightarrow> bool" where
  "removes h (NMarkFaulty k) \<longleftrightarrow> k = h"
| "removes h (NDelete k) \<longleftrightarrow> k = h"
| "removes h (NExpire c k) \<longleftrightarrow> True"
| "removes h _ \<longleftrightarrow> False"

fun wraps :: "NodeHash \<Rightarrow> nm_op \<Rightarrow> bool" where
  "wraps h (NWrapIncarnation p v) \<longleftrightarrow> Hash v = h"
| "wraps h _ \<longleftrightarrow> False"

definition no_older :: "Node \<Rightarrow> Node \<Rightarrow> bool" where
  "no_older v v' \<longleftrightarrow> n_Incarnation v \<le> n_Incarnation v' \<and> n_Address v' = n_Address v"

lemma no_older_trans: "no_older u v \<Longrightarrow> no_older v w \<Longrightarrow> no_older u w"
  by (auto simp: no_older_def)

lemma op_on_member:
  assumes "nm_inv n" and "nm_step l n n'" and "\<not> wraps h l" and "members (nm_list n) h = Some v"
  shows "case members (nm_list n') h of None \<Rightarrow> removes h l | Some v' \<Rightarrow> no_older (node_of v) (node_of v')"
proof (cases "gentle l")
  case True
  with gentle_step [OF assms(1, 2)] assms(4) show ?thesis by (force simp: grows_def no_older_def)
next
  case False
  with assms(3, 4) show ?thesis
    unfolding nm_step_members [OF assms(1, 2)]
    by (cases l) (auto simp: no_older_def m_remove_def m_expire_def m_add_def m_stable_def m_write_def split: option.split member.split)
qed

text \<open>The run of \<open>ops\<close> from \<open>n\<close> to \<open>n'\<close> removes the member at some point.\<close>

definition removed_during :: "NodeHash \<Rightarrow> nodeManager \<Rightarrow> nm_op list \<Rightarrow> nodeManager \<Rightarrow> bool" where
  "removed_during h n ops n' \<longleftrightarrow> (\<exists>pre l post a b. ops = pre @ l # post \<and> removes h l
     \<and> trace nm_step n pre a \<and> NodeByHash h (nm_list a) \<noteq> None \<and> nm_step l a b \<and> NodeByHash h (nm_list b) = None
     \<and> trace nm_step b post n')"

lemma removed_during_Cons:
  assumes "nm_step l n t" and "removed_during h t ops n'"
  shows "removed_during h n (l # ops) n'"
proof -
  from assms(2) obtain pre l' post a b where "ops = pre @ l' # post" "removes h l'" "trace nm_step t pre a"
      "NodeByHash h (nm_list a) \<noteq> None" "nm_step l' a b" "NodeByHash h (nm_list b) = None" "trace nm_step b post n'"
    unfolding removed_during_def by blast
  with trace_Cons [of nm_step, OF assms(1)] show ?thesis
    unfolding removed_during_def by (intro exI [of _ "l # pre"] exI [of _ l'] exI [of _ post] exI [of _ a] exI [of _ b]) simp
qed

lemma member_fate:
  assumes "trace nm_step n ops n'" and "nm_inv n" and "list_all (\<lambda>l. \<not> wraps h l) ops"
    and "NodeByHash h (nm_list n) = Some v"
  shows "(\<exists>v'. NodeByHash h (nm_list n') = Some v' \<and> no_older v v') \<or> removed_during h n ops n'"
  using assms
proof (induction arbitrary: v rule: trace.induct)
  case (trace_Nil n)
  then show ?case by (simp add: no_older_def)
next
  case (trace_Cons l n t ops u)
  have inv: "nm_inv t" using trace_Cons nm.step_inv by blast
  then have cons: "nl_cons (nm_list n)" "nl_cons (nm_list t)" using trace_Cons.prems(1) by (simp_all add: nm_inv_def nl_inv_def)
  obtain w where w: "members (nm_list n) h = Some w" "v = node_of w"
    using trace_Cons.prems(3) by (auto simp: NodeByHash_members [OF cons(1)])
  have fate: "case members (nm_list t) h of None \<Rightarrow> removes h l | Some v' \<Rightarrow> no_older v (node_of v')"
    using op_on_member [OF trace_Cons.prems(1) trace_Cons.hyps(1) _ w(1)] trace_Cons.prems(2) unfolding w(2) by simp
  show ?case
  proof (cases "NodeByHash h (nm_list t)")
    case None
    then have "removes h l" using fate by (simp add: NodeByHash_members [OF cons(2)])
    with None trace_Cons have "removed_during h n (l # ops) u"
      unfolding removed_during_def by (intro exI [of _ "[]"] exI [of _ l] exI [of _ ops] exI [of _ n] exI [of _ t]) simp
    then show ?thesis ..
  next
    case (Some v1)
    then have "no_older v v1" using fate by (auto simp: NodeByHash_members [OF cons(2)])
    moreover have "list_all (\<lambda>l. \<not> wraps h l) ops" using trace_Cons.prems(2) by simp
    ultimately show ?thesis
      using trace_Cons.IH [OF inv _ Some] no_older_trans removed_during_Cons [OF trace_Cons.hyps(1)] by blast
  qed
qed

text \<open>C26: incarnations are monotonic. Through any sequence of operations of the manager, expiries and removals included, in which no Wrap
  of this member arrives, a known member is still known, at its address, with an incarnation that has not gone down; or some operation in the sequence
  removed it: it was declared faulty or deleted, or a suspicion learned from gossip expired. Operations on other members, wraps included, do not matter.\<close>

theorem incarnation_monotonic:
  assumes "trace nm_step n ops n'" and "nm_inv n" and "list_all (\<lambda>l. \<not> wraps h l) ops"
    and "NodeByHash h (nm_list n) = Some v"
  shows "(\<exists>v'. NodeByHash h (nm_list n') = Some v' \<and> n_Incarnation v \<le> n_Incarnation v' \<and> n_Address v' = n_Address v)
    \<or> removed_during h n ops n'"
  using member_fate [OF assms] by (simp add: no_older_def)

theorem incarnation_monotonic_witness:
  "(\<exists>v'. NodeByHash (hostHash 2) (nm_list (UpdateOrCreate 9 (host False 6 2)
       \<lparr>nm_list = exampleList, nodesToPing = [], nm_selfAddr = hostIP 1\<rparr>)) = Some v'
     \<and> n_Incarnation (host True 5 2) \<le> n_Incarnation v' \<and> n_Address v' = n_Address (host True 5 2))
   \<or> removed_during (hostHash 2) \<lparr>nm_list = exampleList, nodesToPing = [], nm_selfAddr = hostIP 1\<rparr> [NUpdateOrCreate 9 (host False 6 2)]
      (UpdateOrCreate 9 (host False 6 2) \<lparr>nm_list = exampleList, nodesToPing = [], nm_selfAddr = hostIP 1\<rparr>)"
proof (rule incarnation_monotonic)
  show "trace nm_step \<lparr>nm_list = exampleList, nodesToPing = [], nm_selfAddr = hostIP 1\<rparr> [NUpdateOrCreate 9 (host False 6 2)]
      (UpdateOrCreate 9 (host False 6 2) \<lparr>nm_list = exampleList, nodesToPing = [], nm_selfAddr = hostIP 1\<rparr>)"
    by (rule trace_Cons nm_UpdateOrCreate trace_Nil)+
qed (simp_all add: example_nm_inv example_lookup)

text \<open>\<open>MarkFaulty\<close> never panics. It removes the node from the member list and from the ping list, and
  changes nothing else about either.\<close>

lemma MarkFaulty_forgets:
  assumes "nm_inv n"
  shows "\<exists>n'. nodeManager_MarkFaulty h n = Some n' \<and> NodeByHash h (nm_list n') = None
    \<and> members (nm_list n') = (members (nm_list n))(h := None)
    \<and> nodesToPing n' = filter (\<lambda>k. k \<noteq> h) (nodesToPing n)"
proof -
  have cons: "nl_cons (nm_list n)" and dist: "distinct (nodesToPing n)" using assms by (simp_all add: nm_inv_def nl_inv_def)
  have "remove1 h (nodesToPing n) = filter (\<lambda>k. k \<noteq> h) (nodesToPing n)"
    using dist by (simp add: distinct_remove1_removeAll removeAll_filter_not_eq) (metis (mono_tags))
  then show ?thesis
    using cons by (simp add: MarkFaulty_result MarkFaulty_def unsafeMarkFaulty_put NodeByHash_members nl_cons_put members_put)
qed

lemma MarkFaulty_forgets_witness:
  "\<exists>n'. nodeManager_MarkFaulty (hostHash 2) exampleManager = Some n' \<and> NodeByHash (hostHash 2) (nm_list n') = None
    \<and> members (nm_list n') = (members (nm_list exampleManager))(hostHash 2 := None)
    \<and> nodesToPing n' = filter (\<lambda>k. k \<noteq> hostHash 2) (nodesToPing exampleManager)"
  by (rule MarkFaulty_forgets) (simp add: nm_inv_def example_inv example_ping)

end
