(* ===== verification/Invalidation.thy ===== *)
theory Invalidation
  imports Proto_Event
begin

text \<open>
  \<open>internal/proto/invalidation.go\<close>: when an incoming event replaces the event the gossip queue
  holds about the same subject. Each \<open>Invalidates\<close> method switches on the kind of the current
  event and panics when no case matches; \<open>None\<close> is that panic.

  The abstract specification is \<open>beats\<close>: a table of four rules over the seven kinds, as the
  comments above the methods give it. The lemmas show that the methods implement the table, that
  the panic is unreachable, that a newer incarnation always wins among events that are not Faulty,
  and exactly which pairs of events invalidate each other.
\<close>

subsection \<open>The methods\<close>

definition Alive_Invalidates :: "Alive \<Rightarrow> Event \<Rightarrow> bool option" where
  "Alive_Invalidates a current =
     (if Event_EventKind current \<in> {EventSuspect, EventAlive, EventJoin, EventHealthy, EventLeft, EventWrap, EventFaulty}
      then Some (s_Incarnation a > GetIncarnation (ev_Payload current))
      else None)"

definition Suspect_Invalidates :: "Suspect \<Rightarrow> Event \<Rightarrow> bool option" where
  "Suspect_Invalidates s current =
     (if Event_EventKind current \<in> {EventSuspect, EventFaulty, EventLeft}
      then Some (e_Incarnation s > GetIncarnation (ev_Payload current))
      else if Event_EventKind current \<in> {EventAlive, EventJoin, EventHealthy, EventWrap}
      then Some (e_Incarnation s \<ge> GetIncarnation (ev_Payload current))
      else None)"

definition Faulty_Invalidates :: "Faulty \<Rightarrow> Event \<Rightarrow> bool option" where
  "Faulty_Invalidates f current =
     (if Event_EventKind current \<in> {EventSuspect, EventAlive, EventJoin, EventHealthy, EventLeft, EventWrap, EventFaulty}
      then Some True
      else None)"

definition Join_Invalidates :: "Join \<Rightarrow> Event \<Rightarrow> bool option" where
  "Join_Invalidates j current =
     (if Event_EventKind current \<in> {EventAlive, EventSuspect, EventJoin, EventHealthy, EventLeft, EventWrap}
      then Some (e_Incarnation j > GetIncarnation (ev_Payload current))
      else if Event_EventKind current = EventFaulty then Some False
      else None)"

definition Healthy_Invalidates :: "Healthy \<Rightarrow> Event \<Rightarrow> bool option" where
  "Healthy_Invalidates h current =
     (if Event_EventKind current \<in> {EventSuspect, EventJoin}
      then Some (e_Incarnation h \<ge> GetIncarnation (ev_Payload current))
      else if Event_EventKind current \<in> {EventAlive, EventHealthy, EventLeft, EventWrap}
      then Some (e_Incarnation h > GetIncarnation (ev_Payload current))
      else if Event_EventKind current = EventFaulty then Some False
      else None)"

definition Left_Invalidates :: "Left \<Rightarrow> Event \<Rightarrow> bool option" where
  "Left_Invalidates l current =
     (if Event_EventKind current = EventLeft
      then Some (s_Incarnation l > GetIncarnation (ev_Payload current))
      else if Event_EventKind current \<in> {EventSuspect, EventJoin, EventAlive, EventHealthy, EventWrap}
      then Some (s_Incarnation l \<ge> GetIncarnation (ev_Payload current))
      else if Event_EventKind current = EventFaulty then Some False
      else None)"

definition Wrap_Invalidates :: "Wrap \<Rightarrow> Event \<Rightarrow> bool option" where
  "Wrap_Invalidates w current =
     (if Event_EventKind current \<in> {EventLeft, EventWrap}
      then Some (w_Incarnation w > GetIncarnation (ev_Payload current))
      else if Event_EventKind current \<in> {EventAlive, EventSuspect, EventJoin, EventHealthy}
      then Some (w_Incarnation w \<ge> GetIncarnation (ev_Payload current))
      else if Event_EventKind current = EventFaulty then Some False
      else None)"

fun Invalidates :: "EventEncoder \<Rightarrow> Event \<Rightarrow> bool option" where
  "Invalidates (PAlive a) current = Alive_Invalidates a current"
| "Invalidates (PSuspect s) current = Suspect_Invalidates s current"
| "Invalidates (PFaulty f) current = Faulty_Invalidates f current"
| "Invalidates (PJoin j) current = Join_Invalidates j current"
| "Invalidates (PHealthy h) current = Healthy_Invalidates h current"
| "Invalidates (PLeft l) current = Left_Invalidates l current"
| "Invalidates (PWrap w) current = Wrap_Invalidates w current"

lemmas invalidates_defs = Alive_Invalidates_def Suspect_Invalidates_def Faulty_Invalidates_def
  Join_Invalidates_def Healthy_Invalidates_def Left_Invalidates_def Wrap_Invalidates_def Event_EventKind_def

subsection \<open>The table\<close>

datatype rule = Newer | NewerOrSame | Always | Never

fun applies :: "rule \<Rightarrow> u16 \<Rightarrow> u16 \<Rightarrow> bool" where
  "applies Newer i j = (j < i)"
| "applies NewerOrSame i j = (j \<le> i)"
| "applies Always i j = True"
| "applies Never i j = False"

text \<open>\<open>table k k'\<close> is the rule under which an event of kind \<open>k\<close> replaces one of kind \<open>k'\<close>.\<close>

definition table :: "EventKind \<Rightarrow> EventKind \<Rightarrow> rule" where
  "table k k' =
     (if k = EventFaulty then Always
      else if k = EventAlive then Newer
      else if k' = EventFaulty then (if k = EventSuspect then Newer else Never)
      else if k = EventSuspect then (if k' \<in> {EventSuspect, EventLeft} then Newer else NewerOrSame)
      else if k = EventJoin then Newer
      else if k = EventHealthy then (if k' \<in> {EventSuspect, EventJoin} then NewerOrSame else Newer)
      else if k = EventLeft then (if k' = EventLeft then Newer else NewerOrSame)
      else (if k' \<in> {EventLeft, EventWrap} then Newer else NewerOrSame))"

definition beats :: "EventEncoder \<Rightarrow> EventEncoder \<Rightarrow> bool" where
  "beats p q = applies (table (Kind p) (Kind q)) (GetIncarnation p) (GetIncarnation q)"

lemma Invalidates_beats: "Invalidates p current = Some (beats p (ev_Payload current))"
  by (cases p; cases "ev_Payload current")
    (simp_all add: invalidates_defs beats_def table_def)

text \<open>The pairs that invalidate each other: the newer of the two may be either.\<close>

definition contested :: "EventEncoder \<Rightarrow> EventEncoder \<Rightarrow> bool" where
  "contested p q \<longleftrightarrow>
     Kind p = EventSuspect \<and> Kind q \<in> {EventHealthy, EventWrap} \<and> GetIncarnation p = GetIncarnation q
   \<or> Kind p = EventFaulty \<and> Kind q \<in> {EventAlive, EventSuspect} \<and> GetIncarnation p < GetIncarnation q
   \<or> Kind p = EventFaulty \<and> Kind q = EventFaulty"

lemma beats_both: "beats p q \<and> beats q p \<longleftrightarrow> contested p q \<or> contested q p"
  by (cases p; cases q) (auto simp: beats_def table_def contested_def)

lemma beats_newer:
  "Kind q \<noteq> EventFaulty \<Longrightarrow> GetIncarnation q < GetIncarnation p \<Longrightarrow> beats p q"
  by (cases p; cases q) (auto simp: beats_def table_def)

lemma beats_older:
  "Kind p \<noteq> EventFaulty \<Longrightarrow> beats p q \<Longrightarrow> GetIncarnation q \<le> GetIncarnation p"
  by (cases p; cases q) (auto simp: beats_def table_def)

lemma beats_self: "Kind p \<noteq> EventFaulty \<Longrightarrow> \<not> beats p p"
  by (cases p) (auto simp: beats_def table_def)

lemma beats_faulty:
  "Kind q = EventFaulty \<Longrightarrow> beats p q \<longleftrightarrow>
     Kind p = EventFaulty \<or> Kind p \<in> {EventAlive, EventSuspect} \<and> GetIncarnation q < GetIncarnation p"
  by (cases p; cases q) (auto simp: beats_def table_def)

subsection \<open>Properties\<close>

text \<open>C23: the seven methods implement the table the comments document, and none of them reaches its panic:
  for every incoming payload and every current event, \<open>Invalidates\<close> returns what the table says.\<close>

theorem Invalidates_table:
  "Invalidates p current = Some (applies (table (Kind p) (Event_EventKind current)) (GetIncarnation p)
     (GetIncarnation (ev_Payload current)))"
  by (simp add: Invalidates_beats beats_def Event_EventKind_def)

text \<open>Among events that are not Faulty the newer incarnation wins: it replaces the older one, and
  the older one never replaces it.\<close>

lemma newer_incarnation_wins:
  assumes "Kind p \<noteq> EventFaulty" and "Kind q \<noteq> EventFaulty" and "GetIncarnation q < GetIncarnation p"
  shows "Invalidates p \<lparr>ev_Payload = q\<rparr> = Some True \<and> Invalidates q \<lparr>ev_Payload = p\<rparr> = Some False"
  using beats_newer [OF assms(2, 3)] beats_older [OF assms(2), of p] assms(3) by (auto simp: Invalidates_beats)

text \<open>The pairs of events that replace each other, so that the order of arrival decides, are exactly
  these: a Suspect and a Healthy or a Wrap of the same incarnation, a Faulty and a newer Alive or Suspect,
  and two Faulty events. For every other pair the relation is asymmetric.\<close>

lemma mutual_invalidation:
  "(Invalidates p \<lparr>ev_Payload = q\<rparr> = Some True \<and> Invalidates q \<lparr>ev_Payload = p\<rparr> = Some True)
     \<longleftrightarrow> contested p q \<or> contested q p"
  by (simp add: Invalidates_beats beats_both)

end
