(* ===== verification/Gossip_Manager.thy ===== *)
theory Gossip_Manager
  imports Invalidation Transition_System
begin

text \<open>
  \<open>internal/core/gossip_manager.go\<close>: the queue of events to piggyback, each with the number of
  transmissions left. The queue holds pointers to items of its own, so it is a list of items here,
  and \<open>findEventByNode\<close> returns the position of the item Go returns a pointer to.

  \<open>slices.SortFunc\<close> is the parameter \<open>srt\<close>: its documentation promises a sorted permutation and leaves
  the order of equal elements open, which is what \<open>sorts srt\<close> says. Transmission counters are
  integers; a Go \<open>int\<close> would take 2^63 transmissions to wrap.

  The invariant \<open>gm_inv\<close> is that the queue holds one event per subject. The abstract specification of
  \<open>Add\<close> is a map from subjects to events, changed by \<open>beats\<close>.
\<close>

subsection \<open>The manager\<close>

record gossipItem =
  First :: Event
  Second :: int

record gossipManager =
  gm_queue :: "gossipItem list"
  maxTx :: int

type_synonym sorter = "gossipItem list \<Rightarrow> gossipItem list"

definition NewGossipManager :: "int \<Rightarrow> gossipManager" where
  "NewGossipManager n = \<lparr>gm_queue = [], maxTx = n\<rparr>"

definition CurrentGossips :: "gossipManager \<Rightarrow> Event list" where
  "CurrentGossips g = map First (gm_queue g)"

definition subject :: "gossipItem \<Rightarrow> IP" where
  "subject v = GetSubject (ev_Payload (First v))"

fun LastGossipAbout_loop :: "IP \<Rightarrow> gossipItem list \<Rightarrow> Event option" where
  "LastGossipAbout_loop ip [] = None"
| "LastGossipAbout_loop ip (v # q) =
     (if IP_Equal (GetSubject (ev_Payload (First v))) (Some ip) then Some (First v) else LastGossipAbout_loop ip q)"

definition LastGossipAbout :: "IP \<Rightarrow> gossipManager \<Rightarrow> Event option" where
  "LastGossipAbout ip g = LastGossipAbout_loop ip (gm_queue g)"

definition reorder :: "sorter \<Rightarrow> gossipManager \<Rightarrow> gossipManager" where
  "reorder srt g = g\<lparr>gm_queue := srt (gm_queue g)\<rparr>"

fun findEventByNode :: "IP \<Rightarrow> gossipItem list \<Rightarrow> nat option" where
  "findEventByNode itemSubject [] = None"
| "findEventByNode itemSubject (v # q) =
     (if IP_Equal (GetSubject (ev_Payload (First v))) (Some itemSubject) then Some 0
      else map_option Suc (findEventByNode itemSubject q))"

text \<open>What the second function of \<open>autoReorder\<close> does when it is deferred to the end of an operation: the queue is sorted if the first, which
  signals a change, has been called by then.\<close>

definition autoReorder :: "sorter \<Rightarrow> bool \<Rightarrow> gossipManager \<Rightarrow> gossipManager" where
  "autoReorder srt changed g = (if changed then reorder srt g else g)"

lemma autoReorder_simps [simp]: "autoReorder srt True g = reorder srt g" "autoReorder srt False g = g"
  by (simp_all add: autoReorder_def)

text \<open>\<open>None\<close> is the panic of \<open>Invalidates\<close>.\<close>

definition gossipManager_Add :: "sorter \<Rightarrow> Event \<Rightarrow> gossipManager \<Rightarrow> gossipManager option" where
  "gossipManager_Add srt item g = (case findEventByNode (GetSubject (ev_Payload item)) (gm_queue g) of
     Some i \<Rightarrow> do {
       inv \<leftarrow> Invalidates (ev_Payload item) (First (gm_queue g ! i));
       if \<not> inv then Some (autoReorder srt False g)
       else Some (autoReorder srt True (g\<lparr>gm_queue := (gm_queue g)[i := \<lparr>First = item, Second = 0\<rparr>]\<rparr>))
     }
   | None \<Rightarrow> Some (autoReorder srt True (g\<lparr>gm_queue := gm_queue g @ [\<lparr>First = item, Second = maxTx g\<rparr>]\<rparr>)))"

text \<open>The loop of \<open>Next\<close> from position \<open>i\<close> on: the events taken, the positions recorded for removal, and
  the rest of the queue with its counters.\<close>

fun Next_loop :: "int \<Rightarrow> nat \<Rightarrow> int \<Rightarrow> gossipItem list \<Rightarrow> Event list \<times> nat list \<times> gossipItem list" where
  "Next_loop maxLength i currentLen [] = ([], [], [])"
| "Next_loop maxLength i currentLen (v # q) =
     (let eventSize = int (Event_RequiredSize (First v)) in
      if currentLen + eventSize > maxLength then ([], [], v # q)
      else let (items, idx, q) = Next_loop maxLength (Suc i) (currentLen + eventSize) q in
        if Second v = 1 then (First v # items, i # idx, v # q)
        else (First v # items, idx, v\<lparr>Second := Second v - 1\<rparr> # q))"

text \<open>The removal loop counts \<open>i\<close> down from the last recorded position to the first, and deletes at \<open>i\<close>
  itself, not at the position recorded there.\<close>

fun Next_remove :: "nat \<Rightarrow> gossipItem list \<Rightarrow> gossipItem list option" where
  "Next_remove 0 q = Some q"
| "Next_remove (Suc i) q = do { q \<leftarrow> slices_Delete q i (i + 1); Next_remove i q }"

definition gossipManager_Next :: "sorter \<Rightarrow> int \<Rightarrow> gossipManager \<Rightarrow> (Event list \<times> gossipManager) option" where
  "gossipManager_Next srt maxLength g =
     (let (items, indexesToRemove, q) = Next_loop maxLength 0 0 (gm_queue g);
          g = g\<lparr>gm_queue := q\<rparr>
      in if length indexesToRemove > 0 then do {
           q \<leftarrow> Next_remove (length indexesToRemove) (gm_queue g);
           Some (items, autoReorder srt True (g\<lparr>gm_queue := q\<rparr>))
         }
         else Some (items, autoReorder srt False g))"

definition AdjustMaxTransmission :: "int \<Rightarrow> gossipManager \<Rightarrow> gossipManager" where
  "AdjustMaxTransmission n g = (if n = maxTx g then g else g\<lparr>maxTx := n\<rparr>)"

subsection \<open>Sorting\<close>

definition sorts :: "sorter \<Rightarrow> bool" where
  "sorts srt \<longleftrightarrow> (\<forall>q. mset (srt q) = mset q \<and> sorted_wrt (\<lambda>a b. Second b \<le> Second a) (srt q))"

lemma sorts_perm: "sorts srt \<Longrightarrow> mset (srt q) = mset q"
  unfolding sorts_def by blast

lemma sorts_set: "sorts srt \<Longrightarrow> set (srt q) = set q"
  by (rule mset_eq_setD) (rule sorts_perm)

lemma sorts_desc: "sorts srt \<Longrightarrow> sorted_wrt (\<lambda>a b. Second b \<le> Second a) (srt q)"
  unfolding sorts_def by blast

text \<open>An implementation, for the witnesses.\<close>

definition sortDesc :: sorter where
  "sortDesc q = sort_key (\<lambda>v. - Second v) q"

lemma sortDesc_sorts: "sorts sortDesc"
proof -
  have "sorted (map (\<lambda>v. - Second v) (sortDesc q))" for q by (simp add: sortDesc_def)
  then show ?thesis by (simp add: sorts_def sortDesc_def sorted_map sorted_wrt_iff_nth_less)
qed

subsection \<open>One event per subject\<close>

definition gm_inv :: "gossipManager \<Rightarrow> bool" where
  "gm_inv g \<longleftrightarrow> distinct (map subject (gm_queue g))"

lemma distinct_subjects_perm: "mset q = mset q' \<Longrightarrow> distinct (map subject q) = distinct (map subject q')"
  by (metis mset_eq_imp_distinct_iff mset_map)

lemma distinct_subjects_sort: "sorts srt \<Longrightarrow> distinct (map subject (srt q)) = distinct (map subject q)"
  by (rule distinct_subjects_perm) (rule sorts_perm)

lemma findEventByNode_None: "findEventByNode s q = None \<longleftrightarrow> s \<notin> subject ` set q"
  by (induction q) (auto simp: subject_def)

lemma findEventByNode_Some: "findEventByNode s q = Some i \<Longrightarrow> i < length q \<and> subject (q ! i) = s"
  by (induction q arbitrary: i) (auto simp: subject_def split: if_splits)

lemma Next_remove_drop: "n \<le> length q \<Longrightarrow> Next_remove n q = Some (drop n q)"
proof (induction n arbitrary: q)
  case 0
  then show ?case by simp
next
  case (Suc n)
  then have "slices_Delete q n (n + 1) = Some (take n q @ drop (Suc n) q)" by (simp add: slices_Delete_def)
  with Suc show ?case by simp
qed

subsection \<open>What Next takes\<close>

fun taken :: "int \<Rightarrow> int \<Rightarrow> gossipItem list \<Rightarrow> nat" where
  "taken maxLength len [] = 0"
| "taken maxLength len (v # q) = (if len + int (Event_RequiredSize (First v)) > maxLength then 0
     else Suc (taken maxLength (len + int (Event_RequiredSize (First v))) q))"

definition spend :: "gossipItem \<Rightarrow> gossipItem" where
  "spend v = (if Second v = 1 then v else v\<lparr>Second := Second v - 1\<rparr>)"

abbreviation exhausted :: "gossipItem \<Rightarrow> bool" where
  "exhausted v \<equiv> Second v = 1"

lemma First_spend [simp]: "First (spend v) = First v"
  by (simp add: spend_def)

lemma subject_spend [simp]: "subject (spend v) = subject v"
  by (simp add: subject_def)

lemma taken_le: "taken L c q \<le> length q"
  by (induction L c q rule: taken.induct) auto

lemma Next_loop_spec:
  "fst (Next_loop L i c q) = map First (take (taken L c q) q)"
  "length (fst (snd (Next_loop L i c q))) = length (filter exhausted (take (taken L c q) q))"
  "snd (snd (Next_loop L i c q)) = map spend (take (taken L c q) q) @ drop (taken L c q) q"
  by (induction L i c q rule: Next_loop.induct) (auto simp: Let_def spend_def split: prod.splits)

text \<open>\<open>Next\<close> never panics. The events it returns are a prefix of the queue, and when \<open>n\<close> of them are
  exhausted it deletes the first \<open>n\<close> items of the queue.\<close>

definition spent :: "int \<Rightarrow> gossipItem list \<Rightarrow> gossipItem list" where
  "spent L q = map spend (take (taken L 0 q) q) @ drop (taken L 0 q) q"

definition exhausted_count :: "int \<Rightarrow> gossipItem list \<Rightarrow> nat" where
  "exhausted_count L q = length (filter exhausted (take (taken L 0 q) q))"

lemma length_spent [simp]: "length (spent L q) = length q"
  using taken_le [of L 0 q] by (simp add: spent_def)

lemma exhausted_count_le: "exhausted_count L q \<le> length q"
  unfolding exhausted_count_def by (metis length_filter_le length_take min.bounded_iff)

lemma Next_result:
  "gossipManager_Next srt L g = Some (map First (take (taken L 0 (gm_queue g)) (gm_queue g)),
     if exhausted_count L (gm_queue g) = 0 then g\<lparr>gm_queue := spent L (gm_queue g)\<rparr>
     else g\<lparr>gm_queue := srt (drop (exhausted_count L (gm_queue g)) (spent L (gm_queue g)))\<rparr>)"
proof -
  obtain items idx q where loop: "Next_loop L 0 0 (gm_queue g) = (items, idx, q)" by (cases "Next_loop L 0 0 (gm_queue g)") auto
  have "items = map First (take (taken L 0 (gm_queue g)) (gm_queue g))"
    and "length idx = exhausted_count L (gm_queue g)" and "q = spent L (gm_queue g)"
    using Next_loop_spec [where L = L and i = 0 and c = 0 and q = "gm_queue g"] loop
    by (simp_all add: spent_def exhausted_count_def)
  then show ?thesis
    using loop exhausted_count_le [of L "gm_queue g"]
    by (auto simp: gossipManager_Next_def Next_remove_drop reorder_def Let_def)
qed

lemma subjects_spent: "map subject (spent L q) = map subject q"
  by (simp add: spent_def comp_def) (metis append_take_drop_id map_append)

lemma taken_size: "c \<le> L \<Longrightarrow> c + (\<Sum>v\<leftarrow>take (taken L c q) q. int (Event_RequiredSize (First v))) \<le> L"
  by (induction L c q rule: taken.induct) (auto simp: add.assoc)

lemma taken_negative: "L < 0 \<Longrightarrow> taken L 0 q = 0"
  by (cases q) auto

subsection \<open>The manager as a transition system\<close>

datatype gm_op = GAdd Event | GNext int | GAdjust int

inductive gm_step :: "sorter \<Rightarrow> gm_op \<Rightarrow> gossipManager \<Rightarrow> gossipManager \<Rightarrow> bool" for srt where
  gm_Add: "gossipManager_Add srt e g = Some g' \<Longrightarrow> gm_step srt (GAdd e) g g'"
| gm_Next: "gossipManager_Next srt L g = Some (es, g') \<Longrightarrow> gm_step srt (GNext L) g g'"
| gm_Adjust: "gm_step srt (GAdjust n) g (AdjustMaxTransmission n g)"

inductive_cases gm_stepE: "gm_step srt l g g'"

text \<open>\<open>Add\<close> in terms of the position found: it cannot panic.\<close>

lemma Add_result:
  "gossipManager_Add srt e g = Some (case findEventByNode (GetSubject (ev_Payload e)) (gm_queue g) of
     None \<Rightarrow> g\<lparr>gm_queue := srt (gm_queue g @ [\<lparr>First = e, Second = maxTx g\<rparr>])\<rparr>
   | Some i \<Rightarrow> if beats (ev_Payload e) (ev_Payload (First (gm_queue g ! i)))
       then g\<lparr>gm_queue := srt ((gm_queue g)[i := \<lparr>First = e, Second = 0\<rparr>])\<rparr> else g)"
  by (simp add: gossipManager_Add_def Invalidates_beats reorder_def split: option.split)

lemma distinct_replace:
  assumes "distinct (map subject q)" and "i < length q" and "subject v = subject (q ! i)"
  shows "distinct (map subject (q[i := v]))"
  using assms by (simp add: map_update) (metis list_update_id length_map nth_map)

lemma gm_inv_Add:
  assumes "sorts srt" and "gm_inv g" and "gossipManager_Add srt e g = Some g'"
  shows "gm_inv g'"
proof (cases "findEventByNode (GetSubject (ev_Payload e)) (gm_queue g)")
  case None
  then have "GetSubject (ev_Payload e) \<notin> subject ` set (gm_queue g)" by (simp add: findEventByNode_None)
  with None assms show ?thesis
    by (auto simp: Add_result gm_inv_def distinct_subjects_sort) (simp add: subject_def)
next
  case (Some i)
  then have "i < length (gm_queue g)" "subject (gm_queue g ! i) = GetSubject (ev_Payload e)"
    using findEventByNode_Some by blast+
  then have "distinct (map subject ((gm_queue g)[i := \<lparr>First = e, Second = 0\<rparr>]))"
    using assms(2) by (intro distinct_replace) (simp_all add: gm_inv_def subject_def)
  with Some assms show ?thesis
    by (auto simp: Add_result gm_inv_def distinct_subjects_sort)
qed

lemma gm_inv_Next:
  assumes "sorts srt" and "gm_inv g" and "gossipManager_Next srt L g = Some (es, g')"
  shows "gm_inv g'"
  using assms
  by (auto simp: Next_result gm_inv_def distinct_subjects_sort drop_map subjects_spent split: if_splits
      simp flip: drop_map)

lemma gm_inv_sorted: "sorts srt \<Longrightarrow> gm_inv (g\<lparr>gm_queue := srt q\<rparr>) \<longleftrightarrow> distinct (map subject q)"
  by (simp add: gm_inv_def distinct_subjects_sort)

lemma gm_inv_Adjust: "gm_inv (AdjustMaxTransmission n g) = gm_inv g"
  by (simp add: AdjustMaxTransmission_def gm_inv_def)

lemma gm_invariant: "sorts srt \<Longrightarrow> invariant (gm_step srt) gm_inv"
  by unfold_locales (auto elim!: gm_stepE intro: gm_inv_Add gm_inv_Next simp: gm_inv_Adjust)

interpretation gm: invariant "gm_step sortDesc" gm_inv
  using sortDesc_sorts by (rule gm_invariant)

subsection \<open>The events known about a subject\<close>

lemma LastGossipAbout_iff:
  "distinct (map subject q) \<Longrightarrow> LastGossipAbout_loop s q = Some e \<longleftrightarrow> (\<exists>v \<in> set q. subject v = s \<and> First v = e)"
proof (induction q)
  case Nil
  then show ?case by simp
next
  case (Cons v q)
  then have "subject v \<notin> subject ` set q" by simp
  then have other: "\<forall>w \<in> set q. subject w \<noteq> subject v" by (metis imageI)
  have "LastGossipAbout_loop s (v # q) = (if subject v = s then Some (First v) else LastGossipAbout_loop s q)"
    by (simp add: subject_def)
  with Cons other show ?case by (auto simp del: LastGossipAbout_loop.simps)
qed

lemma option_eq_by_Some: "(\<And>x. a = Some x \<longleftrightarrow> b = Some x) \<Longrightarrow> a = b"
  by (cases a; cases b) auto

lemma LastGossipAbout_set:
  assumes "distinct (map subject q)" and "distinct (map subject q')"
    and "\<And>e. (\<exists>v \<in> set q. subject v = s \<and> First v = e) \<longleftrightarrow> (\<exists>v \<in> set q'. subject v = s \<and> First v = e)"
  shows "LastGossipAbout_loop s q = LastGossipAbout_loop s q'"
  by (rule option_eq_by_Some) (simp add: LastGossipAbout_iff assms)

lemma LastGossipAbout_sort:
  assumes "sorts srt" and "distinct (map subject q)"
  shows "LastGossipAbout_loop s (srt q) = LastGossipAbout_loop s q"
  using assms by (intro LastGossipAbout_set) (simp_all add: distinct_subjects_sort sorts_set)

lemma LastGossipAbout_append:
  "LastGossipAbout_loop s (q @ [v]) = (case LastGossipAbout_loop s q of Some e \<Rightarrow> Some e
     | None \<Rightarrow> if subject v = s then Some (First v) else None)"
  by (induction q) (auto simp: subject_def)

lemma LastGossipAbout_find:
  "LastGossipAbout_loop s q = map_option (\<lambda>i. First (q ! i)) (findEventByNode s q)"
  by (induction q) (auto simp: option.map_comp comp_def)

lemma findEventByNode_update:
  "i < length q \<Longrightarrow> subject v = subject (q ! i) \<Longrightarrow> findEventByNode s (q[i := v]) = findEventByNode s q"
  by (induction q arbitrary: i) (auto simp: subject_def split: nat.splits)

lemma Last_new:
  assumes "sorts srt" and "distinct (map subject (q @ [v]))" and "findEventByNode (subject v) q = None"
  shows "LastGossipAbout_loop s (srt (q @ [v])) = (if s = subject v then Some (First v) else LastGossipAbout_loop s q)"
proof -
  have "LastGossipAbout_loop s (srt (q @ [v])) = LastGossipAbout_loop s (q @ [v])"
    using assms(1, 2) by (rule LastGossipAbout_sort)
  moreover have "LastGossipAbout_loop (subject v) q = None" by (simp add: LastGossipAbout_find assms(3))
  ultimately show ?thesis by (auto simp: LastGossipAbout_append split: option.split)
qed

lemma Last_replace:
  assumes "sorts srt" and "distinct (map subject (q[i := v]))" and "findEventByNode (subject v) q = Some i"
  shows "LastGossipAbout_loop s (srt (q[i := v])) = (if s = subject v then Some (First v) else LastGossipAbout_loop s q)"
proof -
  have i: "i < length q" "subject v = subject (q ! i)" using findEventByNode_Some [OF assms(3)] by simp_all
  have "LastGossipAbout_loop s (srt (q[i := v])) = LastGossipAbout_loop s (q[i := v])"
    using assms(1, 2) by (rule LastGossipAbout_sort)
  also have "\<dots> = map_option (\<lambda>j. First (q[i := v] ! j)) (findEventByNode s q)"
    by (simp add: LastGossipAbout_find findEventByNode_update [OF i])
  finally have "LastGossipAbout_loop s (srt (q[i := v])) = map_option (\<lambda>j. First (q[i := v] ! j)) (findEventByNode s q)" .
  moreover have "j = i \<longleftrightarrow> s = subject v" if "findEventByNode s q = Some j" for j
    using that assms(3) findEventByNode_Some [OF that] i(2) by (metis option.inject)
  ultimately show ?thesis
    using assms(3) i(1) by (cases "findEventByNode s q") (auto simp: LastGossipAbout_find)
qed

lemma Add_spec:
  assumes "sorts srt" and "gm_inv g"
  shows "\<exists>g'. gossipManager_Add srt e g = Some g' \<and> gm_inv g'
    \<and> (\<forall>s. LastGossipAbout s g' =
        (if s = GetSubject (ev_Payload e) \<and> (case LastGossipAbout s g of None \<Rightarrow> True
             | Some old \<Rightarrow> Invalidates (ev_Payload e) old = Some True)
         then Some e else LastGossipAbout s g))"
proof -
  let ?q = "gm_queue g" and ?s = "GetSubject (ev_Payload e)"
  obtain g' where g': "gossipManager_Add srt e g = Some g'" by (simp add: Add_result)
  have inv: "gm_inv g'" using gm_inv_Add [OF assms g'] .
  have subj: "subject \<lparr>First = e, Second = n\<rparr> = ?s" for n by (simp add: subject_def)
  have known: "LastGossipAbout ?s g = map_option (\<lambda>i. First (?q ! i)) (findEventByNode ?s ?q)"
    by (simp add: LastGossipAbout_def LastGossipAbout_find)
  have "LastGossipAbout s g' = (if s = ?s \<and> (case LastGossipAbout s g of None \<Rightarrow> True
      | Some old \<Rightarrow> Invalidates (ev_Payload e) old = Some True) then Some e else LastGossipAbout s g)" for s
  proof (cases "findEventByNode ?s ?q")
    case None
    let ?v = "\<lparr>First = e, Second = maxTx g\<rparr>"
    have new: "g' = g\<lparr>gm_queue := srt (?q @ [?v])\<rparr>" using g' None by (simp add: Add_result)
    have "distinct (map subject (?q @ [?v]))"
      using inv unfolding new gm_inv_sorted [OF assms(1)] .
    from Last_new [OF assms(1) this, of s] None known new subj show ?thesis
      by (auto simp: LastGossipAbout_def)
  next
    case (Some i)
    let ?v = "\<lparr>First = e, Second = 0\<rparr>"
    show ?thesis
    proof (cases "beats (ev_Payload e) (ev_Payload (First (?q ! i)))")
      case True
      then have new: "g' = g\<lparr>gm_queue := srt (?q[i := ?v])\<rparr>" using g' Some by (simp add: Add_result)
      have "distinct (map subject (?q[i := ?v]))"
        using inv unfolding new gm_inv_sorted [OF assms(1)] .
      from Last_replace [OF assms(1) this, of s] True Some known new subj show ?thesis
        by (auto simp: LastGossipAbout_def Invalidates_beats)
    next
      case False
      then have "g' = g" using g' Some by (simp add: Add_result)
      with False Some known show ?thesis by (auto simp: Invalidates_beats)
    qed
  qed
  with g' inv show ?thesis by blast
qed

text \<open>C7: \<open>Add\<close> never panics and keeps one event per subject. It records the new event when nothing is
  known about its subject, or when it invalidates what is known; otherwise, and for every other
  subject, what is known stays.\<close>

theorem Add_keeps_strongest:
  assumes "sorts srt" and "gm_inv g"
  shows "\<exists>g'. gossipManager_Add srt e g = Some g' \<and> gm_inv g'
    \<and> (\<forall>s. LastGossipAbout s g' =
        (if s = GetSubject (ev_Payload e) \<and> (case LastGossipAbout s g of None \<Rightarrow> True
             | Some old \<Rightarrow> Invalidates (ev_Payload e) old = Some True)
         then Some e else LastGossipAbout s g))"
  using assms by (rule Add_spec)

definition exampleEvent :: "byte \<Rightarrow> u16 \<Rightarrow> Event" where
  "exampleEvent b i = \<lparr>ev_Payload = PAlive \<lparr>s_Subject = zeroIP\<lparr>AddressBytes := b # replicate 15 0\<rparr>, s_Incarnation = i\<rparr>\<rparr>"

lemma example_event [simp]:
  "ev_Payload (exampleEvent b i) = PAlive \<lparr>s_Subject = zeroIP\<lparr>AddressBytes := b # replicate 15 0\<rparr>, s_Incarnation = i\<rparr>"
  "Event_RequiredSize (exampleEvent b i) = 7"
  "exampleEvent b i = exampleEvent c j \<longleftrightarrow> b = c \<and> i = j"
  by (simp_all add: exampleEvent_def Event_RequiredSize_def Alive_RequiredSize_def IP_Size_def AddressKind_Size_def)

definition exampleGossip :: "(byte \<times> u16 \<times> int) list \<Rightarrow> gossipManager" where
  "exampleGossip xs = \<lparr>gm_queue = map (\<lambda>(b, i, n). \<lparr>First = exampleEvent b i, Second = n\<rparr>) xs, maxTx = 1\<rparr>"

theorem Add_keeps_strongest_witness:
  "\<exists>g'. gossipManager_Add sortDesc (exampleEvent 2 8) (exampleGossip [(2, 7, 1), (3, 1, 1)]) = Some g'
    \<and> LastGossipAbout (GetSubject (ev_Payload (exampleEvent 2 8))) g' = Some (exampleEvent 2 8)"
proof -
  have "gm_inv (exampleGossip [(2, 7, 1), (3, 1, 1)])"
    by (simp add: gm_inv_def exampleGossip_def subject_def)
  from Add_keeps_strongest [OF sortDesc_sorts this, of "exampleEvent 2 8"] show ?thesis
    by (auto simp: exampleGossip_def LastGossipAbout_def Invalidates_beats beats_def table_def)
qed

lemma Next_space:
  "\<exists>es g'. gossipManager_Next srt maxLength g = Some (es, g')
     \<and> (\<Sum>e\<leftarrow>es. int (Event_RequiredSize e)) \<le> max 0 maxLength
     \<and> es = take (length es) (CurrentGossips g)"
proof -
  let ?k = "taken maxLength 0 (gm_queue g)"
  have "(\<Sum>e\<leftarrow>map First (take ?k (gm_queue g)). int (Event_RequiredSize e)) \<le> max 0 maxLength"
    using taken_size [of 0 maxLength "gm_queue g"] taken_negative [of maxLength "gm_queue g"]
    by (cases "maxLength < 0") (auto simp: comp_def)
  moreover have "map First (take ?k (gm_queue g)) = take (length (map First (take ?k (gm_queue g)))) (CurrentGossips g)"
    using taken_le [of maxLength 0 "gm_queue g"] by (simp add: CurrentGossips_def take_map)
  moreover obtain g' where "gossipManager_Next srt maxLength g = Some (map First (take ?k (gm_queue g)), g')"
    using Next_result by blast
  ultimately show ?thesis
    by blast
qed

text \<open>The events \<open>Next\<close> returns fit in the space it was given, and are a prefix of the queue; a
  negative space yields none.\<close>

lemma Next_fits:
  "\<exists>es g'. gossipManager_Next srt maxLength g = Some (es, g')
     \<and> (\<Sum>e\<leftarrow>es. int (Event_RequiredSize e)) \<le> max 0 maxLength
     \<and> es = take (length es) (CurrentGossips g)"
  by (rule Next_space)

subsection \<open>The queue of the server\<close>

text \<open>The server creates its manager with \<open>maxTx = 1\<close> and never adjusts it. Counters are then at most one,
  and the items with one transmission left come first. In this regime the positions \<open>Next\<close> records are the
  first ones, and deleting at the wrong position goes unnoticed.\<close>

definition ones_first :: "gossipItem list \<Rightarrow> bool" where
  "ones_first q \<longleftrightarrow> (\<forall>v \<in> set q. Second v \<le> 1) \<and> sorted_wrt (\<lambda>a b. exhausted b \<longrightarrow> exhausted a) q"

definition unit_inv :: "gossipManager \<Rightarrow> bool" where
  "unit_inv g \<longleftrightarrow> gm_inv g \<and> maxTx g = 1 \<and> ones_first (gm_queue g)"

lemma ones_first_sort:
  assumes "sorts srt" and "\<forall>v \<in> set q. Second v \<le> 1"
  shows "ones_first (srt q)"
proof -
  have le: "\<forall>v \<in> set (srt q). Second v \<le> 1" using assms by (simp add: sorts_set)
  moreover have "sorted_wrt (\<lambda>a b. exhausted b \<longrightarrow> exhausted a) (srt q)"
    using sorts_desc [OF assms(1), of q] by (rule sorted_wrt_mono_rel [rotated]) (use le in fastforce)
  ultimately show ?thesis by (simp add: ones_first_def)
qed

lemma ones_first_take: "ones_first q \<Longrightarrow> ones_first (take k q)"
  by (auto simp: ones_first_def sorted_wrt_take dest: in_set_takeD)

lemma ones_first_split:
  "ones_first q \<Longrightarrow> q = filter exhausted q @ filter (\<lambda>v. \<not> exhausted v) q"
proof (induction q)
  case Nil
  then show ?case by simp
next
  case (Cons v q)
  then have "ones_first q" by (simp add: ones_first_def)
  with Cons show ?case
    by (cases "exhausted v") (auto simp: ones_first_def filter_empty_conv filter_id_conv)
qed

lemma unit_remaining:
  assumes "ones_first q"
  shows "drop (exhausted_count L q) (spent L q)
    = map spend (filter (\<lambda>v. \<not> exhausted v) (take (taken L 0 q) q)) @ drop (taken L 0 q) q"
proof -
  let ?t = "take (taken L 0 q) q"
  have "?t = filter exhausted ?t @ filter (\<lambda>v. \<not> exhausted v) ?t"
    using assms by (intro ones_first_split ones_first_take)
  then have "spent L q = map spend (filter exhausted ?t) @ map spend (filter (\<lambda>v. \<not> exhausted v) ?t) @ drop (taken L 0 q) q"
    unfolding spent_def by (metis append_assoc map_append)
  then show ?thesis by (simp add: exhausted_count_def)
qed

definition remaining :: "int \<Rightarrow> gossipItem list \<Rightarrow> gossipItem list" where
  "remaining L q = map spend (filter (\<lambda>v. \<not> exhausted v) (take (taken L 0 q) q)) @ drop (taken L 0 q) q"

lemma Next_unit_queue:
  assumes "ones_first (gm_queue g)"
  shows "\<exists>g'. gossipManager_Next srt L g = Some (map First (take (taken L 0 (gm_queue g)) (gm_queue g)), g')
    \<and> maxTx g' = maxTx g
    \<and> gm_queue g' = (if exhausted_count L (gm_queue g) = 0 then remaining L (gm_queue g) else srt (remaining L (gm_queue g)))"
proof -
  have "drop (exhausted_count L (gm_queue g)) (spent L (gm_queue g)) = remaining L (gm_queue g)"
    using unit_remaining [OF assms] by (simp add: remaining_def)
  then show ?thesis by (auto simp: Next_result)
qed

lemma remaining_le: "\<forall>v \<in> set q. Second v \<le> 1 \<Longrightarrow> \<forall>v \<in> set (remaining L q). Second v \<le> 1"
  by (force simp: remaining_def spend_def dest: in_set_takeD in_set_dropD)

lemma sorted_none_exhausted:
  "\<forall>v \<in> set q. \<not> exhausted v \<Longrightarrow> sorted_wrt (\<lambda>a b. exhausted b \<longrightarrow> exhausted a) q"
  by (induction q) auto

lemma ones_first_remaining:
  assumes "ones_first q" and "exhausted_count L q = 0"
  shows "ones_first (remaining L q)"
proof -
  let ?t = "take (taken L 0 q) q" and ?d = "drop (taken L 0 q) q"
  have none: "\<not> exhausted v" if "v \<in> set ?t" for v
    using assms(2) that by (auto simp: exhausted_count_def filter_empty_conv)
  have le: "Second v \<le> 1" if "v \<in> set q" for v using assms(1) that by (simp add: ones_first_def)
  have low: "\<not> exhausted (spend v)" if "v \<in> set ?t" for v
    using none [OF that] le [OF in_set_takeD [OF that]] by (auto simp: spend_def)
  have "sorted_wrt (\<lambda>a b. exhausted b \<longrightarrow> exhausted a) (?t @ ?d)"
    using assms(1) by (simp add: ones_first_def)
  then have "sorted_wrt (\<lambda>a b. exhausted b \<longrightarrow> exhausted a) ?d" and "\<forall>a \<in> set ?t. \<forall>b \<in> set ?d. exhausted b \<longrightarrow> exhausted a"
    by (simp_all add: sorted_wrt_append del: append_take_drop_id)
  moreover have "sorted_wrt (\<lambda>a b. exhausted b \<longrightarrow> exhausted a) (map spend (filter (\<lambda>v. \<not> exhausted v) ?t))"
    using low by (intro sorted_none_exhausted) auto
  ultimately have "sorted_wrt (\<lambda>a b. exhausted b \<longrightarrow> exhausted a) (remaining L q)"
    using none by (auto simp: remaining_def sorted_wrt_append)
  moreover have "\<forall>v \<in> set (remaining L q). Second v \<le> 1" using le by (intro remaining_le) simp
  ultimately show ?thesis by (simp add: ones_first_def)
qed

lemma distinct_subject_eq:
  "distinct (map subject q) \<Longrightarrow> v \<in> set q \<Longrightarrow> w \<in> set q \<Longrightarrow> subject v = subject w \<Longrightarrow> v = w"
  by (auto simp: distinct_map dest: inj_onD)

lemma Last_remaining:
  assumes "distinct (map subject q)" and "distinct (map subject (remaining L q))"
  shows "LastGossipAbout_loop s (remaining L q) =
    (if \<exists>v \<in> set (take (taken L 0 q) q). subject v = s \<and> exhausted v then None else LastGossipAbout_loop s q)"
proof (rule option_eq_by_Some)
  fix e
  let ?t = "take (taken L 0 q) q" and ?d = "drop (taken L 0 q) q"
  have q: "set q = set ?t \<union> set ?d" by (metis append_take_drop_id set_append)
  have "distinct (map subject (?t @ ?d))" using assms(1) by simp
  then have apart: "subject v \<noteq> subject w" if "v \<in> set ?t" "w \<in> set ?d" for v w
    using that by (auto simp del: append_take_drop_id)
  have rem: "set (remaining L q) = spend ` {v \<in> set ?t. \<not> exhausted v} \<union> set ?d"
    by (auto simp: remaining_def)
  have "(\<exists>w \<in> set (remaining L q). subject w = s \<and> First w = e) \<longleftrightarrow>
      \<not> (\<exists>v \<in> set ?t. subject v = s \<and> exhausted v) \<and> (\<exists>v \<in> set q. subject v = s \<and> First v = e)" (is "?A = (\<not> ?X \<and> ?B)")
  proof
    assume ?A
    then obtain w where w: "w \<in> set q" "subject w = s" "First w = e" "w \<in> set ?t \<longrightarrow> \<not> exhausted w" "w \<in> set ?t \<or> w \<in> set ?d"
      unfolding rem using q apart by auto
    have "\<not> ?X"
    proof
      assume ?X
      then obtain v where v: "v \<in> set ?t" "subject v = s" "exhausted v" by blast
      then have "v = w" using distinct_subject_eq [OF assms(1)] w(1, 2) q by blast
      with v w(4) show False by simp
    qed
    with w show "\<not> ?X \<and> ?B" by blast
  next
    assume X: "\<not> ?X \<and> ?B"
    then obtain v where v: "v \<in> set ?t \<or> v \<in> set ?d" "subject v = s" "First v = e" using q by blast
    show ?A
    proof (cases "v \<in> set ?t")
      case True
      with X v have "spend v \<in> set (remaining L q)" unfolding rem by blast
      with v show ?A by (intro bexI [of _ "spend v"]) simp_all
    next
      case False
      with v show ?A unfolding rem by blast
    qed
  qed
  then show "LastGossipAbout_loop s (remaining L q) = Some e \<longleftrightarrow>
      (if \<exists>v \<in> set ?t. subject v = s \<and> exhausted v then None else LastGossipAbout_loop s q) = Some e"
    by (simp add: LastGossipAbout_iff assms)
qed

lemma unit_inv_Next:
  assumes "sorts srt" and "unit_inv g" and "gossipManager_Next srt L g = Some (es, g')"
  shows "unit_inv g'"
proof -
  have ones: "ones_first (gm_queue g)" using assms(2) by (simp add: unit_inv_def)
  then have "ones_first (srt (remaining L (gm_queue g)))"
    by (intro ones_first_sort [OF assms(1)] remaining_le) (simp add: ones_first_def)
  then show ?thesis
    using Next_unit_queue [OF ones, of srt L] assms gm_inv_Next [OF assms(1) _ assms(3)] ones_first_remaining [OF ones, of L]
    by (auto simp: unit_inv_def)
qed

lemma unit_inv_Add:
  assumes "sorts srt" and "unit_inv g" and "gossipManager_Add srt e g = Some g'"
  shows "unit_inv g'"
proof -
  have le: "\<forall>v \<in> set (gm_queue g). Second v \<le> 1" and "maxTx g = 1" using assms(2) by (simp_all add: unit_inv_def ones_first_def)
  moreover have "\<forall>v \<in> set ((gm_queue g)[i := \<lparr>First = e, Second = 0\<rparr>]). Second v \<le> 1" for i
    using le set_update_subset_insert [of "gm_queue g" i] by fastforce
  ultimately show ?thesis
    using assms gm_inv_Add [OF assms(1) _ assms(3)]
    by (auto simp: unit_inv_def Add_result intro!: ones_first_sort [OF assms(1)] split: option.splits if_splits)
qed

text \<open>In the configuration the server uses, one transmission per event, \<open>Next\<close> is right: of the events it
  returns it forgets exactly those that had one transmission left, and every other event stays known.\<close>

lemma Next_forgets_exhausted:
  assumes "sorts srt" and "unit_inv g"
  shows "\<exists>es g'. gossipManager_Next srt maxLength g = Some (es, g') \<and> unit_inv g'
    \<and> (\<forall>s. LastGossipAbout s g' =
        (if \<exists>v \<in> set (take (length es) (gm_queue g)). subject v = s \<and> Second v = 1 then None
         else LastGossipAbout s g))"
proof -
  let ?q = "gm_queue g" and ?k = "taken maxLength 0 (gm_queue g)"
  have ones: "ones_first ?q" and dist: "distinct (map subject ?q)"
    using assms(2) by (simp_all add: unit_inv_def gm_inv_def)
  obtain g' where g': "gossipManager_Next srt maxLength g = Some (map First (take ?k ?q), g')"
      "gm_queue g' = (if exhausted_count maxLength ?q = 0 then remaining maxLength ?q else srt (remaining maxLength ?q))"
    using Next_unit_queue [OF ones] by blast
  have inv: "unit_inv g'" using unit_inv_Next [OF assms g'(1)] .
  then have rem: "distinct (map subject (remaining maxLength ?q))"
    using g'(2) by (simp add: unit_inv_def gm_inv_def distinct_subjects_sort [OF assms(1)] split: if_splits)
  have "length (map First (take ?k ?q)) = ?k" using taken_le [of maxLength 0 ?q] by simp
  moreover have "LastGossipAbout s g' = LastGossipAbout_loop s (remaining maxLength ?q)" for s
    using g'(2) LastGossipAbout_sort [OF assms(1) rem] by (simp add: LastGossipAbout_def)
  ultimately show ?thesis
    using g'(1) inv Last_remaining [OF dist rem] by (auto simp: LastGossipAbout_def)
qed

lemma example_unit: "unit_inv (exampleGossip [(2, 7, 1), (3, 1, 0)])"
  by (simp add: unit_inv_def gm_inv_def ones_first_def exampleGossip_def subject_def)

lemma Next_forgets_exhausted_witness:
  "\<exists>es g'. gossipManager_Next sortDesc 100 (exampleGossip [(2, 7, 1), (3, 1, 0)]) = Some (es, g') \<and> unit_inv g'
    \<and> (\<forall>s. LastGossipAbout s g' =
        (if \<exists>v \<in> set (take (length es) (gm_queue (exampleGossip [(2, 7, 1), (3, 1, 0)]))). subject v = s \<and> Second v = 1 then None
         else LastGossipAbout s (exampleGossip [(2, 7, 1), (3, 1, 0)])))"
  using sortDesc_sorts example_unit by (rule Next_forgets_exhausted)

lemma unit_new: "unit_inv (NewGossipManager 1)"
  by (simp add: unit_inv_def NewGossipManager_def gm_inv_def ones_first_def)

lemma unit_step:
  "sorts srt \<Longrightarrow> gm_step srt l g g' \<Longrightarrow> \<forall>n. l \<noteq> GAdjust n \<Longrightarrow> unit_inv g \<Longrightarrow> unit_inv g'"
  by (erule gm_stepE) (auto intro: unit_inv_Next unit_inv_Add)

text \<open>C24: the server's queue. Whatever is added and sent, and in whatever order, the queue holds at most one
  event per subject, no counter exceeds one, and the events whose counter is one come first; among the others, whose
  counters are zero or negative, there is no order. Because of it the next \<open>Next\<close> never panics and forgets, of the events it
  returns, exactly those whose counter is one, although it deletes at the front instead of at their indexes.\<close>

theorem server_queue_invariant:
  assumes "sorts srt" and "trace (gm_step srt) (NewGossipManager 1) ops g" and "\<forall>n. GAdjust n \<notin> set ops"
  shows "distinct (map (\<lambda>e. GetSubject (ev_Payload e)) (CurrentGossips g))
    \<and> (\<forall>v \<in> set (gm_queue g). Second v \<le> 1)
    \<and> sorted_wrt (\<lambda>a b. Second b = 1 \<longrightarrow> Second a = 1) (gm_queue g)
    \<and> (\<exists>es g'. gossipManager_Next srt maxLength g = Some (es, g') \<and> (\<forall>s. LastGossipAbout s g' =
        (if \<exists>v \<in> set (take (length es) (gm_queue g)). GetSubject (ev_Payload (First v)) = s \<and> Second v = 1 then None
         else LastGossipAbout s g)))"
proof -
  have "trace (gm_step srt) g0 ops g \<Longrightarrow> \<forall>n. GAdjust n \<notin> set ops \<Longrightarrow> unit_inv g0 \<Longrightarrow> unit_inv g" for g0
    by (induction rule: trace.induct) (auto dest: unit_step [OF assms(1)])
  then have inv: "unit_inv g" using assms(2, 3) unit_new by blast
  then have "distinct (map (\<lambda>e. GetSubject (ev_Payload e)) (CurrentGossips g)) \<and> (\<forall>v \<in> set (gm_queue g). Second v \<le> 1)
    \<and> sorted_wrt (\<lambda>a b. Second b = 1 \<longrightarrow> Second a = 1) (gm_queue g)"
    by (simp add: unit_inv_def gm_inv_def ones_first_def CurrentGossips_def comp_def subject_def [abs_def])
  with Next_forgets_exhausted [OF assms(1) inv, of maxLength] show ?thesis unfolding subject_def by metis
qed

text \<open>The queue need not be sorted by its counters: a \<open>Next\<close> that retires nothing decrements in place.\<close>

lemma queue_not_sorted:
  "\<exists>g. trace (gm_step sortDesc) (NewGossipManager 1) [GAdd (exampleEvent 2 7), GAdd (exampleEvent 3 7), GAdd (exampleEvent 2 8),
       GAdd (exampleEvent 3 8), GNext 8] g
     \<and> map Second (gm_queue g) = [-1, 0]"
proof -
  note add = Add_result LastGossipAbout_def exampleGossip_def sortDesc_def NewGossipManager_def Invalidates_beats beats_def table_def
  have "gossipManager_Add sortDesc (exampleEvent 2 7) (NewGossipManager 1) = Some (exampleGossip [(2, 7, 1)])"
    "gossipManager_Add sortDesc (exampleEvent 3 7) (exampleGossip [(2, 7, 1)]) = Some (exampleGossip [(2, 7, 1), (3, 7, 1)])"
    "gossipManager_Add sortDesc (exampleEvent 2 8) (exampleGossip [(2, 7, 1), (3, 7, 1)]) = Some (exampleGossip [(3, 7, 1), (2, 8, 0)])"
    "gossipManager_Add sortDesc (exampleEvent 3 8) (exampleGossip [(3, 7, 1), (2, 8, 0)]) = Some (exampleGossip [(3, 8, 0), (2, 8, 0)])"
    by (simp_all add: add)
  moreover have "\<exists>es. gossipManager_Next sortDesc 8 (exampleGossip [(3, 8, 0), (2, 8, 0)]) = Some (es, exampleGossip [(3, 8, -1), (2, 8, 0)])"
    by (simp add: Next_result exhausted_count_def spent_def spend_def exampleGossip_def)
  ultimately have "trace (gm_step sortDesc) (NewGossipManager 1) [GAdd (exampleEvent 2 7), GAdd (exampleEvent 3 7), GAdd (exampleEvent 2 8),
       GAdd (exampleEvent 3 8), GNext 8] (exampleGossip [(3, 8, -1), (2, 8, 0)])"
    by (auto intro!: trace.intros intro: gm_step.intros)
  then show ?thesis by (auto simp: exampleGossip_def)
qed

theorem server_queue_invariant_witness:
  "\<exists>g. trace (gm_step sortDesc) (NewGossipManager 1) [GAdd (exampleEvent 2 7), GNext 100] g
    \<and> distinct (map (\<lambda>e. GetSubject (ev_Payload e)) (CurrentGossips g))"
proof -
  obtain g1 where "gossipManager_Add sortDesc (exampleEvent 2 7) (NewGossipManager 1) = Some g1" by (simp add: Add_result)
  moreover obtain es g2 where "gossipManager_Next sortDesc 100 g1 = Some (es, g2)" by (simp add: Next_result)
  ultimately have t: "trace (gm_step sortDesc) (NewGossipManager 1) [GAdd (exampleEvent 2 7), GNext 100] g2"
    by (auto intro!: trace.intros gm_step.intros)
  then show ?thesis using server_queue_invariant [OF sortDesc_sorts t] by auto
qed

lemma remaining_keeps:
  assumes "v \<in> set q" and "Second v \<le> 0"
  shows "\<exists>w \<in> set (remaining L q). First w = First v \<and> Second w \<le> 0"
proof (cases "v \<in> set (take (taken L 0 q) q)")
  case True
  with assms(2) show ?thesis by (intro bexI [of _ "spend v"]) (auto simp: remaining_def spend_def)
next
  case False
  then have "v \<in> set (drop (taken L 0 q) q)" using assms(1) by (metis append_take_drop_id set_append Un_iff)
  with assms(2) show ?thesis by (intro bexI [of _ v]) (auto simp: remaining_def)
qed

lemma Next_keeps_spent:
  assumes "sorts srt" and "unit_inv g" and "v \<in> set (gm_queue g)" and "Second v \<le> 0"
    and "gm_step srt (GNext L) g g'"
  shows "\<exists>w \<in> set (gm_queue g'). First w = First v \<and> Second w \<le> 0"
proof -
  obtain es where "gossipManager_Next srt L g = Some (es, g')" using assms(5) by (auto elim: gm_stepE)
  then have "set (gm_queue g') = set (remaining L (gm_queue g))"
    using Next_unit_queue [of g srt L] assms(1, 2) by (auto simp: unit_inv_def sorts_set)
  with remaining_keeps [OF assms(3, 4)] show ?thesis by simp
qed

lemma Nexts_keep_spent:
  assumes "sorts srt" and "trace (gm_step srt) g (map GNext Ls) g'" and "unit_inv g"
    and "v \<in> set (gm_queue g)" and "Second v \<le> 0"
  shows "\<exists>w \<in> set (gm_queue g'). First w = First v \<and> Second w \<le> 0"
  using assms(2-)
proof (induction Ls arbitrary: g v)
  case Nil
  then show ?case by auto
next
  case (Cons L Ls)
  then obtain g1 where g1: "gm_step srt (GNext L) g g1" "trace (gm_step srt) g1 (map GNext Ls) g'"
    by (auto simp: trace_Cons_iff)
  obtain w where "w \<in> set (gm_queue g1)" "First w = First v" "Second w \<le> 0"
    using Next_keeps_spent [OF assms(1) _ _ _ g1(1)] Cons.prems by blast
  moreover have "unit_inv g1" using unit_step [OF assms(1) g1(1)] Cons.prems by simp
  ultimately show ?case using Cons.IH [OF g1(2)] by metis
qed

lemma Add_replaces:
  assumes "LastGossipAbout (GetSubject (ev_Payload e)) g = Some old" and "Invalidates (ev_Payload e) old = Some True"
    and "sorts srt" and "gossipManager_Add srt e g = Some g'"
  shows "\<lparr>First = e, Second = 0\<rparr> \<in> set (gm_queue g')"
proof -
  obtain i where i: "findEventByNode (GetSubject (ev_Payload e)) (gm_queue g) = Some i" "old = First (gm_queue g ! i)"
    using assms(1) by (auto simp: LastGossipAbout_def LastGossipAbout_find)
  then have "gm_queue g' = srt ((gm_queue g)[i := \<lparr>First = e, Second = 0\<rparr>])"
    using assms(2, 4) by (auto simp: Add_result Invalidates_beats)
  with findEventByNode_Some [OF i(1)] show ?thesis by (simp add: sorts_set [OF assms(3)] set_update_memI)
qed

text \<open>An event that replaced an older one is never retired: \<open>Add\<close> sets its counter to zero, and a counter
  that is not positive never reaches one. It stays in the queue through every further call of \<open>Next\<close>.\<close>

lemma replaced_event_never_retired:
  assumes "sorts srt" and "unit_inv g" and "LastGossipAbout (GetSubject (ev_Payload e)) g = Some old"
    and "Invalidates (ev_Payload e) old = Some True" and "gossipManager_Add srt e g = Some g1"
    and "trace (gm_step srt) g1 (map GNext Ls) g2"
  shows "e \<in> set (CurrentGossips g2)"
  using Nexts_keep_spent [OF assms(1, 6) unit_inv_Add [OF assms(1, 2, 5)] Add_replaces [OF assms(3, 4, 1, 5)]]
  by (auto simp: CurrentGossips_def)

theorem replaced_event_never_retired_witness:
  "\<exists>g1 es g2. gossipManager_Add sortDesc (exampleEvent 2 8) (exampleGossip [(2, 7, 1), (3, 1, 0)]) = Some g1
    \<and> gossipManager_Next sortDesc 100 g1 = Some (es, g2) \<and> exampleEvent 2 8 \<in> set (CurrentGossips g2)"
proof -
  let ?g = "exampleGossip [(2, 7, 1), (3, 1, 0)]"
  obtain g1 where g1: "gossipManager_Add sortDesc (exampleEvent 2 8) ?g = Some g1" by (simp add: Add_result)
  obtain es g2 where g2: "gossipManager_Next sortDesc 100 g1 = Some (es, g2)" by (simp add: Next_result)
  have t: "trace (gm_step sortDesc) g1 (map GNext [100]) g2"
    using g2 by (auto intro!: trace.intros gm_step.intros)
  have "exampleEvent 2 8 \<in> set (CurrentGossips g2)"
    using replaced_event_never_retired [OF sortDesc_sorts example_unit _ _ g1 t, of "exampleEvent 2 7"]
    by (simp add: LastGossipAbout_def exampleGossip_def Invalidates_beats beats_def table_def)
  with g1 g2 show ?thesis by blast
qed

text \<open>With more than one transmission per event \<open>Next\<close> removes the wrong item. When an event with
  transmissions left precedes one that is exhausted and both fit, the first is forgotten and the second
  stays, due to be sent again.\<close>

lemma Next_removes_wrong_event:
  assumes "sorts srt" and "gm_queue g = [\<lparr>First = a, Second = n\<rparr>, \<lparr>First = b, Second = 1\<rparr>]" and "n \<noteq> 1"
    and "int (Event_RequiredSize a) + int (Event_RequiredSize b) \<le> maxLength"
  shows "\<exists>g'. gossipManager_Next srt maxLength g = Some ([a, b], g') \<and> gm_queue g' = [\<lparr>First = b, Second = 1\<rparr>]"
proof -
  have one: "srt [v] = [v]" for v using sorts_perm [OF assms(1), of "[v]"] by simp
  have "taken maxLength 0 (gm_queue g) = 2" using assms(2, 4) by simp
  then show ?thesis
    using assms(2, 3) one by (simp add: Next_result exhausted_count_def spent_def spend_def)
qed

lemma Next_removes_wrong_event_witness:
  "\<exists>g'. gossipManager_Next sortDesc 100 (exampleGossip [(2, 7, 5), (3, 1, 1)]) = Some ([exampleEvent 2 7, exampleEvent 3 1], g')
    \<and> gm_queue g' = [\<lparr>First = exampleEvent 3 1, Second = 1\<rparr>]"
  by (rule Next_removes_wrong_event [OF sortDesc_sorts, of _ _ 5]) (simp_all add: exampleGossip_def)

end
