(* ===== verification/Run_Loop.thy ===== *)
theory Run_Loop
  imports Packet_Codec Transition_System "HOL-Library.Signed_Division"
begin

text \<open>
  \<open>internal/core/runloop.go\<close>: the protocol period. The interface \<open>RunLoopDelegate\<close> is a record of
  functions over the state \<open>'d\<close> of the delegate; those that read the current period through the loop
  take it as an argument. A result of \<open>None\<close> is a panic of the delegate or of the loop.

  The random cookie, the clock and the t-digest (a third-party library) are arguments: \<open>rnd\<close>, \<open>now\<close> in
  nanoseconds and \<open>quantile\<close>, the 99th percentile of the round trips in whole milliseconds. Timers and the channel of messages are the events of \<open>waitPeriod\<close>, a list
  in the order the loop receives them. The mutex of the period is not modelled: the loop runs in one
  goroutine.

  The locale \<open>run_loop_delegate\<close> states what the loop relies on: the delegate never panics while its
  invariant holds, and the gossip it hands out fits the space it was given.
\<close>

subsection \<open>State\<close>

record runLoopPeriod =
  rp_id :: u16
  rp_acked :: bool
  rp_node :: NodeHash
  rp_cookie :: u16
  rp_duration :: int
  rp_periodHash :: u32

record runLoop =
  rl_period :: runLoopPeriod
  rl_udpMaxLen :: int
  rl_adaptivePings :: bool
  rl_syncProtoRounds :: int
  pingTimestamps :: "u32 \<rightharpoonup> int"
  rl_samples :: "int list"

record 'd RunLoopDelegate =
  NextProbeSubject :: "'d \<Rightarrow> Node option \<times> 'd"
  GossipEvents :: "int \<Rightarrow> 'd \<Rightarrow> (Event list \<times> 'd) option"
  DispatchMessage :: "NetIP \<Rightarrow> Message \<Rightarrow> 'd \<Rightarrow> 'd option"
  SignalHealthyNode :: "NodeHash \<Rightarrow> 'd \<Rightarrow> 'd option"
  SignalSuspectNode :: "u16 \<Rightarrow> NodeHash \<Rightarrow> 'd \<Rightarrow> 'd option"
  ProcessExpiredSuspects :: "u16 \<Rightarrow> 'd \<Rightarrow> 'd option"
  DelegatePingTimeout :: "'d \<Rightarrow> int"
  IndirectPingMembers :: "NodeHash \<Rightarrow> 'd \<Rightarrow> Node option list option"
  DelegateNodeByHash :: "NodeHash \<Rightarrow> 'd \<Rightarrow> Node option"
  PerformFullSync :: "'d \<Rightarrow> 'd option"

definition NewRunLoop :: "int \<Rightarrow> int \<Rightarrow> bool \<Rightarrow> int \<Rightarrow> runLoop" where
  "NewRunLoop protocolPeriod udpMaxLen useAdaptivePing syncProtoRounds =
     \<lparr>rl_period = \<lparr>rp_id = 1, rp_acked = False, rp_node = NodeHashZero, rp_cookie = 0,
        rp_duration = protocolPeriod, rp_periodHash = 0\<rparr>,
      rl_udpMaxLen = udpMaxLen, rl_adaptivePings = useAdaptivePing, rl_syncProtoRounds = syncProtoRounds,
      pingTimestamps = Map.empty, rl_samples = []\<rparr>"

subsection \<open>Periods\<close>

definition unsafeIncrementID :: "runLoopPeriod \<Rightarrow> runLoopPeriod" where
  "unsafeIncrementID r = (if unat (rp_id r) + 1 \<ge> 65535 then r\<lparr>rp_id := 0\<rparr>
     else r\<lparr>rp_id := rp_id r + 1\<rparr>)"

text \<open>The union of a period's cookie and identifier.\<close>

definition periodTag :: "u16 \<Rightarrow> u16 \<Rightarrow> u32" where
  "periodTag cookie period = ucast cookie OR push_bit 16 (ucast period)"

definition makeCookie :: "nat \<Rightarrow> runLoopPeriod \<Rightarrow> runLoopPeriod" where
  "makeCookie rnd r = (let r = r\<lparr>rp_cookie := word_of_nat rnd\<rparr>
     in r\<lparr>rp_periodHash := periodTag (rp_cookie r) (rp_id r)\<rparr>)"

definition CurrentPeriod :: "runLoop \<Rightarrow> u16" where
  "CurrentPeriod r = rp_id (rl_period r)"

definition registerSentPing :: "int \<Rightarrow> runLoop \<Rightarrow> runLoop" where
  "registerSentPing now r = (if \<not> rl_adaptivePings r then r
     else r\<lparr>pingTimestamps := (pingTimestamps r)(rp_periodHash (rl_period r) \<mapsto> now)\<rparr>)"

definition registerReceivedPong :: "int \<Rightarrow> Pong \<Rightarrow> runLoop \<Rightarrow> runLoop" where
  "registerReceivedPong now pong r = (if \<not> rl_adaptivePings r then r
     else let id = periodTag (pong_Cookie pong) (pong_Period pong) in
       case pingTimestamps r id of None \<Rightarrow> r
       | Some old \<Rightarrow> r\<lparr>pingTimestamps := (pingTimestamps r)(id := None), rl_samples := rl_samples r @ [(now - old) sdiv 1000000]\<rparr>)"

definition pingTimeout :: "'d RunLoopDelegate \<Rightarrow> (int list \<Rightarrow> int) \<Rightarrow> runLoop \<Rightarrow> 'd \<Rightarrow> int" where
  "pingTimeout del quantile r s = (if \<not> rl_adaptivePings r then DelegatePingTimeout del s
     else if rl_samples r = [] then rp_duration (rl_period r) sdiv 2
     else min (quantile (rl_samples r) * 1000000) (rp_duration (rl_period r)))"

definition startPeriod :: "'d RunLoopDelegate \<Rightarrow> nat \<Rightarrow> int \<Rightarrow> runLoop \<Rightarrow> 'd \<Rightarrow> (runLoop \<times> 'd) option" where
  "startPeriod del rnd now r s =
     (let r = r\<lparr>rl_period := (rl_period r)\<lparr>rp_acked := False, rp_node := NodeHashZero\<rparr>\<rparr>;
          (node, s) = NextProbeSubject del s
      in case node of None \<Rightarrow> Some (r, s)
         | Some node \<Rightarrow>
             let r = r\<lparr>rl_period := (makeCookie rnd (rl_period r))\<lparr>rp_node := Hash node\<rparr>\<rparr>;
                 ping = \<lparr>ping_Cookie = rp_cookie (rl_period r), ping_Period = rp_id (rl_period r),
                   ping_TargetIncarnation = n_Incarnation node, ping_Events = []\<rparr>;
                 maxGossipsSize = rl_udpMaxLen r - int (Ping_RequiredSize ping)
             in do {
               (events, s) \<leftarrow> GossipEvents del maxGossipsSize s;
               let ping = ping\<lparr>ping_Events := events\<rparr>;
               let r = registerSentPing now r;
               s \<leftarrow> DispatchMessage del (IP_Bytes (n_Address node)) (MPing ping) s;
               Some (r, s)
             })"

definition endPeriod :: "'d RunLoopDelegate \<Rightarrow> runLoop \<Rightarrow> 'd \<Rightarrow> (runLoop \<times> 'd) option" where
  "endPeriod del r s = do {
     s \<leftarrow> (if rp_node (rl_period r) \<noteq> NodeHashZero then
             (if rp_acked (rl_period r) then SignalHealthyNode del (rp_node (rl_period r)) s
              else SignalSuspectNode del (CurrentPeriod r) (rp_node (rl_period r)) s)
           else Some s);
     let r = r\<lparr>rl_period := (rl_period r)\<lparr>rp_node := NodeHashZero\<rparr>\<rparr>;
     s \<leftarrow> ProcessExpiredSuspects del (CurrentPeriod r) s;
     let r = r\<lparr>rl_period := unsafeIncrementID (rl_period r)\<rparr>;
     s \<leftarrow> (if rl_syncProtoRounds r > 0 \<and> int (unat (rp_id (rl_period r))) mod rl_syncProtoRounds r = 0
          then PerformFullSync del s else Some s);
     Some (r, s)
   }"

fun dispatchAll :: "'d RunLoopDelegate \<Rightarrow> Node option list \<Rightarrow> Message \<Rightarrow> 'd \<Rightarrow> 'd option" where
  "dispatchAll del [] m s = Some s"
| "dispatchAll del (v # vs) m s = do {
     v \<leftarrow> v;
     s \<leftarrow> DispatchMessage del (IP_Bytes (n_Address v)) m s;
     dispatchAll del vs m s
   }"

definition pingIndirect :: "'d RunLoopDelegate \<Rightarrow> runLoop \<Rightarrow> 'd \<Rightarrow> (runLoop \<times> 'd) option" where
  "pingIndirect del r s =
     (let r = (if rl_adaptivePings r
               then r\<lparr>pingTimestamps := (pingTimestamps r)(rp_periodHash (rl_period r) := None)\<rparr> else r)
      in if rp_acked (rl_period r) then Some (r, s)
         else (case DelegateNodeByHash del (rp_node (rl_period r)) s of
             None \<Rightarrow> Some (r, s)
           | Some node \<Rightarrow> do {
               indirect \<leftarrow> IndirectPingMembers del (rp_node (rl_period r)) s;
               if indirect = [] then Some (r, s)
               else do {
                 s \<leftarrow> dispatchAll del indirect
                   (MIndirectPing \<lparr>iping_Cookie = rp_cookie (rl_period r), iping_Period = rp_id (rl_period r),
                      iping_Address = n_Address node\<rparr>) s;
                 Some (r, s)
               }
             }))"

definition handleMessage :: "int \<Rightarrow> Packet \<Rightarrow> runLoop \<Rightarrow> runLoop" where
  "handleMessage now pkt r = (case p_Message pkt of
     Some (MPong msg) \<Rightarrow>
       (if pong_Period msg \<noteq> rp_id (rl_period r) then r
        else if pong_Cookie msg \<noteq> rp_cookie (rl_period r) then r
        else let r = registerReceivedPong now msg r in r\<lparr>rl_period := (rl_period r)\<lparr>rp_acked := True\<rparr>\<rparr>)
   | Some (MIndirectPong msg) \<Rightarrow>
       (if ipong_Period msg \<noteq> rp_id (rl_period r) then r
        else if ipong_Cookie msg \<noteq> rp_cookie (rl_period r) then r
        else r\<lparr>rl_period := (rl_period r)\<lparr>rp_acked := True\<rparr>\<rparr>)
   | _ \<Rightarrow> r)"

text \<open>What the select of \<open>waitPeriod\<close> receives. The period timer ends the loop, so it is the end of
  the list.\<close>

datatype loop_event = PingTimeoutFired | MessageReceived int Packet

fun waitPeriod :: "'d RunLoopDelegate \<Rightarrow> loop_event list \<Rightarrow> runLoop \<Rightarrow> 'd \<Rightarrow> (runLoop \<times> 'd) option" where
  "waitPeriod del [] r s = Some (r, s)"
| "waitPeriod del (PingTimeoutFired # evs) r s =
     (if rp_node (rl_period r) = NodeHashZero then waitPeriod del evs r s
      else do { (r, s) \<leftarrow> pingIndirect del r s; waitPeriod del evs r s })"
| "waitPeriod del (MessageReceived now pkt # evs) r s = waitPeriod del evs (handleMessage now pkt r) s"

text \<open>One turn of \<open>loop\<close>.\<close>

definition runPeriod :: "'d RunLoopDelegate \<Rightarrow> nat \<Rightarrow> int \<Rightarrow> loop_event list \<Rightarrow> runLoop \<Rightarrow> 'd \<Rightarrow> (runLoop \<times> 'd) option" where
  "runPeriod del rnd now evs r s = do {
     (r, s) \<leftarrow> startPeriod del rnd now r s;
     (r, s) \<leftarrow> waitPeriod del evs r s;
     endPeriod del r s
   }"

subsection \<open>The period counter\<close>

lemma unat_unsafeIncrementID:
  "unat (rp_id (unsafeIncrementID r)) = (if unat (rp_id r) \<ge> 65534 then 0 else unat (rp_id r) + 1)"
proof (cases "unat (rp_id r) \<ge> 65534")
  case False
  then have "unat (rp_id r + 1) = unat (rp_id r) + 1"
    by (simp add: unat_word_ariths)
  with False show ?thesis by (simp add: unsafeIncrementID_def)
qed (simp add: unsafeIncrementID_def)

text \<open>The period identifier counts modulo 65535. Started at 1, it is \<open>(n + 1) mod 65535\<close> after \<open>n\<close>
  periods, so it never takes the value 65535.\<close>

lemma period_counts_mod_65535:
  "unat (rp_id ((unsafeIncrementID ^^ n) (rl_period (NewRunLoop d l a k)))) = (n + 1) mod 65535"
proof (induction n)
  case 0
  then show ?case by (simp add: NewRunLoop_def)
next
  case (Suc n)
  have "(n + 1) mod 65535 < 65535" by simp
  with Suc show ?case by (simp add: unat_unsafeIncrementID mod_Suc)
qed

subsection \<open>The verdict of a period\<close>

text \<open>The messages that answer the probe of a period.\<close>

definition answers :: "u16 \<Rightarrow> u16 \<Rightarrow> Packet \<Rightarrow> bool" where
  "answers period cookie pkt = (case p_Message pkt of
     Some (MPong m) \<Rightarrow> pong_Period m = period \<and> pong_Cookie m = cookie
   | Some (MIndirectPong m) \<Rightarrow> ipong_Period m = period \<and> ipong_Cookie m = cookie
   | _ \<Rightarrow> False)"

fun answered :: "u16 \<Rightarrow> u16 \<Rightarrow> loop_event list \<Rightarrow> bool" where
  "answered period cookie [] = False"
| "answered period cookie (PingTimeoutFired # evs) = answered period cookie evs"
| "answered period cookie (MessageReceived now pkt # evs) = (answers period cookie pkt \<or> answered period cookie evs)"

lemma registerReceivedPong_period [simp]: "rl_period (registerReceivedPong now pong r) = rl_period r"
  by (simp add: registerReceivedPong_def Let_def split: option.split)

lemma handleMessage_period:
  "rl_period (handleMessage now pkt r) = (rl_period r)\<lparr>rp_acked := rp_acked (rl_period r)
     \<or> answers (rp_id (rl_period r)) (rp_cookie (rl_period r)) pkt\<rparr>"
  by (cases r) (auto simp: handleMessage_def answers_def Let_def split: option.split Message.split)

lemma pingIndirect_period: "pingIndirect del r s = Some (r', s') \<Longrightarrow> rl_period r' = rl_period r"
  by (auto simp: pingIndirect_def Let_def split: if_splits option.splits Option.bind_splits)

lemma waitPeriod_period:
  "waitPeriod del evs r s = Some (r', s') \<Longrightarrow>
   rl_period r' = (rl_period r)\<lparr>rp_acked := rp_acked (rl_period r)
     \<or> answered (rp_id (rl_period r)) (rp_cookie (rl_period r)) evs\<rparr>"
proof (induction del evs r s rule: waitPeriod.induct)
  case (2 del evs r s)
  then show ?case by (auto dest: pingIndirect_period split: if_splits Option.bind_splits)
qed (auto simp: handleMessage_period disj_assoc)

lemma registerSentPing_period [simp]: "rl_period (registerSentPing now r) = rl_period r"
  by (simp add: registerSentPing_def)

lemma startPeriod_period:
  assumes "startPeriod del rnd now r s = Some (r', s')"
  shows "rp_id (rl_period r') = rp_id (rl_period r) \<and> \<not> rp_acked (rl_period r')
    \<and> rp_node (rl_period r') = (case fst (NextProbeSubject del s) of None \<Rightarrow> NodeHashZero | Some v \<Rightarrow> Hash v)"
  using assms
  by (auto simp: startPeriod_def makeCookie_def Let_def split: prod.splits option.splits Option.bind_splits)

text \<open>C9: the verdict of a period. Whatever messages and timeouts arrive while it lasts, the loop ends the
  period by declaring the node it probed healthy when a Pong or IndirectPong with the period's
  identifier and cookie arrived, and suspect otherwise; with no node to probe it declares nothing.\<close>

theorem period_verdict:
  assumes "startPeriod del rnd now r s = Some (r1, s1)" and "waitPeriod del evs r1 s1 = Some (r2, s2)"
  shows "endPeriod del r2 s2 = do {
      s3 \<leftarrow> (case fst (NextProbeSubject del s) of
               Some v \<Rightarrow> if Hash v = NodeHashZero then Some s2
                 else if answered (rp_id (rl_period r)) (rp_cookie (rl_period r1)) evs
                 then SignalHealthyNode del (Hash v) s2
                 else SignalSuspectNode del (rp_id (rl_period r)) (Hash v) s2
             | None \<Rightarrow> Some s2);
      s4 \<leftarrow> ProcessExpiredSuspects del (rp_id (rl_period r)) s3;
      let p = unsafeIncrementID ((rl_period r2)\<lparr>rp_node := NodeHashZero\<rparr>);
      s5 \<leftarrow> (if rl_syncProtoRounds r2 > 0 \<and> int (unat (rp_id p)) mod rl_syncProtoRounds r2 = 0
            then PerformFullSync del s4 else Some s4);
      Some (r2\<lparr>rl_period := p\<rparr>, s5)
    }"
proof -
  have r1: "rp_id (rl_period r1) = rp_id (rl_period r)" "\<not> rp_acked (rl_period r1)"
      "rp_node (rl_period r1) = (case fst (NextProbeSubject del s) of None \<Rightarrow> NodeHashZero | Some v \<Rightarrow> Hash v)"
    using startPeriod_period [OF assms(1)] by auto
  have "rp_acked (rl_period r2) = answered (rp_id (rl_period r)) (rp_cookie (rl_period r1)) evs"
    "rp_id (rl_period r2) = rp_id (rl_period r)" "rp_node (rl_period r2) = rp_node (rl_period r1)"
    using waitPeriod_period [OF assms(2)] r1 by simp_all
  then show ?thesis
    by (simp add: endPeriod_def CurrentPeriod_def r1(3) Let_def split: option.split)
qed

text \<open>A delegate that probes one node and records the verdicts, for the witness.\<close>

definition recorder :: "Node \<Rightarrow> (NodeHash \<times> bool) list RunLoopDelegate" where
  "recorder v = \<lparr>NextProbeSubject = (\<lambda>s. (Some v, s)), GossipEvents = (\<lambda>n s. Some ([], s)),
     DispatchMessage = (\<lambda>dst m s. Some s), SignalHealthyNode = (\<lambda>h s. Some (s @ [(h, True)])),
     SignalSuspectNode = (\<lambda>p h s. Some (s @ [(h, False)])), ProcessExpiredSuspects = (\<lambda>p s. Some s),
     DelegatePingTimeout = (\<lambda>s. 0), IndirectPingMembers = (\<lambda>h s. Some []),
     DelegateNodeByHash = (\<lambda>h s. None), PerformFullSync = Some\<rparr>"

abbreviation probedNode :: Node where
  "probedNode \<equiv> \<lparr>n_Suspect = False, n_Incarnation = 3,
     n_Address = \<lparr>AddressKind = AddressIPv4, AddressBytes = 10 # replicate 15 1\<rparr>\<rparr>"

abbreviation answerOf :: "u16 \<Rightarrow> loop_event" where
  "answerOf cookie \<equiv> MessageReceived 0 (Pkt 3 (MIndirectPong \<lparr>ipong_Cookie = cookie, ipong_Period = 1\<rparr>))"

theorem period_verdict_witness:
  "\<exists>r1 r2 p. startPeriod (recorder probedNode) 7 0 (NewRunLoop 1000 1400 False 0) [] = Some (r1, [])
     \<and> waitPeriod (recorder probedNode) [answerOf 8, answerOf 7] r1 [] = Some (r2, [])
     \<and> endPeriod (recorder probedNode) r2 [] = Some (r2\<lparr>rl_period := p\<rparr>, [(Hash probedNode, True)])"
proof -
  let ?del = "recorder probedNode" and ?r = "NewRunLoop 1000 1400 False 0"
  have hash: "Hash probedNode \<noteq> NodeHashZero" 
    by (simp add: Hash_def IntoHash_def IP_Bytes_def IP_Size_def AddressKind_Size_def AddrFromSlice_def numeral_eq_Suc)
  obtain r1 where 1: "startPeriod ?del 7 0 ?r [] = Some (r1, [])" "rp_id (rl_period r1) = 1" "rp_cookie (rl_period r1) = 7"
    "rl_syncProtoRounds r1 = 0"
    by (simp add: startPeriod_def recorder_def NewRunLoop_def makeCookie_def registerSentPing_def)
  obtain r2 where 2: "waitPeriod ?del [answerOf 8, answerOf 7] r1 [] = Some (r2, [])" "rl_syncProtoRounds r2 = 0"
    using 1 by (simp add: handleMessage_def Pkt_def)
  from period_verdict [OF 1(1) 2(1)] 1 2 hash show ?thesis
    by (auto simp: recorder_def NewRunLoop_def answers_def Pkt_def)
qed

subsection \<open>The delegate as an interface\<close>

locale run_loop_delegate =
  fixes del :: "'d RunLoopDelegate"
    and inv :: "'d \<Rightarrow> bool"
  assumes probe: "inv s \<Longrightarrow> inv (snd (NextProbeSubject del s))
      \<and> (\<forall>v. fst (NextProbeSubject del s) = Some v \<longrightarrow> typedNode v)"
    and gossip: "inv s \<Longrightarrow> \<exists>es s'. GossipEvents del n s = Some (es, s') \<and> inv s' \<and> list_all typedEvent es
      \<and> (\<Sum>e\<leftarrow>es. int (Event_RequiredSize e)) \<le> max 0 n"
    and dispatch: "inv s \<Longrightarrow> typedMessage m \<Longrightarrow> length dst \<in> {4, 16} \<Longrightarrow> \<exists>s'. DispatchMessage del dst m s = Some s' \<and> inv s'"
    and healthy: "inv s \<Longrightarrow> \<exists>s'. SignalHealthyNode del h s = Some s' \<and> inv s'"
    and suspect: "inv s \<Longrightarrow> \<exists>s'. SignalSuspectNode del p h s = Some s' \<and> inv s'"
    and expire: "inv s \<Longrightarrow> \<exists>s'. ProcessExpiredSuspects del p s = Some s' \<and> inv s'"
    and full_sync: "inv s \<Longrightarrow> \<exists>s'. PerformFullSync del s = Some s' \<and> inv s'"
    and lookup: "inv s \<Longrightarrow> DelegateNodeByHash del h s = Some v \<Longrightarrow> typedNode v"
    and indirect: "inv s \<Longrightarrow> \<exists>vs. IndirectPingMembers del h s = Some (map Some vs) \<and> list_all typedNode vs"
begin

lemma IP_Bytes_length: "typedNode v \<Longrightarrow> length (IP_Bytes (n_Address v)) \<in> {4, 16}"
  by (auto simp: typedNode_def IP_Size_def AddressKind_Size_def)

lemma startPeriod_total: "inv s \<Longrightarrow> \<exists>r' s'. startPeriod del rnd now r s = Some (r', s') \<and> inv s'"
proof (cases "NextProbeSubject del s")
  case (Pair node s1)
  assume "inv s"
  with probe [of s] Pair have s1: "inv s1" and node: "\<And>v. node = Some v \<Longrightarrow> typedNode v" by auto
  show ?thesis
  proof (cases node)
    case None
    with Pair s1 show ?thesis by (simp add: startPeriod_def)
  next
    case (Some v)
    let ?r = "r\<lparr>rl_period := (makeCookie rnd ((rl_period r)\<lparr>rp_acked := False, rp_node := NodeHashZero\<rparr>))\<lparr>rp_node := Hash v\<rparr>\<rparr>"
    let ?ping = "\<lparr>ping_Cookie = rp_cookie (rl_period ?r), ping_Period = rp_id (rl_period ?r),
       ping_TargetIncarnation = n_Incarnation v, ping_Events = []\<rparr>"
    obtain es s2 where g: "GossipEvents del (rl_udpMaxLen r - int (Ping_RequiredSize ?ping)) s1 = Some (es, s2)" "inv s2" "list_all typedEvent es"
      using gossip [OF s1] by blast
    obtain s3 where "DispatchMessage del (IP_Bytes (n_Address v)) (MPing (?ping\<lparr>ping_Events := es\<rparr>)) s2 = Some s3" "inv s3"
      using dispatch [OF g(2), of "MPing (?ping\<lparr>ping_Events := es\<rparr>)"] g(3) IP_Bytes_length [OF node [OF Some]] by auto
    with g Pair Some show ?thesis by (simp add: startPeriod_def Let_def)
  qed
qed

lemma dispatchAll_total:
  "inv s \<Longrightarrow> typedMessage m \<Longrightarrow> list_all typedNode vs \<Longrightarrow> \<exists>s'. dispatchAll del (map Some vs) m s = Some s' \<and> inv s'"
proof (induction vs arbitrary: s)
  case (Cons v vs)
  then obtain s1 where "DispatchMessage del (IP_Bytes (n_Address v)) m s = Some s1" "inv s1"
    using dispatch [of s m] IP_Bytes_length [of v] by auto
  with Cons show ?case by simp
qed simp

lemma pingIndirect_total: "inv s \<Longrightarrow> \<exists>r' s'. pingIndirect del r s = Some (r', s') \<and> inv s'"
proof -
  assume s: "inv s"
  let ?h = "rp_node (rl_period r)"
  obtain vs where vs: "IndirectPingMembers del ?h s = Some (map Some vs)" "list_all typedNode vs"
    using indirect [OF s] by blast
  show ?thesis
  proof (cases "DelegateNodeByHash del ?h s")
    case (Some v)
    let ?m = "MIndirectPing \<lparr>iping_Cookie = rp_cookie (rl_period r), iping_Period = rp_id (rl_period r), iping_Address = n_Address v\<rparr>"
    have "typedMessage ?m" using lookup [OF s Some] by (simp add: typedNode_def)
    then obtain s' where "dispatchAll del (map Some vs) ?m s = Some s'" "inv s'"
      using dispatchAll_total [OF s _ vs(2)] by blast
    with Some vs s show ?thesis by (auto simp: pingIndirect_def Let_def)
  qed (use s in \<open>auto simp: pingIndirect_def Let_def\<close>)
qed

lemma waitPeriod_total: "inv s \<Longrightarrow> \<exists>r' s'. waitPeriod del evs r s = Some (r', s') \<and> inv s'"
proof (induction evs arbitrary: r s)
  case (Cons ev evs)
  show ?case
  proof (cases ev)
    case PingTimeoutFired
    obtain r1 s1 where "pingIndirect del r s = Some (r1, s1)" "inv s1" using pingIndirect_total [OF Cons.prems] by blast
    with Cons PingTimeoutFired show ?thesis by simp
  qed (use Cons in simp)
qed simp

lemma endPeriod_total: "inv s \<Longrightarrow> \<exists>r' s'. endPeriod del r s = Some (r', s') \<and> inv s'"
proof -
  assume s: "inv s"
  let ?p = "rl_period r"
  obtain s1 where s1: "(if rp_node ?p \<noteq> NodeHashZero then
      (if rp_acked ?p then SignalHealthyNode del (rp_node ?p) s else SignalSuspectNode del (CurrentPeriod r) (rp_node ?p) s)
      else Some s) = Some s1" "inv s1"
    using healthy [OF s, of "rp_node ?p"] suspect [OF s, of "CurrentPeriod r" "rp_node ?p"] s by (cases "rp_node ?p = NodeHashZero"; cases "rp_acked ?p") auto
  obtain s2 where s2: "ProcessExpiredSuspects del (CurrentPeriod r) s1 = Some s2" "inv s2" using expire [OF s1(2)] by blast
  obtain s3 where "PerformFullSync del s2 = Some s3" "inv s3" using full_sync [OF s2(2)] by blast
  with s1 s2 show ?thesis by (auto simp: endPeriod_def Let_def CurrentPeriod_def)
qed

lemma runPeriod_total: "inv s \<Longrightarrow> \<exists>r' s'. runPeriod del rnd now evs r s = Some (r', s') \<and> inv s'"
proof -
  assume "inv s"
  then obtain r1 s1 where 1: "startPeriod del rnd now r s = Some (r1, s1)" "inv s1" using startPeriod_total by blast
  obtain r2 s2 where 2: "waitPeriod del evs r1 s1 = Some (r2, s2)" "inv s2" using waitPeriod_total [OF 1(2)] by blast
  with 1 endPeriod_total [OF 2(2), of r2] show ?thesis by (simp add: runPeriod_def)
qed

end

end
