(* ===== verification/Ascon.thy ===== *)
theory Ascon
  imports Prelude
begin

text \<open>
  \<open>internal/core/ascon.go\<close>: sealing and opening buffers. The cipher is the third-party package
  \<open>circl/cipher/ascon\<close>; its \<open>Seal\<close> and \<open>Open\<close> for the configured key are the parameters \<open>aead_seal\<close> and
  \<open>aead_open\<close>, from a nonce and a buffer. The locale \<open>aead\<close> states what its documentation promises: a
  sealed buffer opens to the plain one under the same nonce. The random source of the nonce is an
  argument; it may fail.
\<close>

record asconWrapper =
  enabled :: bool
  aead_seal :: "byte list \<Rightarrow> byte list \<Rightarrow> byte list"
  aead_open :: "byte list \<Rightarrow> byte list \<Rightarrow> byte list option"

text \<open>\<open>NewASCON\<close>: the constructor of the cipher fails on a key of the wrong size, which is \<open>None\<close>.\<close>

definition NewASCON :: "(byte list \<Rightarrow> ((byte list \<Rightarrow> byte list \<Rightarrow> byte list) \<times> (byte list \<Rightarrow> byte list \<Rightarrow> byte list option)) option)
    \<Rightarrow> byte list \<Rightarrow> asconWrapper option" where
  "NewASCON asconNew key =
     (if length key = 0 then Some \<lparr>enabled = False, aead_seal = (\<lambda>_ d. d), aead_open = (\<lambda>_ d. Some d)\<rparr>
      else do {
        encCipher \<leftarrow> asconNew key;
        decCipher \<leftarrow> asconNew key;
        Some \<lparr>enabled = True, aead_seal = fst encCipher, aead_open = snd decCipher\<rparr>
      })"

text \<open>\<open>Seal\<close>: \<open>None\<close> is the error of the random source, otherwise it filled the nonce.\<close>

definition Seal :: "asconWrapper \<Rightarrow> byte list option \<Rightarrow> byte list \<Rightarrow> byte list option" where
  "Seal a rnd data = (if \<not> enabled a then Some data
     else do {
       nonce \<leftarrow> rnd;
       let cipherText = aead_seal a nonce data;
       Some (nonce @ cipherText)
     })"

text \<open>\<open>Open\<close>: the outer \<open>None\<close> is the panic of the slice expressions on a buffer shorter than a nonce, the
  inner one the nil that reports a failed decryption.\<close>

definition Open :: "asconWrapper \<Rightarrow> byte list \<Rightarrow> byte list option option" where
  "Open a data = (if \<not> enabled a then Some (Some data)
     else if length data < 16 then None
     else let nonce = take 16 data; data = drop 16 data
       in Some (aead_open a nonce data))"

lemma Open_panic_iff: "Open a data = None \<longleftrightarrow> enabled a \<and> length data < 16"
  by (simp add: Open_def Let_def)

locale aead =
  fixes a :: asconWrapper
  assumes open_seal: "aead_open a nonce (aead_seal a nonce data) = Some data"
begin

lemma Open_Seal:
  assumes "Seal a rnd data = Some sealed" and "\<And>nonce. rnd = Some nonce \<Longrightarrow> length nonce = 16"
  shows "Open a sealed = Some (Some data)"
  using assms open_seal by (cases "enabled a") (auto simp: Seal_def Open_def split: Option.bind_splits)

end

text \<open>The handler without a key promises as much: both operations return their input.\<close>

interpretation plain: aead "the (NewASCON asconNew [])"
  by unfold_locales (simp add: NewASCON_def)

text \<open>C38: opening what was sealed gives back the buffer, and \<open>Open\<close> panics exactly on a buffer shorter than
  the sixteen bytes of a nonce when a key is configured.\<close>

theorem Seal_then_Open:
  assumes "\<forall>nonce data. aead_open a nonce (aead_seal a nonce data) = Some data"
    and "Seal a rnd data = Some sealed" and "\<forall>nonce. rnd = Some nonce \<longrightarrow> length nonce = 16"
  shows "Open a sealed = Some (Some data) \<and> (\<forall>d. Open a d = None \<longleftrightarrow> enabled a \<and> length d < 16)"
proof -
  have "aead a" using assms(1) by unfold_locales simp
  then show ?thesis using aead.Open_Seal [OF _ assms(2)] assms(3) Open_panic_iff by blast
qed

text \<open>A toy cipher for the witness: exclusive or with the first byte of the nonce.\<close>

definition xorWrapper :: asconWrapper where
  "xorWrapper = \<lparr>enabled = True, aead_seal = (\<lambda>nonce. map (\<lambda>b. b XOR hd nonce)),
     aead_open = (\<lambda>nonce c. Some (map (\<lambda>b. b XOR hd nonce) c))\<rparr>"

theorem Seal_then_Open_witness:
  "Open xorWrapper (replicate 16 7 @ [6, 5]) = Some (Some [1, 2]) \<and> Open xorWrapper [1, 2, 3] = None"
  using Seal_then_Open [of xorWrapper "Some (replicate 16 7)" "[1, 2]" "replicate 16 7 @ [6, 5]"]
  by (simp add: xorWrapper_def Seal_def xor.assoc comp_def)

end
