(* ===== verification/Swim_Server.thy ===== *)
theory Swim_Server
  imports Node_Manager Gossip_Manager Run_Loop Ascon
begin

text \<open>
  \<open>swim_server.go\<close>: the server that owns the member list, the gossip queue and the run loop. Its state
  here is what its handlers read and write. What they hand to other goroutines and to the network is
  appended to \<open>sw_effects\<close>, in order: datagrams to \<open>WriteUDP\<close>, packets to the run loop's channel,
  exchanges the sync manager is asked to start, and the goroutine of an indirect ping.

  The environment \<open>env\<close> stands for what the handlers do not control: how \<open>slices.SortFunc\<close> orders
  equal items, the order Go visits a map in, the random sources, and the sealing of outgoing buffers
  (\<open>None\<close> is an error of \<open>Seal\<close>). The current period, which the server reads from the loop, is an
  argument. A result of \<open>None\<close> is a panic.
\<close>

subsection \<open>State and environment\<close>

datatype effect =
    UDPOut NetIP "byte list"
  | MulticastOut "byte list"
  | LoopMessage Packet
  | BootstrapResponseReceived Packet
  | StartBootstrap Node
  | StartSync Node
  | GoIndirectPing IndirectPing Packet
  | ExpireCallback u32
  | BootstrapFinished
  | GoSyncRequest Sync NetIP

record swimServer =
  hostAddress :: IP
  incarnation :: u16
  sw_nodes :: nodeManager
  sw_gossip :: gossipManager
  sw_ascon :: asconWrapper
  bootstrapResponseReceived :: bool
  indirectPingCallbacks :: "u32 \<rightharpoonup> NetIP \<times> u16 \<times> u16"
  lastFullSyncNode :: NodeHash
  opt_SuspectPeriods :: u16
  opt_IndirectPings :: int
  opt_PingTimeout :: int
  sw_effects :: "effect list"

record env =
  env_sort :: sorter
  env_shuffle :: "nodeManager \<Rightarrow> nat \<Rightarrow> nat"
  env_stable :: "nodeList \<Rightarrow> NodeHash list"
  env_suspects :: "nodeList \<Rightarrow> NodeHash list"
  env_all :: "nodeList \<Rightarrow> NodeHash list"
  env_nonce :: "nat \<Rightarrow> byte list option"

definition mapChoices :: "env \<Rightarrow> nodeManager \<Rightarrow> choices" where
  "mapChoices e n = (env_shuffle e n, env_stable e (nm_list n), env_suspects e (nm_list n))"

definition emit :: "effect \<Rightarrow> swimServer \<Rightarrow> swimServer" where
  "emit x s = s\<lparr>sw_effects := sw_effects s @ [x]\<rparr>"

definition gossipAdd :: "env \<Rightarrow> Event \<Rightarrow> swimServer \<Rightarrow> swimServer option" where
  "gossipAdd e ev s = do {
     g \<leftarrow> gossipManager_Add (env_sort e) ev (sw_gossip s);
     Some (s\<lparr>sw_gossip := g\<rparr>)
   }"

subsection \<open>Sending\<close>

text \<open>A failed seal is logged and the message dropped. The address conversion panics on an address
  that is neither of four nor of sixteen bytes.\<close>

definition server_DispatchMessage :: "env \<Rightarrow> NetIP \<Rightarrow> Message \<Rightarrow> swimServer \<Rightarrow> swimServer option" where
  "server_DispatchMessage e dst message s = do {
     buf \<leftarrow> EncPkt (incarnation s) message;
     (case Seal (sw_ascon s) (env_nonce e (length (sw_effects s))) buf of
        None \<Rightarrow> Some s
      | Some buf \<Rightarrow> do {
          _ \<leftarrow> ConvertNetIP dst;
          Some (emit (UDPOut dst buf) s)
        })
   }"

definition DispatchMulticast :: "env \<Rightarrow> Message \<Rightarrow> swimServer \<Rightarrow> swimServer option" where
  "DispatchMulticast e message s = do {
     buf \<leftarrow> EncPkt (incarnation s) message;
     (case Seal (sw_ascon s) (env_nonce e (length (sw_effects s))) buf of
        None \<Rightarrow> Some s
      | Some buf \<Rightarrow> Some (emit (MulticastOut buf) s))
   }"

subsection \<open>Events about members and about the server itself\<close>

definition isEventLocal :: "Event \<Rightarrow> swimServer \<Rightarrow> bool" where
  "isEventLocal event s = IP_Equal (GetSubject (ev_Payload event)) (Some (hostAddress s))"

text \<open>The test compares a 16-bit sum with the largest 16-bit value, as the Go code does.\<close>

definition incrementIncarnationToSurpass :: "env \<Rightarrow> u16 \<Rightarrow> swimServer \<Rightarrow> swimServer option" where
  "incrementIncarnationToSurpass e lastKnown s =
     (if lastKnown + 1 > 65535 then
        gossipAdd e \<lparr>ev_Payload = PWrap \<lparr>w_Subject = hostAddress s, w_Incarnation = lastKnown, w_NewIncarnation = 0\<rparr>\<rparr>
          (s\<lparr>incarnation := 0\<rparr>)
      else let s = s\<lparr>incarnation := lastKnown + 1\<rparr> in
        gossipAdd e \<lparr>ev_Payload = PAlive \<lparr>s_Subject = hostAddress s, s_Incarnation = incarnation s\<rparr>\<rparr> s)"

definition applyEvent :: "u16 \<Rightarrow> EventEncoder \<Rightarrow> nodeManager \<Rightarrow> nodeManager option" where
  "applyEvent period p n = (case p of
     PFaulty msg \<Rightarrow> (case NodeByIP (e_Subject msg) (nm_list n) of
         None \<Rightarrow> Some n
       | Some v \<Rightarrow> if n_Incarnation v > e_Incarnation msg then Some n else nodeManager_MarkFaulty (Hash v) n)
   | PSuspect msg \<Rightarrow> Some (UpdateOrCreate period
       \<lparr>n_Suspect = True, n_Incarnation = e_Incarnation msg, n_Address = e_Subject msg\<rparr> n)
   | PJoin msg \<Rightarrow> Some (UpdateOrCreate period
       \<lparr>n_Suspect = False, n_Incarnation = e_Incarnation msg, n_Address = e_Subject msg\<rparr> n)
   | PHealthy msg \<Rightarrow> Some (UpdateOrCreate period
       \<lparr>n_Suspect = False, n_Incarnation = e_Incarnation msg, n_Address = e_Subject msg\<rparr> n)
   | PLeft msg \<Rightarrow> (let hash = IntoHash (s_Subject msg) in case NodeByHash hash (nm_list n) of
         None \<Rightarrow> Some n
       | Some v \<Rightarrow> if n_Incarnation v > s_Incarnation msg then Some n
           else Some (n\<lparr>nm_list := Delete hash (nm_list n)\<rparr>))
   | PAlive msg \<Rightarrow> Some (UpdateOrCreate period
       \<lparr>n_Suspect = False, n_Incarnation = s_Incarnation msg, n_Address = s_Subject msg\<rparr> n)
   | PWrap msg \<Rightarrow> Some (WrapIncarnation period
       \<lparr>n_Suspect = False, n_Incarnation = w_Incarnation msg, n_Address = w_Subject msg\<rparr> n))"

text \<open>What an event about the server itself does to the two variables of the loop: the incarnation to
  surpass (-1 for none) and whether to announce the server again.\<close>

definition localEvent :: "u16 \<Rightarrow> Event \<Rightarrow> int \<times> bool \<Rightarrow> int \<times> bool" where
  "localEvent own ev v = (case v of (lastIncarnation, reannounce) \<Rightarrow>
     if Event_EventKind ev = EventSuspect \<or> Event_EventKind ev = EventFaulty then
       (let remoteIncarnation = GetIncarnation (ev_Payload ev);
            reannounce = (reannounce \<or> remoteIncarnation < own)
        in if remoteIncarnation \<ge> own then (int (unat remoteIncarnation), reannounce)
           else (lastIncarnation, reannounce))
     else (let inc = GetIncarnation (ev_Payload ev) in
       if inc > own then (int (unat inc), reannounce) else (lastIncarnation, reannounce)))"

fun processPingEvents_loop :: "env \<Rightarrow> u16 \<Rightarrow> Event list \<Rightarrow> int \<times> bool \<Rightarrow> swimServer \<Rightarrow> ((int \<times> bool) \<times> swimServer) option" where
  "processPingEvents_loop e period [] v s = Some (v, s)"
| "processPingEvents_loop e period (ev # evs) v s = do {
     s \<leftarrow> gossipAdd e ev s;
     if isEventLocal ev s then processPingEvents_loop e period evs (localEvent (incarnation s) ev v) s
     else do {
       n \<leftarrow> applyEvent period (ev_Payload ev) (sw_nodes s);
       processPingEvents_loop e period evs v (s\<lparr>sw_nodes := n\<rparr>)
     }
   }"

definition processPingEvents :: "env \<Rightarrow> u16 \<Rightarrow> Event list \<Rightarrow> swimServer \<Rightarrow> swimServer option" where
  "processPingEvents e period events s = do {
     ((lastIncarnation, reannounce), s) \<leftarrow> processPingEvents_loop e period events (-1, False) s;
     if lastIncarnation > -1 then incrementIncarnationToSurpass e (word_of_int lastIncarnation) s
     else if reannounce then
       gossipAdd e \<lparr>ev_Payload = PAlive \<lparr>s_Subject = hostAddress s, s_Incarnation = incarnation s\<rparr>\<rparr> s
     else Some s
   }"

subsection \<open>Datagrams\<close>

text \<open>The pong that answers a ping: whether the sender knows the server's incarnation, and the last gossip
  about the sender.\<close>

definition pingReply :: "Packet \<Rightarrow> Ping \<Rightarrow> swimServer \<Rightarrow> Pong" where
  "pingReply pkt msg s =
     (let lastKnown = LastGossipAbout (IPFromNetIP (p_Source pkt)) (sw_gossip s);
          lastInc = (case lastKnown of None \<Rightarrow> 0 | Some ev \<Rightarrow> GetIncarnation (ev_Payload ev));
          lastEventKind = (case lastKnown of None \<Rightarrow> 0 | Some ev \<Rightarrow> Event_EventKind ev)
      in \<lparr>pong_Ack = (ping_TargetIncarnation msg = incarnation s), pong_Cookie = ping_Cookie msg,
          pong_Period = ping_Period msg, pong_IsLastStateKnown = (lastKnown \<noteq> None),
          pong_LastKnownEventKind = lastEventKind, pong_LastKnownIncarnation = lastInc\<rparr>)"

definition handlePing :: "env \<Rightarrow> u16 \<Rightarrow> Packet \<Rightarrow> Ping \<Rightarrow> swimServer \<Rightarrow> swimServer option" where
  "handlePing e period pkt msg s = do {
     s \<leftarrow> server_DispatchMessage e (p_Source pkt) (MPong (pingReply pkt msg s)) s;
     let node = \<lparr>n_Suspect = False, n_Incarnation = h_Incarnation (p_Header pkt), n_Address = IPFromNetIP (p_Source pkt)\<rparr>;
     let n = nodeManager_Add period node (sw_nodes s);
     let n = n\<lparr>nm_list := MarkStable (Hash node) (nm_list n)\<rparr>;
     processPingEvents e period (ping_Events msg) (s\<lparr>sw_nodes := n\<rparr>)
   }"

text \<open>Whether a pong shows that its sender believes the server faulty, suspect or of a later
  incarnation. As in Go, the conjunction binds tighter than the disjunction.\<close>

definition pongOutdated :: "Pong \<Rightarrow> swimServer \<Rightarrow> bool" where
  "pongOutdated msg s = (let ev = pong_LastKnownEventKind msg in
     pong_IsLastStateKnown msg \<and> ((ev = EventFaulty \<or> ev = EventSuspect) \<and> pong_LastKnownIncarnation msg \<ge> incarnation s)
     \<or> pong_LastKnownIncarnation msg > incarnation s)"

definition handlePong :: "env \<Rightarrow> Packet \<Rightarrow> Pong \<Rightarrow> swimServer \<Rightarrow> swimServer option" where
  "handlePong e pkt msg s = do {
     s \<leftarrow> (if pongOutdated msg s then incrementIncarnationToSurpass e (pong_LastKnownIncarnation msg) s else Some s);
     let indirectTag = periodTag (pong_Cookie msg) (pong_Period msg);
     s \<leftarrow> (case indirectPingCallbacks s indirectTag of None \<Rightarrow> Some s
       | Some (source, cookie, period) \<Rightarrow>
           server_DispatchMessage e source (MIndirectPong \<lparr>ipong_Cookie = cookie, ipong_Period = period\<rparr>)
             (s\<lparr>indirectPingCallbacks := (indirectPingCallbacks s)(indirectTag := None)\<rparr>));
     Some (emit (LoopMessage pkt) s)
   }"

definition handlePacket :: "env \<Rightarrow> u16 \<Rightarrow> Packet \<Rightarrow> swimServer \<Rightarrow> swimServer option" where
  "handlePacket e period pkt s = (case p_Message pkt of
     Some MBootstrapResponse \<Rightarrow>
       (if bootstrapResponseReceived s then Some s
        else Some (emit (BootstrapResponseReceived pkt) (s\<lparr>bootstrapResponseReceived := True\<rparr>)))
   | Some (MPing msg) \<Rightarrow> handlePing e period pkt msg s
   | Some (MPong msg) \<Rightarrow> handlePong e pkt msg s
   | Some (MIndirectPong msg) \<Rightarrow> Some (emit (LoopMessage pkt) s)
   | Some (MIndirectPing msg) \<Rightarrow> Some (emit (GoIndirectPing msg pkt) s)
   | Some MBootstrapAck \<Rightarrow> Some (emit (StartBootstrap
       \<lparr>n_Suspect = False, n_Incarnation = h_Incarnation (p_Header pkt), n_Address = IPFromNetIP (p_Source pkt)\<rparr>) s)
   | _ \<Rightarrow> Some s)"

definition HandleUDPControlMessage :: "env \<Rightarrow> u16 \<Rightarrow> byte list \<Rightarrow> NetIP \<Rightarrow> swimServer \<Rightarrow> swimServer option" where
  "HandleUDPControlMessage e period data source s = do {
     opened \<leftarrow> Open (sw_ascon s) data;
     (case opened of None \<Rightarrow> Some s
      | Some data \<Rightarrow> do {
          parsed \<leftarrow> ParsePacket data;
          (case parsed of Inl err \<Rightarrow> Some s
           | Inr pkt \<Rightarrow> handlePacket e period (pkt\<lparr>p_Source := source\<rparr>) s)
        })
   }"

text \<open>The goroutine of an indirect ping. The callback is the data it closes over; another goroutine
  deletes it five periods later.\<close>

definition performIndirectPing :: "env \<Rightarrow> nat \<Rightarrow> u16 \<Rightarrow> IndirectPing \<Rightarrow> Packet \<Rightarrow> swimServer \<Rightarrow> swimServer option" where
  "performIndirectPing e rnd period msg pkt s =
     (let cookie = word_of_nat rnd;
          tag = periodTag cookie period;
          s = s\<lparr>indirectPingCallbacks := (indirectPingCallbacks s)(tag \<mapsto> (p_Source pkt, iping_Cookie msg, iping_Period msg))\<rparr>
      in do {
        s \<leftarrow> server_DispatchMessage e (IP_Bytes (iping_Address msg)) (MPing
          \<lparr>ping_Cookie = cookie, ping_Period = period, ping_TargetIncarnation = 0, ping_Events = []\<rparr>) s;
        Some (emit (ExpireCallback tag) s)
      })"

definition HandleMulticastMessage :: "env \<Rightarrow> nat \<Rightarrow> byte list \<Rightarrow> NetIP \<Rightarrow> swimServer \<Rightarrow> swimServer option" where
  "HandleMulticastMessage e rnd data source s = do {
     opened \<leftarrow> Open (sw_ascon s) data;
     (case opened of None \<Rightarrow> Some s
      | Some data \<Rightarrow> do {
          parsed \<leftarrow> ParsePacket data;
          (case parsed of Inl err \<Rightarrow> Some s
           | Inr pkt \<Rightarrow>
               if h_OpCode (p_Header pkt) \<noteq> BTRP then Some s
               else if rnd mod 2 = 0 then Some s
               else server_DispatchMessage e source MBootstrapResponse s)
        })
   }"

text \<open>What the timer goroutine that \<open>performIndirectPing\<close> starts does at last.\<close>

definition deleteCallback :: "u32 \<Rightarrow> swimServer \<Rightarrow> swimServer" where
  "deleteCallback tag s = s\<lparr>indirectPingCallbacks := (indirectPingCallbacks s)(tag := None)\<rparr>"

subsection \<open>The server as the delegate of its run loop\<close>

definition server_NextProbeSubject :: "env \<Rightarrow> swimServer \<Rightarrow> Node option \<times> swimServer" where
  "server_NextProbeSubject e s = (let (v, n) = NextPing (mapChoices e (sw_nodes s)) (sw_nodes s) in (v, s\<lparr>sw_nodes := n\<rparr>))"

definition server_GossipEvents :: "env \<Rightarrow> int \<Rightarrow> swimServer \<Rightarrow> (Event list \<times> swimServer) option" where
  "server_GossipEvents e maxLen s = do {
     (es, g) \<leftarrow> gossipManager_Next (env_sort e) maxLen (sw_gossip s);
     Some (es, s\<lparr>sw_gossip := g\<rparr>)
   }"

definition server_SignalHealthyNode :: "NodeHash \<Rightarrow> swimServer \<Rightarrow> swimServer option" where
  "server_SignalHealthyNode hash s =
     Some (s\<lparr>sw_nodes := (sw_nodes s)\<lparr>nm_list := MarkStable hash (nm_list (sw_nodes s))\<rparr>\<rparr>)"

definition server_SignalSuspectNode :: "env \<Rightarrow> u16 \<Rightarrow> NodeHash \<Rightarrow> swimServer \<Rightarrow> swimServer option" where
  "server_SignalSuspectNode e period hash s =
     (let s = s\<lparr>sw_nodes := (sw_nodes s)\<lparr>nm_list := MarkSuspect period False hash (nm_list (sw_nodes s))\<rparr>\<rparr> in
      case NodeByHash hash (nm_list (sw_nodes s)) of None \<Rightarrow> Some s
      | Some node \<Rightarrow> gossipAdd e \<lparr>ev_Payload = PSuspect \<lparr>e_Source = hostAddress s, e_Subject = n_Address node,
          e_Incarnation = n_Incarnation node\<rparr>\<rparr> s)"

fun expireAll :: "env \<Rightarrow> Node list \<Rightarrow> swimServer \<Rightarrow> swimServer option" where
  "expireAll e [] s = Some s"
| "expireAll e (n # ns) s = do {
     m \<leftarrow> nodeManager_MarkFaulty (Hash n) (sw_nodes s);
     s \<leftarrow> gossipAdd e \<lparr>ev_Payload = PFaulty \<lparr>e_Source = hostAddress s, e_Subject = n_Address n,
       e_Incarnation = n_Incarnation n\<rparr>\<rparr> (s\<lparr>sw_nodes := m\<rparr>);
     expireAll e ns s
   }"

definition server_ProcessExpiredSuspects :: "env \<Rightarrow> u16 \<Rightarrow> swimServer \<Rightarrow> swimServer option" where
  "server_ProcessExpiredSuspects e period s =
     (let (expired, l) = ExpiredSuspects period (opt_SuspectPeriods s) (env_suspects e (nm_list (sw_nodes s))) (nm_list (sw_nodes s))
      in expireAll e expired (s\<lparr>sw_nodes := (sw_nodes s)\<lparr>nm_list := l\<rparr>\<rparr>))"

definition server_IndirectPingMembers :: "env \<Rightarrow> NodeHash \<Rightarrow> swimServer \<Rightarrow> Node option list option" where
  "server_IndirectPingMembers e node s =
     IndirectPingCandidates (opt_IndirectPings s) node (env_all e (nm_list (sw_nodes s))) (nm_list (sw_nodes s))"

text \<open>The callback of the range keeps the first node seen and stops at the first that is not the one of
  the last synchronisation.\<close>

definition fullSync_pick :: "NodeHash \<Rightarrow> Node option \<times> Node option \<Rightarrow> Node \<Rightarrow> bool \<times> (Node option \<times> Node option)" where
  "fullSync_pick lst acc n = (case acc of (firstNode, selected) \<Rightarrow>
     let firstNode = (if firstNode = None then Some n else firstNode)
     in if Hash n \<noteq> lst then (False, (firstNode, Some n)) else (True, (firstNode, selected)))"

definition server_PerformFullSync :: "env \<Rightarrow> swimServer \<Rightarrow> swimServer option" where
  "server_PerformFullSync e s =
     (let l = nm_list (sw_nodes s);
          (firstNode, selected) = nodeList_Range NodeTypeStable (fullSync_pick (lastFullSyncNode s))
            (env_stable e l) (env_suspects e l) l (None, None)
      in case (case selected of Some n \<Rightarrow> Some n | None \<Rightarrow> firstNode) of
           None \<Rightarrow> Some s
         | Some n \<Rightarrow> Some (emit (StartSync n) (s\<lparr>lastFullSyncNode := Hash n\<rparr>)))"

definition server_delegate :: "env \<Rightarrow> swimServer RunLoopDelegate" where
  "server_delegate e = \<lparr>NextProbeSubject = server_NextProbeSubject e, GossipEvents = server_GossipEvents e,
     DispatchMessage = server_DispatchMessage e, SignalHealthyNode = server_SignalHealthyNode,
     SignalSuspectNode = server_SignalSuspectNode e, ProcessExpiredSuspects = server_ProcessExpiredSuspects e,
     DelegatePingTimeout = opt_PingTimeout, IndirectPingMembers = server_IndirectPingMembers e,
     DelegateNodeByHash = (\<lambda>h s. NodeByHash h (nm_list (sw_nodes s))), PerformFullSync = server_PerformFullSync e\<rparr>"

end
