(* ===== verification/Server_Invariant.thy ===== *)
theory Server_Invariant
  imports Swim_Server "HOL-Library.List_Lexorder"
begin

text \<open>
  The invariant of the server and that every handler keeps it without a panic: the invariants of
  the member list and of the gossip queue, and that every address the server holds is a Go \<open>IP\<close> value
  (sixteen bytes), so that encoding and sending never fail. The server is then an interpretation of
  the interface its run loop relies on.
\<close>

subsection \<open>Environments\<close>

text \<open>What the environment promises: sorting sorts, and the keys of a map are visited once each.\<close>

definition valid_env :: "env \<Rightarrow> bool" where
  "valid_env e \<longleftrightarrow> sorts (env_sort e) \<and> (\<forall>n. nl_inv n \<longrightarrow>
     enumerates (env_stable e n) (stable n) \<and> enumerates (env_suspects e n) (suspects n)
     \<and> enumerates (env_all e n) (nodeByType n))"

lemma valid_env_choices: "valid_env e \<Longrightarrow> nl_inv (nm_list n) \<Longrightarrow> valid_choices (mapChoices e n) (nm_list n)"
  by (simp add: valid_env_def valid_choices_def mapChoices_def)

lemma valid_env_sorts: "valid_env e \<Longrightarrow> sorts (env_sort e)"
  by (simp add: valid_env_def)

subsection \<open>Typed members and events\<close>

definition typed_members :: "member_map \<Rightarrow> bool" where
  "typed_members m \<longleftrightarrow> (\<forall>h v. m h = Some v \<longrightarrow> typedNode (node_of v))"

fun typed_nm :: "nm_op \<Rightarrow> bool" where
  "typed_nm (NAdd p v) = typedNode v"
| "typed_nm (NBootstrap p vs) = list_all typedNode vs"
| "typed_nm (NUpdateOrCreate p v) = typedNode v"
| "typed_nm (NWrapIncarnation p v) = typedNode v"
| "typed_nm _ = True"

fun typed_nl :: "nl_op \<Rightarrow> bool" where
  "typed_nl (OAdd p v) = typedNode v"
| "typed_nl (OBootstrap p vs) = list_all typedNode vs"
| "typed_nl _ = True"

lemma typedNode_updates [simp]:
  "typedNode (v\<lparr>n_Suspect := b\<rparr>) = typedNode v" "typedNode (v\<lparr>n_Incarnation := i\<rparr>) = typedNode v"
  by (simp_all add: typedNode_def)

lemma typed_members_upd: "typed_members m \<Longrightarrow> (\<And>v. x = Some v \<Longrightarrow> typedNode (node_of v)) \<Longrightarrow> typed_members (m(h := x))"
  by (auto simp: typed_members_def)

lemma typed_m_add: "typed_members m \<Longrightarrow> typedNode v \<Longrightarrow> typed_members (m_add self p v m)"
  by (auto simp: m_add_def new_member_def intro: typed_members_upd)

lemma typed_m_op:
  assumes "typed_members m" and "typed_nl l"
  shows "typed_members (m_op self l m)"
proof -
  have at: "m h = Some v \<Longrightarrow> typedNode (node_of v)" for h v using assms(1) by (auto simp: typed_members_def)
  show ?thesis
  proof (cases l)
    case (OBootstrap p vs)
    have "typed_members m' \<Longrightarrow> list_all typedNode vs \<Longrightarrow> typed_members (fold (m_add self p) vs m')" for m'
      by (induction vs arbitrary: m') (auto intro: typed_m_add)
    with assms OBootstrap show ?thesis by simp
  next
    case (OExpire c k)
    have "m_expire c k m h = Some v \<Longrightarrow> m h = Some v" for h v
      by (auto simp: m_expire_def split: option.splits member.splits if_splits)
    with OExpire at show ?thesis by (auto simp: typed_members_def)
  next
    case (OMarkStable h)
    then show ?thesis
      using assms(1) at [of h] by (auto simp: m_stable_def intro!: typed_members_upd split: option.split member.split)
  next
    case (OMarkSuspect p r h)
    then show ?thesis
      using assms(1) at [of h] by (auto simp: m_suspect_def intro!: typed_members_upd split: option.split member.split)
  next
    case (OIncarnation h i)
    then show ?thesis using assms(1) at [of h] by (auto simp: m_write_def intro!: typed_members_upd)
  qed (use assms in \<open>auto simp: m_remove_def intro: typed_m_add typed_members_upd\<close>)
qed

subsection \<open>The member list of a server\<close>

definition nodes_ok :: "IP \<Rightarrow> nodeManager \<Rightarrow> bool" where
  "nodes_ok self n \<longleftrightarrow> nm_inv n \<and> selfAddr (nm_list n) = self \<and> typed_members (members (nm_list n))"

lemma typed_nm_ops: "typed_nm l \<Longrightarrow> list_all typed_nl (nm_ops l n)"
  by (cases l) (auto split: option.split)

lemma typed_fold: "list_all typed_nl ls \<Longrightarrow> typed_members m \<Longrightarrow> typed_members (fold (m_op self) ls m)"
  by (induction ls arbitrary: m) (auto simp del: m_op.simps intro: typed_m_op)

lemma nodes_ok_step:
  assumes "nodes_ok self n" and "nm_step l n n'" and "typed_nm l"
  shows "nodes_ok self n'"
proof -
  have "nm_inv n'" using nm.step_inv assms(1, 2) by (auto simp: nodes_ok_def)
  moreover have "members (nm_list n') = fold (m_op (selfAddr (nm_list n))) (nm_ops l (nm_list n)) (members (nm_list n))
      \<and> selfAddr (nm_list n') = selfAddr (nm_list n)"
    using trace_members [OF _ nm_step_list [OF assms(2)]] assms(1) by (simp add: nodes_ok_def nm_inv_def)
  ultimately show ?thesis
    using assms typed_fold typed_nm_ops by (auto simp: nodes_ok_def)
qed

lemma nodes_ok_inv: "nodes_ok self n \<Longrightarrow> nl_inv (nm_list n)"
  by (simp add: nodes_ok_def nm_inv_def)

lemma nodes_ok_lookup:
  assumes "nodes_ok self n" and "NodeByHash h (nm_list n) = Some v"
  shows "typedNode v \<and> Hash v = h \<and> n_Address v \<noteq> self"
proof -
  have "nl_cons (nm_list n)" and m: "m_inv self (members (nm_list n))" and t: "typed_members (members (nm_list n))"
    using assms(1) by (auto simp: nodes_ok_def nm_inv_def nl_inv_def)
  then obtain w where "members (nm_list n) h = Some w" "v = node_of w"
    using assms(2) by (auto simp: NodeByHash_members)
  with m t show ?thesis by (auto simp: m_inv_def sound_def typed_members_def)
qed

subsection \<open>The gossip queue of a server\<close>

definition gossip_ok :: "gossipManager \<Rightarrow> bool" where
  "gossip_ok g \<longleftrightarrow> gm_inv g \<and> (\<forall>v \<in> set (gm_queue g). typedEvent (First v))"

lemma gossip_ok_Add:
  assumes "sorts srt" and "gossip_ok g" and "typedEvent ev"
  shows "\<exists>g'. gossipManager_Add srt ev g = Some g' \<and> gossip_ok g'"
proof -
  obtain g' where g': "gossipManager_Add srt ev g = Some g'" by (simp add: Add_result)
  have "set ((gm_queue g)[i := x]) \<subseteq> insert x (set (gm_queue g))" for i x by (rule set_update_subset_insert)
  then have "\<forall>v \<in> set (gm_queue g'). typedEvent (First v)"
    using g' assms by (fastforce simp: Add_result gossip_ok_def sorts_set split: option.splits if_splits)
  with g' gm_inv_Add [OF assms(1) _ g'] assms(2) show ?thesis by (simp add: gossip_ok_def)
qed

lemma spent_First: "First ` set (spent L q) = First ` set q"
proof -
  have "map First (spent L q) = map First q"
    by (simp add: spent_def comp_def) (metis append_take_drop_id map_append)
  then show ?thesis by (metis set_map)
qed

lemma gossip_ok_Next:
  assumes "sorts srt" and "gossip_ok g"
  shows "\<exists>es g'. gossipManager_Next srt L g = Some (es, g') \<and> gossip_ok g' \<and> list_all typedEvent es
    \<and> (\<Sum>e\<leftarrow>es. int (Event_RequiredSize e)) \<le> max 0 L"
proof -
  have typed: "typedEvent ev" if "ev \<in> First ` set (gm_queue g)" for ev using assms(2) that by (auto simp: gossip_ok_def)
  obtain es g' where n: "gossipManager_Next srt L g = Some (es, g')"
      "(\<Sum>e\<leftarrow>es. int (Event_RequiredSize e)) \<le> max 0 L" "es = take (length es) (CurrentGossips g)"
    using Next_space [of srt L g] by blast
  have "set es \<subseteq> First ` set (gm_queue g)"
    using set_take_subset [of "length es" "CurrentGossips g"] n(3) by (simp add: CurrentGossips_def)
  then have "list_all typedEvent es" using typed by (auto simp: list_all_iff)
  moreover have "set (gm_queue g') \<subseteq> set (spent L (gm_queue g))"
    using n(1) sorts_set [OF assms(1)] by (auto simp: Next_result split: if_splits dest: in_set_dropD)
  then have "First ` set (gm_queue g') \<subseteq> First ` set (gm_queue g)"
    using spent_First [of L "gm_queue g"] by blast
  then have "\<forall>v \<in> set (gm_queue g'). typedEvent (First v)" using typed by blast
  ultimately show ?thesis
    using n gm_inv_Next [OF assms(1) _ n(1)] assms(2) by (auto simp: gossip_ok_def)
qed

subsection \<open>The server\<close>

definition srv_inv :: "swimServer \<Rightarrow> bool" where
  "srv_inv s \<longleftrightarrow> nodes_ok (hostAddress s) (sw_nodes s) \<and> gossip_ok (sw_gossip s) \<and> typedIP (hostAddress s)
     \<and> 0 < opt_IndirectPings s
     \<and> (\<forall>tag src c p. indirectPingCallbacks s tag = Some (src, c, p) \<longrightarrow> length src \<in> {4, 16})"

lemma srv_inv_irrelevant [simp]:
  "srv_inv (emit x s) = srv_inv s"
  "srv_inv (s\<lparr>incarnation := i\<rparr>) = srv_inv s"
  "srv_inv (s\<lparr>bootstrapResponseReceived := b\<rparr>) = srv_inv s"
  "srv_inv (s\<lparr>lastFullSyncNode := h\<rparr>) = srv_inv s"
  by (simp_all add: srv_inv_def emit_def)

lemma srv_inv_nodes: "srv_inv s \<Longrightarrow> nodes_ok (hostAddress s) n \<Longrightarrow> srv_inv (s\<lparr>sw_nodes := n\<rparr>)"
  by (simp add: srv_inv_def)

lemma srv_inv_step: "srv_inv s \<Longrightarrow> nm_step l (sw_nodes s) n \<Longrightarrow> typed_nm l \<Longrightarrow> srv_inv (s\<lparr>sw_nodes := n\<rparr>)"
  by (rule srv_inv_nodes) (auto simp: srv_inv_def intro: nodes_ok_step)

lemma gossipAdd_ok:
  assumes "valid_env e" and "srv_inv s" and "typedEvent ev"
  shows "\<exists>s'. gossipAdd e ev s = Some s' \<and> srv_inv s' \<and> hostAddress s' = hostAddress s \<and> incarnation s' = incarnation s
    \<and> sw_nodes s' = sw_nodes s"
  using gossip_ok_Add [OF valid_env_sorts [OF assms(1)], of "sw_gossip s" ev] assms(2, 3)
  by (auto simp: gossipAdd_def srv_inv_def)

lemma ConvertNetIP_ok: "length dst \<in> {4, 16} \<Longrightarrow> ConvertNetIP dst \<noteq> None"
  by (auto simp: ConvertNetIP_def To4_def split: option.split)

lemma DispatchMessage_ok:
  assumes "srv_inv s" and "typedMessage m" and "length dst \<in> {4, 16}"
  shows "\<exists>s'. server_DispatchMessage e dst m s = Some s' \<and> srv_inv s'"
  using assms ConvertNetIP_ok [OF assms(3)]
  by (auto simp: server_DispatchMessage_def EncPkt_wire split: option.split)

lemma increment_ok:
  assumes "valid_env e" and "srv_inv s"
  shows "\<exists>s'. incrementIncarnationToSurpass e i s = Some s' \<and> srv_inv s'"
proof -
  have "typedIP (hostAddress s)" using assms(2) by (simp add: srv_inv_def)
  then have w: "typedEvent \<lparr>ev_Payload = PWrap \<lparr>w_Subject = hostAddress s, w_Incarnation = i, w_NewIncarnation = 0\<rparr>\<rparr>"
    and a: "typedEvent \<lparr>ev_Payload = PAlive \<lparr>s_Subject = hostAddress s, s_Incarnation = j\<rparr>\<rparr>" for j
    by (simp_all add: typedEvent_def typedPayload_def)
  show ?thesis
    using gossipAdd_ok [OF assms(1) _ w, of "s\<lparr>incarnation := 0\<rparr>"] gossipAdd_ok [OF assms(1) _ a, of "s\<lparr>incarnation := i + 1\<rparr>"] assms(2)
    unfolding incrementIncarnationToSurpass_def Let_def by (cases "i + 1 > 65535") auto
qed

lemma typed_subject: "typedPayload p \<Longrightarrow> typedIP (GetSubject p)"
  by (cases p) (simp_all add: typedPayload_def)

lemma applyEvent_ok:
  assumes "nodes_ok self n" and "typedPayload p"
  shows "\<exists>n'. applyEvent period p n = Some n' \<and> nodes_ok self n'"
proof -
  have typed: "typedNode \<lparr>n_Suspect = b, n_Incarnation = i, n_Address = GetSubject p\<rparr>" for b i
    using typed_subject [OF assms(2)] by (simp add: typedNode_def)
  have upd: "nodes_ok self (UpdateOrCreate period v n)" if "typedNode v" for v
    using nodes_ok_step [OF assms(1) nm_UpdateOrCreate] that by simp
  have wrap: "nodes_ok self (WrapIncarnation period v n)" if "typedNode v" for v
    using nodes_ok_step [OF assms(1) nm_WrapIncarnation] that by simp
  have del: "nodes_ok self (n\<lparr>nm_list := Delete h (nm_list n)\<rparr>)" for h
    using nodes_ok_step [OF assms(1) nm_Delete] by simp
  have faulty: "\<exists>n'. nodeManager_MarkFaulty h n = Some n' \<and> nodes_ok self n'" for h
    using nodes_ok_step [OF assms(1) nm_MarkFaulty] MarkFaulty_result by simp
  show ?thesis
    using assms(1) typed upd wrap del faulty
    by (cases p) (auto simp: applyEvent_def Let_def split: option.split)
qed

lemma loop_ok:
  assumes "valid_env e"
  shows "srv_inv s \<Longrightarrow> list_all typedEvent evs \<Longrightarrow> \<exists>v' s'. processPingEvents_loop e period evs v s = Some (v', s') \<and> srv_inv s'"
proof (induction evs arbitrary: v s)
  case (Cons ev evs)
  obtain s1 where s1: "gossipAdd e ev s = Some s1" "srv_inv s1"
    using gossipAdd_ok [OF assms Cons.prems(1), of ev] Cons.prems(2) by auto
  obtain n where n: "applyEvent period (ev_Payload ev) (sw_nodes s1) = Some n" "nodes_ok (hostAddress s1) n"
    using applyEvent_ok [of "hostAddress s1" "sw_nodes s1" "ev_Payload ev" period] s1(2) Cons.prems(2)
    by (auto simp: srv_inv_def typedEvent_def)
  show ?case
  proof (cases "isEventLocal ev s1")
    case True
    with Cons.IH [OF s1(2)] Cons.prems(2) s1(1) show ?thesis by simp
  next
    case False
    with Cons.IH [OF srv_inv_nodes [OF s1(2) n(2)]] Cons.prems(2) s1(1) n(1) show ?thesis by simp
  qed
qed simp

lemma processPingEvents_ok:
  assumes "valid_env e" and "srv_inv s" and "list_all typedEvent evs"
  shows "\<exists>s'. processPingEvents e period evs s = Some s' \<and> srv_inv s'"
proof -
  obtain i b s1 where s1: "processPingEvents_loop e period evs (-1, False) s = Some ((i, b), s1)" "srv_inv s1"
    using loop_ok [OF assms, of period "(-1, False)"] by auto
  have "typedEvent \<lparr>ev_Payload = PAlive \<lparr>s_Subject = hostAddress s1, s_Incarnation = incarnation s1\<rparr>\<rparr>"
    using s1(2) by (simp add: typedEvent_def typedPayload_def srv_inv_def)
  with gossipAdd_ok [OF assms(1) s1(2) this] increment_ok [OF assms(1) s1(2), of "word_of_int i"] s1 show ?thesis
    by (auto simp: processPingEvents_def)
qed

subsection \<open>Handlers\<close>

lemma typedIP_IPFromNetIP [simp]: "typedIP (IPFromNetIP ip)"
  by (simp add: IPFromNetIP_def typedIP_def split: option.split)

lemma handlePing_ok:
  assumes "valid_env e" and "srv_inv s" and "list_all typedEvent (ping_Events msg)" and "length (p_Source pkt) \<in> {4, 16}"
  shows "\<exists>s'. handlePing e period pkt msg s = Some s' \<and> srv_inv s'"
proof -
  let ?v = "\<lparr>n_Suspect = False, n_Incarnation = h_Incarnation (p_Header pkt), n_Address = IPFromNetIP (p_Source pkt)\<rparr>"
  let ?add = "\<lambda>n. nodeManager_Add period ?v n"
  have nodes: "srv_inv (s1\<lparr>sw_nodes := (?add (sw_nodes s1))\<lparr>nm_list := MarkStable (Hash ?v) (nm_list (?add (sw_nodes s1)))\<rparr>\<rparr>)"
    if "srv_inv s1" for s1
  proof -
    have "srv_inv (s1\<lparr>sw_nodes := ?add (sw_nodes s1)\<rparr>)"
      using srv_inv_step [OF that nm_Add [of period ?v]] by (simp add: typedNode_def)
    from srv_inv_step [OF this nm_MarkStable [of "Hash ?v"]] show ?thesis by simp
  qed
  obtain s1 where s1: "server_DispatchMessage e (p_Source pkt) (MPong (pingReply pkt msg s)) s = Some s1" "srv_inv s1"
    using DispatchMessage_ok [OF assms(2) _ assms(4), of "MPong (pingReply pkt msg s)"] by auto
  with processPingEvents_ok [OF assms(1) nodes [OF s1(2)] assms(3)] show ?thesis
    by (simp add: handlePing_def Let_def)
qed

lemma handlePong_ok:
  assumes "valid_env e" and "srv_inv s"
  shows "\<exists>s'. handlePong e pkt msg s = Some s' \<and> srv_inv s'"
proof -
  let ?tag = "periodTag (pong_Cookie msg) (pong_Period msg)"
  obtain s1 where s1: "(if pongOutdated msg s then incrementIncarnationToSurpass e (pong_LastKnownIncarnation msg) s
      else Some s) = Some s1" "srv_inv s1"
    using increment_ok [OF assms, of "pong_LastKnownIncarnation msg"] assms(2) by (cases "pongOutdated msg s") auto
  show ?thesis
  proof (cases "indirectPingCallbacks s1 ?tag")
    case None
    with s1 show ?thesis by (simp add: handlePong_def Let_def)
  next
    case (Some cb)
    obtain src c p where cb: "cb = (src, c, p)" by (cases cb) auto
    have "srv_inv (s1\<lparr>indirectPingCallbacks := (indirectPingCallbacks s1)(?tag := None)\<rparr>)" "length src \<in> {4, 16}"
      using s1(2) Some cb by (auto simp: srv_inv_def)
    then obtain s2 where "server_DispatchMessage e src (MIndirectPong \<lparr>ipong_Cookie = c, ipong_Period = p\<rparr>)
        (s1\<lparr>indirectPingCallbacks := (indirectPingCallbacks s1)(?tag := None)\<rparr>) = Some s2" "srv_inv s2"
      using DispatchMessage_ok [where m = "MIndirectPong \<lparr>ipong_Cookie = c, ipong_Period = p\<rparr>" and e = e] by fastforce
    with s1 Some cb show ?thesis by (simp add: handlePong_def Let_def)
  qed
qed

lemma handlePacket_ok:
  assumes "valid_env e" and "srv_inv s" and "packet_ok pkt" and "length (p_Source pkt) \<in> {4, 16}"
  shows "\<exists>s'. handlePacket e period pkt s = Some s' \<and> srv_inv s'"
proof -
  obtain m where m: "p_Message pkt = Some m" "typedMessage m" using assms(3) by (auto simp: packet_ok_def)
  show ?thesis
  proof (cases m)
    case (MPing msg)
    with m handlePing_ok [OF assms(1, 2) _ assms(4)] show ?thesis by (simp add: handlePacket_def)
  next
    case (MPong msg)
    with m handlePong_ok [OF assms(1, 2)] show ?thesis by (simp add: handlePacket_def)
  qed (use m assms(2) in \<open>auto simp: handlePacket_def\<close>)
qed

lemma HandleUDP_ok:
  assumes "valid_env e" and "srv_inv s" and "Open (sw_ascon s) data \<noteq> None" and "length source \<in> {4, 16}"
  shows "\<exists>s'. HandleUDPControlMessage e period data source s = Some s' \<and> srv_inv s'"
proof -
  obtain opened where o: "Open (sw_ascon s) data = Some opened" using assms(3) by blast
  show ?thesis
  proof (cases opened)
    case None
    with o assms(2) show ?thesis by (simp add: HandleUDPControlMessage_def)
  next
    case (Some d)
    consider "ParsePacket d = Some (Inl CouldNotParsePacketErr)" | p where "ParsePacket d = Some (Inr p)" "packet_ok p"
      using ParsePacket_sound [of d] by blast
    then show ?thesis
    proof cases
      case (2 p)
      then have "packet_ok (p\<lparr>p_Source := source\<rparr>)" by (simp add: packet_ok_def)
      from handlePacket_ok [OF assms(1, 2) this, of period] 2 o Some assms(4) show ?thesis
        by (simp add: HandleUDPControlMessage_def)
    qed (use o Some assms(2) in \<open>simp add: HandleUDPControlMessage_def\<close>)
  qed
qed

lemma performIndirectPing_ok:
  assumes "srv_inv s" and "typedIP (iping_Address msg)" and "length (p_Source pkt) \<in> {4, 16}"
  shows "\<exists>s'. performIndirectPing e rnd period msg pkt s = Some s' \<and> srv_inv s'"
proof -
  let ?tag = "periodTag (word_of_nat rnd) period"
  let ?s = "s\<lparr>indirectPingCallbacks := (indirectPingCallbacks s)(?tag \<mapsto> (p_Source pkt, iping_Cookie msg, iping_Period msg))\<rparr>"
  let ?m = "MPing \<lparr>ping_Cookie = word_of_nat rnd, ping_Period = period, ping_TargetIncarnation = 0, ping_Events = []\<rparr>"
  have "srv_inv ?s" using assms(1, 3) by (auto simp: srv_inv_def)
  moreover have "length (IP_Bytes (iping_Address msg)) \<in> {4, 16}"
    using assms(2) by (auto simp: IP_Size_def AddressKind_Size_def)
  ultimately obtain s' where "server_DispatchMessage e (IP_Bytes (iping_Address msg)) ?m ?s = Some s'" "srv_inv s'"
    using DispatchMessage_ok [of ?s ?m "IP_Bytes (iping_Address msg)" e] by auto
  then show ?thesis by (simp add: performIndirectPing_def Let_def)
qed

subsection \<open>The delegate\<close>

lemma expireAll_ok:
  assumes "valid_env e"
  shows "srv_inv s \<Longrightarrow> list_all typedNode ns \<Longrightarrow> \<exists>s'. expireAll e ns s = Some s' \<and> srv_inv s'"
proof (induction ns arbitrary: s)
  case (Cons n ns)
  obtain m where m: "nodeManager_MarkFaulty (Hash n) (sw_nodes s) = Some m" by (simp add: MarkFaulty_result)
  have s: "srv_inv (s\<lparr>sw_nodes := m\<rparr>)" using srv_inv_step [OF Cons.prems(1) nm_MarkFaulty [OF m]] by simp
  have "typedEvent \<lparr>ev_Payload = PFaulty \<lparr>e_Source = hostAddress s, e_Subject = n_Address n, e_Incarnation = n_Incarnation n\<rparr>\<rparr>"
    using Cons.prems by (simp add: typedEvent_def typedPayload_def srv_inv_def typedNode_def)
  from gossipAdd_ok [OF assms s this] m Cons show ?case by auto
qed simp

lemma ProcessExpiredSuspects_ok:
  assumes "valid_env e" and "srv_inv s"
  shows "\<exists>s'. server_ProcessExpiredSuspects e period s = Some s' \<and> srv_inv s'"
proof -
  let ?n = "sw_nodes s" and ?l = "nm_list (sw_nodes s)"
  let ?x = "ExpiredSuspects period (opt_SuspectPeriods s) (env_suspects e ?l) ?l"
  have ok: "nodes_ok (hostAddress s) ?n" using assms(2) by (simp add: srv_inv_def)
  have inv: "nl_inv ?l" using nodes_ok_inv [OF ok] .
  then have cons: "nl_cons ?l" by (simp add: nl_inv_def)
  have ord: "distinct (env_suspects e ?l)" "set (env_suspects e ?l) = dom (suspects ?l)"
    using assms(1) inv by (auto simp: valid_env_def)
  have "srv_inv (s\<lparr>sw_nodes := ?n\<lparr>nm_list := snd ?x\<rparr>\<rparr>)"
    using srv_inv_step [OF assms(2) nm_Expire [of "env_suspects e ?l" ?n]] ord by simp
  moreover have "list_all typedNode (fst ?x)"
  proof -
    have "typedNode v" if "local_expired period (opt_SuspectPeriods s) (members ?l) h = Some v" for h v
      using that ok by (force simp: local_expired_def nodes_ok_def typed_members_def split: option.splits member.splits if_splits)
    then show ?thesis
      unfolding ExpiredSuspects_spec(1) [OF cons ord] list_all_iff set_map_filter_eq by blast
  qed
  ultimately have "\<exists>s'. expireAll e (fst ?x) (s\<lparr>sw_nodes := ?n\<lparr>nm_list := snd ?x\<rparr>\<rparr>) = Some s' \<and> srv_inv s'"
    by (rule expireAll_ok [OF assms(1)])
  then show ?thesis by (simp add: server_ProcessExpiredSuspects_def split_beta Let_def)
qed

lemma SignalSuspectNode_ok:
  assumes "valid_env e" and "srv_inv s"
  shows "\<exists>s'. server_SignalSuspectNode e period h s = Some s' \<and> srv_inv s'"
proof -
  let ?s = "s\<lparr>sw_nodes := (sw_nodes s)\<lparr>nm_list := MarkSuspect period False h (nm_list (sw_nodes s))\<rparr>\<rparr>"
  have s: "srv_inv ?s" using srv_inv_step [OF assms(2) nm_MarkSuspect] by simp
  have ev: "typedEvent \<lparr>ev_Payload = PSuspect \<lparr>e_Source = hostAddress ?s, e_Subject = n_Address v, e_Incarnation = n_Incarnation v\<rparr>\<rparr>"
    if "NodeByHash h (nm_list (sw_nodes ?s)) = Some v" for v
  proof -
    have "nodes_ok (hostAddress s) (sw_nodes ?s)" and "typedIP (hostAddress s)" using s by (simp_all add: srv_inv_def)
    with nodes_ok_lookup [OF _ that] show ?thesis by (simp add: typedEvent_def typedPayload_def typedNode_def)
  qed
  show ?thesis
  proof (cases "NodeByHash h (nm_list (sw_nodes ?s))")
    case None
    with s show ?thesis by (simp add: server_SignalSuspectNode_def Let_def)
  next
    case (Some v)
    with gossipAdd_ok [OF assms(1) s ev [OF Some]] show ?thesis by (simp add: server_SignalSuspectNode_def Let_def) blast
  qed
qed

lemma IndirectPingMembers_ok:
  assumes "valid_env e" and "srv_inv s"
  shows "\<exists>vs. server_IndirectPingMembers e h s = Some (map Some vs) \<and> list_all typedNode vs"
proof -
  let ?l = "nm_list (sw_nodes s)"
  have ok: "nodes_ok (hostAddress s) (sw_nodes s)" and k: "0 < opt_IndirectPings s" using assms(2) by (simp_all add: srv_inv_def)
  have inv: "nl_inv ?l" using nodes_ok_inv [OF ok] .
  then have "distinct (env_all e ?l)" "set (env_all e ?l) = dom (nodeByType ?l)" using assms(1) by (auto simp: valid_env_def)
  from IndirectPingCandidates_result [OF inv this k, of h] obtain vs
    where vs: "server_IndirectPingMembers e h s = Some (map Some vs)" "\<forall>v \<in> set vs. NodeByHash (Hash v) ?l = Some v"
    by (auto simp: server_IndirectPingMembers_def)
  with nodes_ok_lookup [OF ok] show ?thesis by (auto simp: list_all_iff)
qed

lemma server_delegate_ok:
  assumes "valid_env e"
  shows "run_loop_delegate (server_delegate e) srv_inv"
proof
  fix s n m dst h p v
  assume s: "srv_inv s"
  then have ok: "nodes_ok (hostAddress s) (sw_nodes s)" by (simp add: srv_inv_def)
  have ch: "valid_choices (mapChoices e (sw_nodes s)) (nm_list (sw_nodes s))"
    using valid_env_choices [OF assms nodes_ok_inv [OF ok]] .
  have "srv_inv (s\<lparr>sw_nodes := snd (NextPing (mapChoices e (sw_nodes s)) (sw_nodes s))\<rparr>)"
    using srv_inv_step [OF s nm_NextPing [OF ch]] by simp
  moreover have "typedNode v" if "fst (NextPing (mapChoices e (sw_nodes s)) (sw_nodes s)) = Some v" for v
    using that nodes_ok_lookup [OF ok] by (auto simp: NextPing_def Let_def split: list.splits if_splits)
  ultimately show "srv_inv (snd (NextProbeSubject (server_delegate e) s))
      \<and> (\<forall>v. fst (NextProbeSubject (server_delegate e) s) = Some v \<longrightarrow> typedNode v)"
    by (simp add: server_delegate_def server_NextProbeSubject_def split_beta Let_def)
  show "\<exists>es s'. GossipEvents (server_delegate e) n s = Some (es, s') \<and> srv_inv s' \<and> list_all typedEvent es
      \<and> (\<Sum>e\<leftarrow>es. int (Event_RequiredSize e)) \<le> max 0 n"
    using gossip_ok_Next [OF valid_env_sorts [OF assms], of "sw_gossip s" n] s
    by (auto simp: server_delegate_def server_GossipEvents_def srv_inv_def)
  show "\<exists>s'. SignalHealthyNode (server_delegate e) h s = Some s' \<and> srv_inv s'"
    using srv_inv_step [OF s nm_MarkStable] by (simp add: server_delegate_def server_SignalHealthyNode_def)
  show "\<exists>s'. SignalSuspectNode (server_delegate e) p h s = Some s' \<and> srv_inv s'"
    using SignalSuspectNode_ok [OF assms s] by (simp add: server_delegate_def)
  show "\<exists>s'. ProcessExpiredSuspects (server_delegate e) p s = Some s' \<and> srv_inv s'"
    using ProcessExpiredSuspects_ok [OF assms s] by (simp add: server_delegate_def)
  show "\<exists>s'. PerformFullSync (server_delegate e) s = Some s' \<and> srv_inv s'"
    using s by (auto simp: server_delegate_def server_PerformFullSync_def Let_def split: prod.split option.split)
  show "\<exists>vs. IndirectPingMembers (server_delegate e) h s = Some (map Some vs) \<and> list_all typedNode vs"
    using IndirectPingMembers_ok [OF assms s] by (simp add: server_delegate_def)
  show "typedNode v" if "DelegateNodeByHash (server_delegate e) h s = Some v"
    using that nodes_ok_lookup [OF ok] by (auto simp: server_delegate_def)
  show "\<exists>s'. DispatchMessage (server_delegate e) dst m s = Some s' \<and> srv_inv s'" if "typedMessage m" "length dst \<in> {4, 16}"
    using DispatchMessage_ok [OF s that] by (simp add: server_delegate_def)
qed

subsection \<open>A concrete environment\<close>

text \<open>Hashes in the order of their bytes, shorter addresses first; maps are then visited in that order.\<close>

fun addr_key :: "Addr \<Rightarrow> nat list" where
  "addr_key AddrZero = []"
| "addr_key (Addr4 bs) = 4 # map unat bs"
| "addr_key (Addr6 bs) = 6 # map unat bs"

lemma map_unat_inj: "map unat (xs :: byte list) = map unat ys \<longleftrightarrow> xs = ys"
  by (rule inj_map_eq_map) (simp add: inj_def word_unat_eq_iff)

lemma addr_key_inj: "addr_key a = addr_key b \<longleftrightarrow> a = b"
  by (cases a; cases b) (simp_all add: map_unat_inj)

instantiation Addr :: linorder
begin

definition less_eq_Addr :: "Addr \<Rightarrow> Addr \<Rightarrow> bool" where
  "less_eq_Addr a b \<longleftrightarrow> addr_key a \<le> addr_key b"

definition less_Addr :: "Addr \<Rightarrow> Addr \<Rightarrow> bool" where
  "less_Addr a b \<longleftrightarrow> addr_key a < addr_key b"

instance
  by standard (auto simp: less_eq_Addr_def less_Addr_def less_le_not_le addr_key_inj dest: antisym)

end

definition sortedEnv :: "(nat \<Rightarrow> byte list option) \<Rightarrow> env" where
  "sortedEnv nonce = \<lparr>env_sort = sortDesc, env_shuffle = (\<lambda>_ _. 0),
     env_stable = (\<lambda>n. sorted_list_of_set (dom (stable n))),
     env_suspects = (\<lambda>n. sorted_list_of_set (dom (suspects n))),
     env_all = (\<lambda>n. sorted_list_of_set (dom (nodeByType n))), env_nonce = nonce\<rparr>"

lemma sortedEnv_valid: "valid_env (sortedEnv nonce)"
proof -
  have "finite (dom (stable n)) \<and> finite (dom (suspects n)) \<and> finite (dom (nodeByType n))" if "nl_inv n" for n
  proof -
    have cons: "nl_cons n" using that by (simp add: nl_inv_def)
    have sub: "h \<in> dom (stable n) \<Longrightarrow> h \<in> dom (nodeByType n)" "h \<in> dom (suspects n) \<Longrightarrow> h \<in> dom (nodeByType n)" for h
      by (rule nl_cons_cases [OF cons, of h]; auto)+
    then have "dom (stable n) \<subseteq> dom (nodeByType n)" "dom (suspects n) \<subseteq> dom (nodeByType n)"
      by blast+
    with cons show ?thesis by (auto simp: nl_cons_def intro: finite_subset)
  qed
  then show ?thesis by (simp add: valid_env_def sortedEnv_def sortDesc_sorts)
qed

interpretation server: run_loop_delegate "server_delegate (sortedEnv nonce)" srv_inv
  using sortedEnv_valid by (rule server_delegate_ok)

subsection \<open>A new server\<close>

definition newSwimServer :: "IP \<Rightarrow> asconWrapper \<Rightarrow> u16 \<Rightarrow> int \<Rightarrow> int \<Rightarrow> swimServer" where
  "newSwimServer selfAddress ascon suspectPeriods indirectPings timeout =
     \<lparr>hostAddress = selfAddress, incarnation = 0, sw_nodes = NewNodeManager selfAddress,
      sw_gossip = NewGossipManager 1, sw_ascon = ascon, bootstrapResponseReceived = False,
      indirectPingCallbacks = Map.empty, lastFullSyncNode = NodeHashZero,
      opt_SuspectPeriods = suspectPeriods, opt_IndirectPings = indirectPings, opt_PingTimeout = timeout,
      sw_effects = []\<rparr>"

lemma srv_inv_new: "typedIP self \<Longrightarrow> 0 < k \<Longrightarrow> srv_inv (newSwimServer self a p k t)"
  using nm_inv_new [of self] members_new [of self]
  by (simp add: srv_inv_def newSwimServer_def nodes_ok_def gossip_ok_def NewGossipManager_def gm_inv_def
      NewNodeManager_def typed_members_def)

end
