(* ===== verification/Sync_Manager.thy ===== *)
theory Sync_Manager
  imports Packet_Codec
begin

text \<open>
  \<open>internal/core/sync_manager.go\<close>: full synchronisation and bootstrap over TCP. The interface
  \<open>SyncManagerDelegate\<close> is a record of functions over the state \<open>'d\<close> of the delegate. \<open>PerformSync\<close> and
  \<open>PerformBootstrap\<close> start a goroutine that sends a request and waits for the answer: each is two
  definitions, the part before the wait and the part after it, since other handlers run in between.
  What a goroutine does to its TCP client is the list of \<open>client_op\<close>s it returns; whether the connection
  was established and whether a write succeeded are arguments. A result of \<open>None\<close> is a panic of the
  delegate.

  The locale \<open>sync_delegate\<close> states what the manager relies on; its lemmas show that every exchange
  then runs to its end, keeps the delegate's invariant and closes the connection.
\<close>

subsection \<open>The manager and its delegate\<close>

datatype client_op = ClientWrite TCPPacket | ClientClose

datatype tcp_reply = ReplyPacket TCPPacket | ReplyTimeout

record syncManager =
  acceptBootstrapFrom :: NetIP

record 'd SyncManagerDelegate =
  EncodeTCPPacket :: "Message \<Rightarrow> 'd \<Rightarrow> (unit + TCPPacket) option"
  DecodeTCPPacket :: "TCPPacket \<Rightarrow> NetIP \<Rightarrow> 'd \<Rightarrow> (go_error + Packet option) option"
  BootstrapCompleted :: "'d \<Rightarrow> 'd"
  HandleIncomingNodeList :: "Node list \<Rightarrow> 'd \<Rightarrow> 'd"
  AllKnownNodes :: "'d \<Rightarrow> Node list"
  PerformBootstrapComplete :: "Node \<Rightarrow> 'd \<Rightarrow> 'd option"

definition NewSyncManager :: syncManager where
  "NewSyncManager = \<lparr>acceptBootstrapFrom = []\<rparr>"

definition SetBootstrapSource :: "NetIP \<Rightarrow> syncManager \<Rightarrow> syncManager" where
  "SetBootstrapSource source m = m\<lparr>acceptBootstrapFrom := source\<rparr>"

subsection \<open>Exchanges this side starts\<close>

text \<open>Up to the wait for the answer: what the client is told, and whether the goroutine waits.\<close>

definition exchange_request :: "'d SyncManagerDelegate \<Rightarrow> SyncMode \<Rightarrow> bool \<Rightarrow> bool \<Rightarrow> 'd \<Rightarrow> (client_op list \<times> bool) option" where
  "exchange_request del mode established written d =
     (if \<not> established then Some ([], False)
      else do {
        pkt \<leftarrow> EncodeTCPPacket del (MSync \<lparr>sync_Nodes = AllKnownNodes del d, sync_Mode = mode\<rparr>) d;
        (case pkt of Inl err \<Rightarrow> Some ([ClientClose], False)
         | Inr pkt \<Rightarrow> if written then Some ([ClientWrite pkt], True) else Some ([ClientWrite pkt, ClientClose], False))
      })"

definition PerformBootstrap_request :: "'d SyncManagerDelegate \<Rightarrow> bool \<Rightarrow> bool \<Rightarrow> 'd \<Rightarrow> (client_op list \<times> bool) option" where
  "PerformBootstrap_request del = exchange_request del SyncModeBootstrap"

definition PerformSync_request :: "'d SyncManagerDelegate \<Rightarrow> bool \<Rightarrow> bool \<Rightarrow> 'd \<Rightarrow> (client_op list \<times> bool) option" where
  "PerformSync_request del = exchange_request del SyncModeFirstPhase"

text \<open>The answer, when it is a Sync message of the expected mode.\<close>

definition exchange_answer :: "'d SyncManagerDelegate \<Rightarrow> SyncMode \<Rightarrow> NetIP \<Rightarrow> tcp_reply \<Rightarrow> 'd \<Rightarrow> Sync option option" where
  "exchange_answer del mode source reply d = (case reply of
     ReplyTimeout \<Rightarrow> Some None
   | ReplyPacket pkt \<Rightarrow> do {
       decoded \<leftarrow> DecodeTCPPacket del pkt source d;
       (case decoded of
          Inl err \<Rightarrow> Some None
        | Inr None \<Rightarrow> Some None
        | Inr (Some decoded) \<Rightarrow> (case p_Message decoded of
              Some (MSync resp) \<Rightarrow> Some (if sync_Mode resp \<noteq> mode then None else Some resp)
            | _ \<Rightarrow> Some None))
     })"

definition PerformBootstrap_response :: "'d SyncManagerDelegate \<Rightarrow> Node \<Rightarrow> NetIP \<Rightarrow> tcp_reply \<Rightarrow> 'd \<Rightarrow> (client_op list \<times> 'd) option" where
  "PerformBootstrap_response del target source reply d = do {
     resp \<leftarrow> exchange_answer del SyncModeBootstrapAck source reply d;
     d \<leftarrow> (case resp of None \<Rightarrow> Some d | Some resp \<Rightarrow> PerformBootstrapComplete del target d);
     Some ([ClientClose], d)
   }"

definition PerformSync_response :: "'d SyncManagerDelegate \<Rightarrow> NetIP \<Rightarrow> tcp_reply \<Rightarrow> 'd \<Rightarrow> (client_op list \<times> 'd) option" where
  "PerformSync_response del source reply d = do {
     resp \<leftarrow> exchange_answer del SyncModeSecondPhase source reply d;
     let d = (case resp of None \<Rightarrow> d | Some resp \<Rightarrow> HandleIncomingNodeList del (sync_Nodes resp) d);
     Some ([ClientClose], d)
   }"

subsection \<open>Exchanges the peer starts\<close>

definition HandleSyncRequest :: "'d SyncManagerDelegate \<Rightarrow> Sync \<Rightarrow> 'd \<Rightarrow> (client_op list \<times> 'd) option" where
  "HandleSyncRequest del msg d = (let d = HandleIncomingNodeList del (sync_Nodes msg) d in do {
     encoded \<leftarrow> EncodeTCPPacket del (MSync \<lparr>sync_Nodes = AllKnownNodes del d, sync_Mode = SyncModeSecondPhase\<rparr>) d;
     (case encoded of Inl err \<Rightarrow> Some ([ClientClose], d)
      | Inr encoded \<Rightarrow> Some ([ClientWrite encoded, ClientClose], d))
   })"

text \<open>\<open>DispatchTCPPacket\<close> encodes as \<open>EncodeTCPPacket\<close> does, and writes to the client.\<close>

definition HandleBootstrap :: "'d SyncManagerDelegate \<Rightarrow> Sync \<Rightarrow> NetIP \<Rightarrow> syncManager \<Rightarrow> 'd \<Rightarrow> (client_op list \<times> syncManager \<times> 'd) option" where
  "HandleBootstrap del msg source m d =
     (if \<not> NetIP_Equal source (acceptBootstrapFrom m) then Some ([ClientClose], m, d)
      else let m = m\<lparr>acceptBootstrapFrom := []\<rparr>;
               d = HandleIncomingNodeList del (sync_Nodes msg) d;
               d = BootstrapCompleted del d
        in do {
          syncAck \<leftarrow> EncodeTCPPacket del (MSync \<lparr>sync_Nodes = [], sync_Mode = SyncModeBootstrapAck\<rparr>) d;
          (case syncAck of Inl err \<Rightarrow> Some ([ClientClose], m, d)
           | Inr pkt \<Rightarrow> Some ([ClientWrite pkt, ClientClose], m, d))
        })"

subsection \<open>The delegate as an interface\<close>

text \<open>\<open>readable t d\<close> stands for what a delegate needs of a TCP packet to decode it without a panic.\<close>

locale sync_delegate =
  fixes del :: "'d SyncManagerDelegate"
    and inv :: "'d \<Rightarrow> bool"
    and readable :: "TCPPacket \<Rightarrow> 'd \<Rightarrow> bool"
  assumes encode: "inv d \<Longrightarrow> typedMessage m \<Longrightarrow> EncodeTCPPacket del m d \<noteq> None"
    and decode: "inv d \<Longrightarrow> readable t d \<Longrightarrow> \<exists>r. DecodeTCPPacket del t source d = Some r
      \<and> (\<forall>pkt. r = Inr (Some pkt) \<longrightarrow> packet_ok pkt)"
    and completed: "inv d \<Longrightarrow> inv (BootstrapCompleted del d)"
    and incoming: "inv d \<Longrightarrow> list_all typedNode vs \<Longrightarrow> inv (HandleIncomingNodeList del vs d)"
    and known: "inv d \<Longrightarrow> list_all typedNode (AllKnownNodes del d)"
    and joined: "inv d \<Longrightarrow> typedNode v \<Longrightarrow> \<exists>d'. PerformBootstrapComplete del v d = Some d' \<and> inv d'"
begin

lemma encode_known: "inv d \<Longrightarrow> \<exists>r. EncodeTCPPacket del (MSync \<lparr>sync_Nodes = AllKnownNodes del d, sync_Mode = mode\<rparr>) d = Some r"
  using encode [of d "MSync \<lparr>sync_Nodes = AllKnownNodes del d, sync_Mode = mode\<rparr>"] known [of d] by auto

lemma exchange_request_total: "inv d \<Longrightarrow> \<exists>ops w. exchange_request del mode established written d = Some (ops, w)
    \<and> (w = (established \<and> ClientClose \<notin> set ops))"
  using encode_known [of d mode] by (auto simp: exchange_request_def split: sum.split)

lemma exchange_answer_total:
  assumes "inv d" and "\<forall>t. reply = ReplyPacket t \<longrightarrow> readable t d"
  shows "\<exists>r. exchange_answer del mode source reply d = Some r
    \<and> (\<forall>resp. r = Some resp \<longrightarrow> sync_Mode resp = mode \<and> list_all typedNode (sync_Nodes resp))"
proof (cases reply)
  case (ReplyPacket t)
  obtain r where r: "DecodeTCPPacket del t source d = Some r" "\<And>pkt. r = Inr (Some pkt) \<Longrightarrow> packet_ok pkt"
    using decode [OF assms(1)] assms(2) ReplyPacket by blast
  have "list_all typedNode (sync_Nodes resp)" if "r = Inr (Some pkt)" "p_Message pkt = Some (MSync resp)" for pkt resp
    using r(2) [OF that(1)] that(2) by (auto simp: packet_ok_def)
  with r ReplyPacket show ?thesis
    by (auto simp: exchange_answer_def split: sum.split option.split Message.split)
qed (simp add: exchange_answer_def)

lemma PerformSync_response_total:
  assumes "inv d" and "\<forall>t. reply = ReplyPacket t \<longrightarrow> readable t d"
  shows "\<exists>d'. PerformSync_response del source reply d = Some ([ClientClose], d') \<and> inv d'"
  using exchange_answer_total [OF assms, of SyncModeSecondPhase source] incoming [OF assms(1)] assms(1)
  by (auto simp: PerformSync_response_def split: option.split)

lemma PerformBootstrap_response_total:
  assumes "inv d" and "\<forall>t. reply = ReplyPacket t \<longrightarrow> readable t d" and "typedNode target"
  shows "\<exists>d'. PerformBootstrap_response del target source reply d = Some ([ClientClose], d') \<and> inv d'"
proof -
  obtain r where "exchange_answer del SyncModeBootstrapAck source reply d = Some r"
    using exchange_answer_total [OF assms(1, 2)] by blast
  with joined [OF assms(1, 3)] assms(1) show ?thesis by (cases r) (auto simp: PerformBootstrap_response_def)
qed

lemma HandleSyncRequest_total:
  assumes "inv d" and "list_all typedNode (sync_Nodes msg)"
  shows "\<exists>ops d'. HandleSyncRequest del msg d = Some (ops, d') \<and> last ops = ClientClose \<and> inv d'"
proof -
  have d: "inv (HandleIncomingNodeList del (sync_Nodes msg) d)" using incoming [OF assms] .
  show ?thesis
    using encode_known [OF d, of SyncModeSecondPhase] d by (auto simp: HandleSyncRequest_def Let_def split: sum.split)
qed

lemma HandleBootstrap_total:
  assumes "inv d" and "list_all typedNode (sync_Nodes msg)"
  shows "\<exists>ops m' d'. HandleBootstrap del msg source m d = Some (ops, m', d') \<and> last ops = ClientClose \<and> inv d'"
proof -
  have d: "inv (BootstrapCompleted del (HandleIncomingNodeList del (sync_Nodes msg) d))"
    using completed [OF incoming [OF assms]] .
  show ?thesis
    using encode [OF d, of "MSync \<lparr>sync_Nodes = [], sync_Mode = SyncModeBootstrapAck\<rparr>"] assms(1) d
    by (auto simp: HandleBootstrap_def Let_def split: sum.split)
qed

end

end
