(* ===== verification/Swim_Sync.thy ===== *)
theory Swim_Sync
  imports Swim_Server Sync_Manager
begin

text \<open>
  The rest of \<open>swim_server.go\<close>: the server as the delegate of its sync manager, the handler of TCP
  packets, and the bootstrap goroutine. The bootstrap is a state machine: \<open>boot_phase\<close> is where the
  goroutine waits, \<open>boot_event\<close> what its selects receive. The channels \<open>bootstrapResponse\<close> and
  \<open>bootstrapCompleted\<close> are the effects \<open>BootstrapResponseReceived\<close> and \<open>BootstrapFinished\<close> of the
  handlers that write to them; draining them loses events, so the events that arrive are any.
\<close>

subsection \<open>The delegate of the sync manager\<close>

definition server_HandleIncomingNodeList :: "env \<Rightarrow> u16 \<Rightarrow> Node list \<Rightarrow> swimServer \<Rightarrow> swimServer" where
  "server_HandleIncomingNodeList e period nodes s =
     (let merged = (sw_nodes s)\<lparr>nm_list := Bootstrap period nodes (nm_list (sw_nodes s))\<rparr>
      in s\<lparr>sw_nodes := nodeManager_Bootstrap (mapChoices e merged) period nodes (sw_nodes s)\<rparr>)"

definition server_AllKnownNodes :: "env \<Rightarrow> swimServer \<Rightarrow> Node list" where
  "server_AllKnownNodes e s =
     (let l = nm_list (sw_nodes s);
          allNodes = nodeManager_All (NodeTypeStable OR NodeTypeRemote) (env_stable e l) (env_suspects e l) (sw_nodes s)
      in allNodes @ [\<lparr>n_Suspect = False, n_Incarnation = incarnation s, n_Address = hostAddress s\<rparr>])"

definition server_PerformBootstrapComplete :: "env \<Rightarrow> u16 \<Rightarrow> Node \<Rightarrow> swimServer \<Rightarrow> swimServer option" where
  "server_PerformBootstrapComplete e period target s =
     gossipAdd e \<lparr>ev_Payload = PJoin \<lparr>e_Source = hostAddress s, e_Subject = n_Address target,
         e_Incarnation = n_Incarnation target\<rparr>\<rparr>
       (s\<lparr>sw_nodes := nodeManager_Add period target (sw_nodes s)\<rparr>)"

text \<open>\<open>Inr None\<close> is the result nil, nil of a buffer that could not be opened.\<close>

definition server_DecodeTCPPacket :: "TCPPacket \<Rightarrow> NetIP \<Rightarrow> swimServer \<Rightarrow> (go_error + Packet option) option" where
  "server_DecodeTCPPacket tcpPkt source s = do {
     opened \<leftarrow> Open (sw_ascon s) (t_Payload tcpPkt);
     (case opened of None \<Rightarrow> Some (Inr None)
      | Some data \<Rightarrow> do {
          parsed \<leftarrow> ParsePacket data;
          (case parsed of Inl err \<Rightarrow> Some (Inl err)
           | Inr pkt \<Rightarrow> Some (Inr (Some (pkt\<lparr>p_Source := source\<rparr>))))
        })
   }"

definition server_EncodeTCPPacket :: "env \<Rightarrow> Message \<Rightarrow> swimServer \<Rightarrow> (unit + TCPPacket) option" where
  "server_EncodeTCPPacket e message s = EncTCPPkt (incarnation s) message
     (\<lambda>buf. case Seal (sw_ascon s) (env_nonce e (length (sw_effects s))) buf of None \<Rightarrow> Inl () | Some buf \<Rightarrow> Inr buf)"

definition sync_server :: "env \<Rightarrow> u16 \<Rightarrow> swimServer SyncManagerDelegate" where
  "sync_server e period = \<lparr>EncodeTCPPacket = server_EncodeTCPPacket e, DecodeTCPPacket = server_DecodeTCPPacket,
     BootstrapCompleted = emit BootstrapFinished, HandleIncomingNodeList = server_HandleIncomingNodeList e period,
     AllKnownNodes = server_AllKnownNodes e, PerformBootstrapComplete = server_PerformBootstrapComplete e period\<rparr>"

subsection \<open>TCP packets\<close>

text \<open>A packet that could not be opened is a nil pointer here, and reading its message panics.\<close>

definition HandleTCPPacket :: "env \<Rightarrow> u16 \<Rightarrow> NetIP \<Rightarrow> TCPPacket \<Rightarrow> syncManager \<Rightarrow> swimServer
    \<Rightarrow> (client_op list \<times> syncManager \<times> swimServer) option" where
  "HandleTCPPacket e period source tcpPkt m s = do {
     decoded \<leftarrow> server_DecodeTCPPacket tcpPkt source s;
     (case decoded of
        Inl err \<Rightarrow> Some ([ClientClose], m, s)
      | Inr None \<Rightarrow> None
      | Inr (Some pkt) \<Rightarrow> (case p_Message pkt of
          Some (MSync sync) \<Rightarrow>
            (if sync_Mode sync = SyncModeBootstrap then HandleBootstrap (sync_server e period) sync source m s
             else if sync_Mode sync = SyncModeFirstPhase then Some ([], m, emit (GoSyncRequest sync source) s)
             else if sync_Mode sync = SyncModeSecondPhase then Some ([ClientClose], m, s)
             else Some ([], m, s))
        | _ \<Rightarrow> Some ([ClientClose], m, s)))
   }"

subsection \<open>The bootstrap goroutine\<close>

datatype boot_phase = Advertising | AwaitingCompletion | Bootstrapped

datatype boot_event = PublishTick | ResponseArrived Packet | CompletionArrived | CompletionTimeout

text \<open>\<open>start\<close>: before the first wait, and again after a timeout.\<close>

definition runBootstrap_start :: "swimServer \<Rightarrow> swimServer" where
  "runBootstrap_start s = s\<lparr>bootstrapResponseReceived := False\<rparr>"

fun runBootstrap_step :: "env \<Rightarrow> boot_event \<Rightarrow> boot_phase \<times> syncManager \<times> swimServer
    \<Rightarrow> (boot_phase \<times> syncManager \<times> swimServer) option" where
  "runBootstrap_step e PublishTick (Advertising, m, s) = do {
     s \<leftarrow> DispatchMulticast e MBootstrapRequest s;
     Some (Advertising, m, s)
   }"
| "runBootstrap_step e (ResponseArrived pkt) (Advertising, m, s) =
     (if h_OpCode (p_Header pkt) \<noteq> BTRR then Some (Advertising, m, s)
      else let s = s\<lparr>bootstrapResponseReceived := True\<rparr> in do {
        s \<leftarrow> server_DispatchMessage e (p_Source pkt) MBootstrapAck s;
        Some (AwaitingCompletion, SetBootstrapSource (p_Source pkt) m, s)
      })"
| "runBootstrap_step e CompletionArrived (AwaitingCompletion, m, s) = Some (Bootstrapped, m, s)"
| "runBootstrap_step e CompletionTimeout (AwaitingCompletion, m, s) =
     Some (Advertising, SetBootstrapSource [] m, runBootstrap_start s)"
| "runBootstrap_step e ev st = Some st"

end
