(* ===== verification/Server_System.thy ===== *)
theory Server_System
  imports Server_Invariant Swim_Sync
begin

text \<open>
  The whole server as a transition system. A state is the server with its run loop, its sync manager
  and the phase of its bootstrap; an input is whatever wakes one of its goroutines up. Each handler
  runs to completion before the next input is taken, in any order: \<open>handle\<close> is one turn, \<open>None\<close> a panic.
  Of an input only \<open>possible\<close> is assumed; \<open>crashing\<close> are the inputs that end the process.
\<close>

subsection \<open>The server as the delegate of its sync manager\<close>

definition readable :: "TCPPacket \<Rightarrow> swimServer \<Rightarrow> bool" where
  "readable t s \<longleftrightarrow> (enabled (sw_ascon s) \<longrightarrow> 16 \<le> length (t_Payload t))"

lemma DecodeTCPPacket_ok:
  assumes "readable t s"
  shows "\<exists>r. server_DecodeTCPPacket t source s = Some r \<and> (\<forall>pkt. r = Inr (Some pkt) \<longrightarrow> packet_ok pkt)"
proof -
  obtain opened where o: "Open (sw_ascon s) (t_Payload t) = Some opened"
    using assms Open_panic_iff [of "sw_ascon s" "t_Payload t"] by (auto simp: readable_def)
  show ?thesis
  proof (cases opened)
    case None
    with o show ?thesis by (simp add: server_DecodeTCPPacket_def)
  next
    case (Some d)
    from ParsePacket_sound [of d] o Some show ?thesis
      by (auto simp: server_DecodeTCPPacket_def packet_ok_def)
  qed
qed

lemma IncomingNodeList_ok:
  assumes "valid_env e" and "srv_inv s" and "list_all typedNode vs"
  shows "srv_inv (server_HandleIncomingNodeList e period vs s)"
proof -
  let ?n = "(sw_nodes s)\<lparr>nm_list := Bootstrap period vs (nm_list (sw_nodes s))\<rparr>"
  have "nl_inv (nm_list (sw_nodes s))" using assms(2) nodes_ok_inv by (auto simp: srv_inv_def)
  then have "nl_inv (nm_list ?n)" using nl.step_inv [OF _ nl_Bootstrap] by simp
  from valid_env_choices [OF assms(1) this]
  have "nm_step (NBootstrap period vs) (sw_nodes s) (nodeManager_Bootstrap (mapChoices e ?n) period vs (sw_nodes s))"
    by (intro nm_Bootstrap) simp
  from srv_inv_step [OF assms(2) this] assms(3) show ?thesis
    by (simp add: server_HandleIncomingNodeList_def)
qed

lemma IncomingNodeList_members:
  assumes "srv_inv s"
  shows "members (nm_list (sw_nodes (server_HandleIncomingNodeList e period vs s)))
    = fold (m_add (hostAddress s) period) vs (members (nm_list (sw_nodes s)))"
proof -
  have "nl_cons (nm_list (sw_nodes s))" "selfAddr (nm_list (sw_nodes s)) = hostAddress s"
    using assms nodes_ok_inv by (auto simp: srv_inv_def nl_inv_def nodes_ok_def)
  with Bootstrap_spec [of "nm_list (sw_nodes s)" period vs] show ?thesis
    by (simp add: server_HandleIncomingNodeList_def nodeManager_Bootstrap_def)
qed

text \<open>What a filter for stable or remote nodes selects: the stable nodes.\<close>

lemma All_stable:
  "nodeManager_All 5 ordS ordP n = List.map_filter (stable (nm_list n)) ordS"
  using Range_stable_collect [of id "nm_list n" ordS "[]"]
  by (simp add: nodeManager_All_def nodeList_Range_def NodeType_Is_def option.map_id)

lemma AllKnownNodes_eq:
  "server_AllKnownNodes e s = List.map_filter (stable (nm_list (sw_nodes s))) (env_stable e (nm_list (sw_nodes s)))
     @ [\<lparr>n_Suspect = False, n_Incarnation = incarnation s, n_Address = hostAddress s\<rparr>]"
  by (simp add: server_AllKnownNodes_def All_stable)

lemma AllKnownNodes_ok:
  assumes "srv_inv s"
  shows "list_all typedNode (server_AllKnownNodes e s)"
proof -
  let ?l = "nm_list (sw_nodes s)"
  have ok: "nodes_ok (hostAddress s) (sw_nodes s)" "typedIP (hostAddress s)" using assms by (simp_all add: srv_inv_def)
  have cons: "nl_cons ?l" using nodes_ok_inv [OF ok(1)] by (simp add: nl_inv_def)
  have "typedNode v" if "stable ?l h = Some v" for h v
  proof -
    have "members ?l h = Some (MStable v)" using that by (simp add: members_def)
    with ok(1) show ?thesis by (force simp: nodes_ok_def typed_members_def)
  qed
  with ok show ?thesis by (auto simp: AllKnownNodes_eq list_all_iff set_map_filter_eq typedNode_def)
qed

lemma sync_server_ok:
  assumes "valid_env e"
  shows "sync_delegate (sync_server e period) srv_inv readable"
proof
  fix s m t source vs v
  assume s: "srv_inv s"
  show "EncodeTCPPacket (sync_server e period) m s \<noteq> None" if "typedMessage m"
    using that by (simp add: sync_server_def server_EncodeTCPPacket_def EncTCPPkt_def EncPkt_wire split: option.split)
  show "\<exists>r. DecodeTCPPacket (sync_server e period) t source s = Some r \<and> (\<forall>pkt. r = Inr (Some pkt) \<longrightarrow> packet_ok pkt)"
    if "readable t s"
    using DecodeTCPPacket_ok [OF that] by (simp add: sync_server_def)
  show "srv_inv (BootstrapCompleted (sync_server e period) s)"
    using s by (simp add: sync_server_def)
  show "srv_inv (HandleIncomingNodeList (sync_server e period) vs s)" if "list_all typedNode vs"
    using IncomingNodeList_ok [OF assms s that] by (simp add: sync_server_def)
  show "list_all typedNode (AllKnownNodes (sync_server e period) s)"
    using AllKnownNodes_ok [OF s] by (simp add: sync_server_def)
  show "\<exists>s'. PerformBootstrapComplete (sync_server e period) v s = Some s' \<and> srv_inv s'" if "typedNode v"
  proof -
    have "srv_inv (s\<lparr>sw_nodes := nodeManager_Add period v (sw_nodes s)\<rparr>)"
      using srv_inv_step [OF s nm_Add] that by simp
    moreover have "typedEvent \<lparr>ev_Payload = PJoin \<lparr>e_Source = hostAddress s, e_Subject = n_Address v, e_Incarnation = n_Incarnation v\<rparr>\<rparr>"
      using s that by (simp add: typedEvent_def typedPayload_def srv_inv_def typedNode_def)
    ultimately show ?thesis
      using gossipAdd_ok [OF assms] by (auto simp: sync_server_def server_PerformBootstrapComplete_def)
  qed
qed

interpretation syncing: sync_delegate "sync_server (sortedEnv nonce) period" srv_inv readable
  using sortedEnv_valid by (rule sync_server_ok)

subsection \<open>Inputs and turns\<close>

record system =
  sy_loop :: runLoop
  sy_manager :: syncManager
  sy_boot :: boot_phase
  sy_server :: swimServer

datatype input =
    Datagram "byte list" NetIP
  | Multicast nat "byte list" NetIP
  | IndirectPingJob nat IndirectPing Packet
  | CallbackTimer u32
  | PeriodStart nat int
  | PeriodEvent loop_event
  | PeriodEnd
  | TCPArrival NetIP TCPPacket
  | SyncRequestJob Sync
  | ExchangeStart SyncMode bool bool
  | SyncReply NetIP tcp_reply
  | BootstrapReply Node NetIP tcp_reply
  | BootEvent boot_event

definition set_server :: "system \<Rightarrow> swimServer \<Rightarrow> system" where
  "set_server y s = y\<lparr>sy_server := s\<rparr>"

definition set_loop :: "system \<Rightarrow> runLoop \<times> swimServer \<Rightarrow> system" where
  "set_loop y rs = y\<lparr>sy_loop := fst rs, sy_server := snd rs\<rparr>"

fun handle :: "env \<Rightarrow> input \<Rightarrow> system \<Rightarrow> system option" where
  "handle e (Datagram data source) y =
     map_option (set_server y) (HandleUDPControlMessage e (CurrentPeriod (sy_loop y)) data source (sy_server y))"
| "handle e (Multicast rnd data source) y =
     map_option (set_server y) (HandleMulticastMessage e rnd data source (sy_server y))"
| "handle e (IndirectPingJob rnd msg pkt) y =
     map_option (set_server y) (performIndirectPing e rnd (CurrentPeriod (sy_loop y)) msg pkt (sy_server y))"
| "handle e (CallbackTimer tag) y = Some (set_server y (deleteCallback tag (sy_server y)))"
| "handle e (PeriodStart rnd now) y =
     map_option (set_loop y) (startPeriod (server_delegate e) rnd now (sy_loop y) (sy_server y))"
| "handle e (PeriodEvent ev) y =
     map_option (set_loop y) (waitPeriod (server_delegate e) [ev] (sy_loop y) (sy_server y))"
| "handle e PeriodEnd y = map_option (set_loop y) (endPeriod (server_delegate e) (sy_loop y) (sy_server y))"
| "handle e (TCPArrival source t) y =
     map_option (\<lambda>(ops, m, s). y\<lparr>sy_manager := m, sy_server := s\<rparr>)
       (HandleTCPPacket e (CurrentPeriod (sy_loop y)) source t (sy_manager y) (sy_server y))"
| "handle e (SyncRequestJob msg) y =
     map_option (\<lambda>(ops, s). set_server y s) (HandleSyncRequest (sync_server e (CurrentPeriod (sy_loop y))) msg (sy_server y))"
| "handle e (ExchangeStart mode established written) y =
     map_option (\<lambda>_. y) (exchange_request (sync_server e (CurrentPeriod (sy_loop y))) mode established written (sy_server y))"
| "handle e (SyncReply source reply) y =
     map_option (\<lambda>(ops, s). set_server y s)
       (PerformSync_response (sync_server e (CurrentPeriod (sy_loop y))) source reply (sy_server y))"
| "handle e (BootstrapReply target source reply) y =
     map_option (\<lambda>(ops, s). set_server y s)
       (PerformBootstrap_response (sync_server e (CurrentPeriod (sy_loop y))) target source reply (sy_server y))"
| "handle e (BootEvent ev) y =
     map_option (\<lambda>(b, m, s). y\<lparr>sy_boot := b, sy_manager := m, sy_server := s\<rparr>)
       (runBootstrap_step e ev (sy_boot y, sy_manager y, sy_server y))"

definition newSystem :: "swimServer \<Rightarrow> runLoop \<Rightarrow> system" where
  "newSystem s r = \<lparr>sy_loop = r, sy_manager = NewSyncManager, sy_boot = Advertising, sy_server = runBootstrap_start s\<rparr>"

abbreviation peer_address :: "NetIP \<Rightarrow> bool" where
  "peer_address ip \<equiv> length ip \<in> {4, 16}"

text \<open>\<open>possible\<close>: what the Go runtime and the handlers that start a goroutine guarantee of an input, whatever
  its sender does. Addresses of peers are of four or sixteen bytes, and what a goroutine was started with
  was decoded before. \<open>crashing\<close>: the inputs a panic answers. With a key, these are the buffers shorter than
  a nonce, and the TCP packets of a peer whose payload does not open.\<close>

fun possible :: "input \<Rightarrow> bool" where
  "possible (Datagram data source) \<longleftrightarrow> peer_address source"
| "possible (Multicast rnd data source) \<longleftrightarrow> peer_address source"
| "possible (IndirectPingJob rnd msg pkt) \<longleftrightarrow> typedIP (iping_Address msg) \<and> peer_address (p_Source pkt)"
| "possible (SyncRequestJob msg) \<longleftrightarrow> list_all typedNode (sync_Nodes msg)"
| "possible (BootstrapReply target source reply) \<longleftrightarrow> typedNode target"
| "possible (BootEvent ev) \<longleftrightarrow> (\<forall>pkt. ev = ResponseArrived pkt \<longrightarrow> peer_address (p_Source pkt))"
| "possible _ \<longleftrightarrow> True"

definition shortSealed :: "byte list \<Rightarrow> swimServer \<Rightarrow> bool" where
  "shortSealed data s \<longleftrightarrow> enabled (sw_ascon s) \<and> length data < 16"

fun crashing :: "input \<Rightarrow> swimServer \<Rightarrow> bool" where
  "crashing (Datagram data source) s \<longleftrightarrow> shortSealed data s"
| "crashing (Multicast rnd data source) s \<longleftrightarrow> shortSealed data s"
| "crashing (TCPArrival source t) s \<longleftrightarrow> shortSealed (t_Payload t) s
     \<or> enabled (sw_ascon s) \<and> aead_open (sw_ascon s) (take 16 (t_Payload t)) (drop 16 (t_Payload t)) = None"
| "crashing (SyncReply source (ReplyPacket t)) s \<longleftrightarrow> shortSealed (t_Payload t) s"
| "crashing (BootstrapReply target source (ReplyPacket t)) s \<longleftrightarrow> shortSealed (t_Payload t) s"
| "crashing _ s \<longleftrightarrow> False"

definition turn :: "env \<Rightarrow> input \<Rightarrow> system \<Rightarrow> system \<Rightarrow> bool" where
  "turn e i y y' \<longleftrightarrow> possible i \<and> handle e i y = Some y'"

subsection \<open>The invariant\<close>

text \<open>A node list of a bootstrap is accepted only while the bootstrap waits for one.\<close>

definition sys_inv :: "system \<Rightarrow> bool" where
  "sys_inv y \<longleftrightarrow> srv_inv (sy_server y) \<and> (acceptBootstrapFrom (sy_manager y) \<noteq> [] \<longrightarrow> sy_boot y \<noteq> Advertising)"

lemma deleteCallback_ok: "srv_inv s \<Longrightarrow> srv_inv (deleteCallback tag s)"
  by (auto simp: srv_inv_def deleteCallback_def)

lemma Multicast_ok:
  assumes "srv_inv s" and "enabled (sw_ascon s) \<longrightarrow> 16 \<le> length data" and "peer_address source"
  shows "\<exists>s'. HandleMulticastMessage e rnd data source s = Some s' \<and> srv_inv s'"
proof -
  obtain opened where o: "Open (sw_ascon s) data = Some opened"
    using assms(2) Open_panic_iff [of "sw_ascon s" data] by auto
  have reply: "\<exists>s'. server_DispatchMessage e source MBootstrapResponse s = Some s' \<and> srv_inv s'"
    using DispatchMessage_ok [OF assms(1) _ assms(3), of MBootstrapResponse] by simp
  show ?thesis
  proof (cases opened)
    case None
    with o assms(1) show ?thesis by (simp add: HandleMulticastMessage_def)
  next
    case (Some d)
    with ParsePacket_sound [of d] o reply assms(1) show ?thesis by (auto simp: HandleMulticastMessage_def)
  qed
qed

lemma HandleBootstrap_manager:
  "HandleBootstrap del msg source m d = Some (ops, m', d') \<Longrightarrow> m' = m \<or> acceptBootstrapFrom m' = []"
  by (auto simp: HandleBootstrap_def Let_def split: if_splits sum.splits Option.bind_splits)

lemma HandleTCP_ok:
  assumes "valid_env e" and "srv_inv s" and "Open (sw_ascon s) (t_Payload t) = Some (Some d)"
  shows "\<exists>ops m' s'. HandleTCPPacket e period source t m s = Some (ops, m', s') \<and> srv_inv s'
    \<and> (m' = m \<or> acceptBootstrapFrom m' = [])"
proof -
  note boot = sync_delegate.HandleBootstrap_total [OF sync_server_ok [OF assms(1)] assms(2)]
  consider "ParsePacket d = Some (Inl CouldNotParsePacketErr)" | p where "ParsePacket d = Some (Inr p)" "packet_ok p"
    using ParsePacket_sound [of d] by blast
  then show ?thesis
  proof cases
    case 1
    with assms show ?thesis by (simp add: HandleTCPPacket_def server_DecodeTCPPacket_def)
  next
    case (2 p)
    then obtain msg where msg: "p_Message p = Some msg" "typedMessage msg" by (auto simp: packet_ok_def)
    have handled: "HandleTCPPacket e period source t m s = (case msg of MSync sync \<Rightarrow>
        (if sync_Mode sync = SyncModeBootstrap then HandleBootstrap (sync_server e period) sync source m s
         else if sync_Mode sync = SyncModeFirstPhase then Some ([], m, emit (GoSyncRequest sync source) s)
         else if sync_Mode sync = SyncModeSecondPhase then Some ([ClientClose], m, s)
         else Some ([], m, s))
      | _ \<Rightarrow> Some ([ClientClose], m, s))"
      using 2 msg assms(3) by (simp add: HandleTCPPacket_def server_DecodeTCPPacket_def)
    show ?thesis
    proof (cases msg)
      case (MSync sync)
      with msg have "list_all typedNode (sync_Nodes sync)" by simp
      from boot [OF this, of period source m] obtain ops m' s'
        where b: "HandleBootstrap (sync_server e period) sync source m s = Some (ops, m', s')" "srv_inv s'" by blast
      from HandleBootstrap_manager [OF b(1)] b handled MSync assms(2) show ?thesis by auto
    qed (use handled assms(2) in simp_all)
  qed
qed

lemma runBootstrap_ok:
  assumes "srv_inv s" and "acceptBootstrapFrom m \<noteq> [] \<longrightarrow> b \<noteq> Advertising"
    and "\<forall>pkt. ev = ResponseArrived pkt \<longrightarrow> peer_address (p_Source pkt)"
  shows "\<exists>b' m' s'. runBootstrap_step e ev (b, m, s) = Some (b', m', s') \<and> srv_inv s'
    \<and> (acceptBootstrapFrom m' \<noteq> [] \<longrightarrow> b' \<noteq> Advertising)"
proof -
  have tick: "\<exists>s'. DispatchMulticast e MBootstrapRequest s = Some s' \<and> srv_inv s'"
    using assms(1) by (simp add: DispatchMulticast_def EncPkt_wire split: option.split)
  have ack: "\<exists>s'. server_DispatchMessage e dst MBootstrapAck (s\<lparr>bootstrapResponseReceived := True\<rparr>) = Some s' \<and> srv_inv s'"
    if "peer_address dst" for dst
    using DispatchMessage_ok [of "s\<lparr>bootstrapResponseReceived := True\<rparr>" MBootstrapAck dst e] assms(1) that by simp
  show ?thesis
  proof (cases b)
    case Advertising
    then show ?thesis
    proof (cases ev)
      case (ResponseArrived pkt)
      with ack [of "p_Source pkt"] assms Advertising show ?thesis by (auto simp: Let_def)
    qed (use tick assms Advertising in auto)
  next
    case AwaitingCompletion
    then show ?thesis
      by (cases ev) (use assms in \<open>simp_all add: runBootstrap_start_def SetBootstrapSource_def\<close>)
  qed (use assms in \<open>cases ev; simp\<close>)
qed

lemmas inv_simps = sys_inv_def set_server_def set_loop_def

lemma crashing_reply:
  "crashing (SyncReply source reply) s \<longleftrightarrow> (\<exists>t. reply = ReplyPacket t \<and> \<not> readable t s)"
  "crashing (BootstrapReply target source reply) s \<longleftrightarrow> (\<exists>t. reply = ReplyPacket t \<and> \<not> readable t s)"
  by (cases reply; auto simp: readable_def shortSealed_def)+

lemma handle_total:
  assumes "valid_env e" and y: "sys_inv y" and pos: "possible i" and calm: "\<not> crashing i (sy_server y)"
  shows "\<exists>y'. handle e i y = Some y' \<and> sys_inv y'"
proof -
  let ?s = "sy_server y" and ?r = "sy_loop y"
  note loop = server_delegate_ok [OF assms(1)] and sync = sync_server_ok [OF assms(1)]
  have s: "srv_inv ?s" and boot: "acceptBootstrapFrom (sy_manager y) \<noteq> [] \<longrightarrow> sy_boot y \<noteq> Advertising"
    using y by (simp_all add: sys_inv_def)
  show ?thesis
  proof (cases i)
    case (Datagram data source)
    then have "Open (sw_ascon ?s) data \<noteq> None" "peer_address source"
      using pos calm Open_panic_iff [of "sw_ascon ?s" data] by (auto simp: shortSealed_def)
    from HandleUDP_ok [OF assms(1) s this, of "CurrentPeriod ?r"] Datagram boot show ?thesis by (auto simp: inv_simps)
  next
    case (Multicast rnd data source)
    with Multicast_ok [OF s, of data source e rnd] pos calm boot show ?thesis by (auto simp: inv_simps shortSealed_def)
  next
    case (IndirectPingJob rnd msg pkt)
    with performIndirectPing_ok [OF s, of msg pkt e rnd "CurrentPeriod ?r"] pos boot show ?thesis by (auto simp: inv_simps)
  next
    case (CallbackTimer tag)
    with deleteCallback_ok [OF s, of tag] boot show ?thesis by (simp add: inv_simps)
  next
    case (PeriodStart rnd now)
    with run_loop_delegate.startPeriod_total [OF loop s, of rnd now ?r] boot show ?thesis by (auto simp: inv_simps)
  next
    case (PeriodEvent ev)
    with run_loop_delegate.waitPeriod_total [OF loop s, of "[ev]" ?r] boot show ?thesis by (auto simp: inv_simps)
  next
    case PeriodEnd
    with run_loop_delegate.endPeriod_total [OF loop s, of ?r] boot show ?thesis by (auto simp: inv_simps)
  next
    case (TCPArrival source t)
    with calm have "\<exists>d. Open (sw_ascon ?s) (t_Payload t) = Some (Some d)"
      by (auto simp: Open_def shortSealed_def Let_def)
    then obtain d where "Open (sw_ascon ?s) (t_Payload t) = Some (Some d)" by blast
    from HandleTCP_ok [OF assms(1) s this, of "CurrentPeriod ?r" source "sy_manager y"] TCPArrival boot show ?thesis
      by (auto simp: inv_simps)
  next
    case (SyncRequestJob msg)
    with sync_delegate.HandleSyncRequest_total [OF sync s, of msg "CurrentPeriod ?r"] pos boot show ?thesis
      by (auto simp: inv_simps)
  next
    case (ExchangeStart mode est wr)
    with sync_delegate.exchange_request_total [OF sync s, of "CurrentPeriod ?r" mode est wr] y show ?thesis by auto
  next
    case (SyncReply source reply)
    with sync_delegate.PerformSync_response_total [OF sync s, of reply "CurrentPeriod ?r" source] calm boot show ?thesis
      by (auto simp: inv_simps crashing_reply)
  next
    case (BootstrapReply target source reply)
    with sync_delegate.PerformBootstrap_response_total [OF sync s, of reply target "CurrentPeriod ?r" source] pos calm boot
    show ?thesis by (auto simp: inv_simps crashing_reply)
  next
    case (BootEvent ev)
    with runBootstrap_ok [OF s boot, of ev e] pos show ?thesis by (auto simp: inv_simps)
  qed
qed

text \<open>An input that is none of the crashing ones is handled; one of them is not.\<close>

lemma short_Open [simp]: "shortSealed data s \<Longrightarrow> Open (sw_ascon s) data = None"
  using Open_panic_iff [of "sw_ascon s" data] by (simp add: shortSealed_def)

lemma short_DecodeTCP [simp]: "shortSealed (t_Payload t) s \<Longrightarrow> server_DecodeTCPPacket t source s = None"
  by (simp add: server_DecodeTCPPacket_def)

lemma handle_crashes:
  assumes "crashing i (sy_server y)"
  shows "handle e i y = None"
  using assms
proof (cases i)
  case (TCPArrival source t)
  show ?thesis
  proof (cases "shortSealed (t_Payload t) (sy_server y)")
    case False
    with TCPArrival assms have "server_DecodeTCPPacket t source (sy_server y) = Some (Inr None)"
      by (auto simp: server_DecodeTCPPacket_def Open_def shortSealed_def Let_def)
    with TCPArrival show ?thesis by (simp add: HandleTCPPacket_def)
  qed (simp add: TCPArrival HandleTCPPacket_def)
next
  case (SyncReply source reply)
  with assms show ?thesis
    by (cases reply) (simp_all add: PerformSync_response_def exchange_answer_def sync_server_def)
next
  case (BootstrapReply target source reply)
  with assms show ?thesis
    by (cases reply) (simp_all add: PerformBootstrap_response_def exchange_answer_def sync_server_def)
qed (simp_all add: HandleUDPControlMessage_def HandleMulticastMessage_def)

lemma turn_invariant: "valid_env e \<Longrightarrow> invariant (turn e) sys_inv"
  by unfold_locales (metis handle_crashes handle_total option.distinct(1) option.inject turn_def)

interpretation system: invariant "turn (sortedEnv nonce)" sys_inv
  using sortedEnv_valid by (rule turn_invariant)

lemma sys_inv_new: "srv_inv s \<Longrightarrow> sys_inv (newSystem s r)"
  by (simp add: sys_inv_def newSystem_def NewSyncManager_def runBootstrap_start_def)

end
