(* ===== verification/Server_Properties.thy ===== *)
theory Server_Properties
  imports Server_System
begin

text \<open>
  The properties of the server as a whole: exactly which inputs make it panic, in every reachable state;
  a suspicion about the server itself is refuted, what happens at the end of the incarnation
  counter, when the member list and the gossip queue disagree, and whom a bootstrap listens to.
\<close>

subsection \<open>A concrete server\<close>

definition plainWrapper :: asconWrapper where
  "plainWrapper = \<lparr>enabled = False, aead_seal = (\<lambda>_ d. d), aead_open = (\<lambda>_ d. Some d)\<rparr>"

abbreviation plainEnv :: env where
  "plainEnv \<equiv> sortedEnv (\<lambda>_. None)"

definition exampleServer :: "byte \<Rightarrow> swimServer" where
  "exampleServer b = newSwimServer (hostIP b) plainWrapper 3 2 0"

text \<open>A server whose cipher rejects everything.\<close>

definition rejectingServer :: swimServer where
  "rejectingServer = newSwimServer (hostIP 1) \<lparr>enabled = True, aead_seal = (\<lambda>n d. d), aead_open = (\<lambda>n d. None)\<rparr> 3 2 0"

lemma typedIP_host [simp]: "typedIP (hostIP b)"
  by (simp add: typedIP_def)

lemma example_srv: "srv_inv (exampleServer b)"
  by (simp add: exampleServer_def srv_inv_new)

lemma example_fields [simp]:
  "hostAddress (exampleServer b) = hostIP b" "incarnation (exampleServer b) = 0"
  "sw_ascon (exampleServer b) = plainWrapper" "sw_effects (exampleServer b) = []"
  "gm_queue (sw_gossip (exampleServer b)) = []" "maxTx (sw_gossip (exampleServer b)) = 1"
  by (simp_all add: exampleServer_def newSwimServer_def NewGossipManager_def)

lemma plain_enabled [simp]: "enabled plainWrapper = False"
  by (simp add: plainWrapper_def)

subsection \<open>Panics\<close>

text \<open>C1: exactly what makes the server panic. Whatever sequence of datagrams, multicasts, TCP packets, timers,
  replies and periods it has been through since it was created with a positive number of indirect pings, a further input
  makes a handler panic if and only if a key is configured and the input is a datagram, a multicast, a TCP packet
  or a reply of fewer than sixteen bytes, or a TCP packet whose payload does not open. Any other input is handled, whatever its bytes are, and
  every member the server then knows is filed under its own hash and is not the server itself.\<close>

theorem server_panics_iff:
  assumes "valid_env e" and "typedIP self" and "0 < k"
    and "trace (turn e) (newSystem (newSwimServer self a p k t) (NewRunLoop d l ad r)) inputs y"
    and "possible i"
  shows "(handle e i y = None \<longleftrightarrow> crashing i (sy_server y))
    \<and> (\<forall>y' h v. handle e i y = Some y' \<longrightarrow> NodeByHash h (nm_list (sw_nodes (sy_server y'))) = Some v
        \<longrightarrow> Hash v = h \<and> n_Address v \<noteq> hostAddress (sy_server y'))"
proof -
  have y: "sys_inv y"
    using invariant.trace_inv [OF turn_invariant [OF assms(1)] assms(4)] sys_inv_new srv_inv_new [OF assms(2, 3)] by blast
  then have panics: "handle e i y = None \<longleftrightarrow> crashing i (sy_server y)"
    using handle_total [OF assms(1) _ assms(5)] handle_crashes by fastforce
  have "sys_inv y'" if "handle e i y = Some y'" for y'
    using invariant.step_inv [OF turn_invariant [OF assms(1)] y, of i y'] assms(5) that by (simp add: turn_def)
  with panics nodes_ok_lookup show ?thesis by (force simp: sys_inv_def srv_inv_def)
qed

theorem server_panics_iff_witness:
  "(\<exists>y'. handle plainEnv (Datagram [202, 254, 1] [10, 0, 0, 2]) (newSystem (exampleServer 1) (NewRunLoop 1000 1400 False 0)) = Some y')
    \<and> handle plainEnv (Datagram [202, 254, 1] [10, 0, 0, 2]) (newSystem rejectingServer (NewRunLoop 1000 1400 False 0)) = None"
proof -
  let ?i = "Datagram [202, 254, 1] [10, 0, 0, 2]"
  let ?y = "newSystem (exampleServer 1) (NewRunLoop 1000 1400 False 0)" and ?z = "newSystem rejectingServer (NewRunLoop 1000 1400 False 0)"
  have "trace (turn plainEnv) ?y [] ?y" "trace (turn plainEnv) ?z [] ?z" by (rule trace.intros)+
  from server_panics_iff [OF sortedEnv_valid _ _ this(1) [unfolded exampleServer_def], of ?i]
    server_panics_iff [OF sortedEnv_valid _ _ this(2) [unfolded rejectingServer_def], of ?i]
  show ?thesis
    by (auto simp: exampleServer_def rejectingServer_def newSystem_def runBootstrap_start_def newSwimServer_def shortSealed_def plainWrapper_def)
qed



subsection \<open>Refuting a suspicion\<close>

definition aliveAt :: "swimServer \<Rightarrow> u16 \<Rightarrow> Event" where
  "aliveAt s i = \<lparr>ev_Payload = PAlive \<lparr>s_Subject = hostAddress s, s_Incarnation = i\<rparr>\<rparr>"

lemma u16_bound: "unat (x :: u16) \<le> 65535"
proof -
  have "unat x < 2 ^ LENGTH(16)" by (rule unsigned_less)
  then show ?thesis by simp
qed

lemma u16_max: "x \<le> (65535 :: u16)"
  using u16_bound [of x] by (simp add: word_le_nat_alt)

lemma u16_Suc: "x \<noteq> 65535 \<Longrightarrow> unat (x + 1 :: u16) = unat x + 1"
  using u16_bound [of x] by (auto simp: unat_word_ariths word_unat_eq_iff)

text \<open>The overflow test of \<open>incrementIncarnationToSurpass\<close> never succeeds.\<close>

lemma increment_eq:
  "incrementIncarnationToSurpass e i s = gossipAdd e (aliveAt s (i + 1)) (s\<lparr>incarnation := i + 1\<rparr>)"
  using u16_max [of "i + 1"] by (simp add: incrementIncarnationToSurpass_def aliveAt_def not_less [symmetric])

lemma gossipAdd_spec:
  assumes "valid_env e" and "gm_inv (sw_gossip s)"
  shows "\<exists>g. gossipAdd e ev s = Some (s\<lparr>sw_gossip := g\<rparr>) \<and> gm_inv g
    \<and> LastGossipAbout (GetSubject (ev_Payload ev)) g = (case LastGossipAbout (GetSubject (ev_Payload ev)) (sw_gossip s) of
        None \<Rightarrow> Some ev | Some old \<Rightarrow> Some (if beats (ev_Payload ev) (ev_Payload old) then ev else old))"
  using Add_spec [OF valid_env_sorts [OF assms(1)] assms(2), of ev]
  by (auto simp: gossipAdd_def Invalidates_beats split: option.split)

text \<open>A hostile event about the server itself, no older than its incarnation.\<close>

definition accuses :: "Event \<Rightarrow> swimServer \<Rightarrow> bool" where
  "accuses ev s \<longleftrightarrow> isEventLocal ev s \<and> Event_EventKind ev \<in> {EventSuspect, EventFaulty}
     \<and> incarnation s \<le> GetIncarnation (ev_Payload ev)"

lemma accused:
  assumes "valid_env e" and "srv_inv s" and "accuses ev s"
  shows "\<exists>known g. processPingEvents e period [ev] s
        = Some (s\<lparr>incarnation := GetIncarnation (ev_Payload ev) + 1, sw_gossip := g\<rparr>)
    \<and> known = (case LastGossipAbout (hostAddress s) (sw_gossip s) of None \<Rightarrow> ev
        | Some old \<Rightarrow> if beats (ev_Payload ev) (ev_Payload old) then ev else old)
    \<and> LastGossipAbout (hostAddress s) g = Some (if GetIncarnation (ev_Payload known) < GetIncarnation (ev_Payload ev) + 1
        then aliveAt s (GetIncarnation (ev_Payload ev) + 1) else known)"
proof -
  let ?i = "GetIncarnation (ev_Payload ev)"
  let ?known = "case LastGossipAbout (hostAddress s) (sw_gossip s) of None \<Rightarrow> ev
        | Some old \<Rightarrow> if beats (ev_Payload ev) (ev_Payload old) then ev else old"
  have g: "gm_inv (sw_gossip s)" using assms(2) by (simp add: srv_inv_def gossip_ok_def)
  have subj: "GetSubject (ev_Payload ev) = hostAddress s" using assms(3) by (simp add: accuses_def isEventLocal_def)
  obtain g1 where g1: "gossipAdd e ev s = Some (s\<lparr>sw_gossip := g1\<rparr>)" "gm_inv g1"
      "LastGossipAbout (hostAddress s) g1 = Some ?known"
    using gossipAdd_spec [OF assms(1) g, of ev] subj by (auto split: option.splits)
  obtain g2 where g2: "gossipAdd e (aliveAt s (?i + 1)) (s\<lparr>sw_gossip := g1, incarnation := ?i + 1\<rparr>)
        = Some (s\<lparr>incarnation := ?i + 1, sw_gossip := g2\<rparr>)"
      "LastGossipAbout (hostAddress s) g2 = Some (if beats (ev_Payload (aliveAt s (?i + 1))) (ev_Payload ?known)
         then aliveAt s (?i + 1) else ?known)"
    using gossipAdd_spec [OF assms(1), of "s\<lparr>sw_gossip := g1, incarnation := ?i + 1\<rparr>" "aliveAt s (?i + 1)"] g1(2, 3)
    by (auto simp: aliveAt_def)
  have alive: "beats (ev_Payload (aliveAt s (?i + 1))) q \<longleftrightarrow> GetIncarnation q < ?i + 1" for q
    by (simp add: aliveAt_def beats_def table_def)
  have "localEvent (incarnation s) ev (-1, False) = (int (unat ?i), False)" "isEventLocal ev s"
    using assms(3) by (auto simp: accuses_def localEvent_def Let_def)
  moreover have "-1 < uint ?i" using uint_ge_0 [of ?i] by linarith
  ultimately have "processPingEvents e period [ev] s = Some (s\<lparr>incarnation := ?i + 1, sw_gossip := g2\<rparr>)"
    using g1(1) g2(1) by (simp add: processPingEvents_def isEventLocal_def increment_eq aliveAt_def)
  with alive show ?thesis using g2(2) by auto
qed

text \<open>C6: the server refutes a suspicion. When a ping says that it is suspect or faulty at an incarnation
  \<open>i\<close> that is not behind its own, and it knows no later gossip about itself, it takes the
  incarnation \<open>i + 1\<close> and replaces what its queue says about it by an Alive of that incarnation, which
  beats the accusation at every member that hears it. Its member list does not change.\<close>

theorem suspicion_refuted:
  assumes "valid_env e" and "srv_inv s" and "accuses ev s"
    and "GetIncarnation (ev_Payload ev) \<noteq> 65535"
    and "\<forall>old. LastGossipAbout (hostAddress s) (sw_gossip s) = Some old
        \<longrightarrow> GetIncarnation (ev_Payload old) \<le> GetIncarnation (ev_Payload ev)"
  shows "\<exists>s'. processPingEvents e period [ev] s = Some s' \<and> sw_nodes s' = sw_nodes s
    \<and> incarnation s' = GetIncarnation (ev_Payload ev) + 1
    \<and> LastGossipAbout (hostAddress s) (sw_gossip s') = Some (aliveAt s (GetIncarnation (ev_Payload ev) + 1))
    \<and> Invalidates (ev_Payload (aliveAt s (GetIncarnation (ev_Payload ev) + 1))) ev = Some True"
proof -
  let ?i = "GetIncarnation (ev_Payload ev)"
  have lt: "j \<le> ?i \<Longrightarrow> j < ?i + 1" for j
    using u16_Suc [OF assms(4)] by (simp add: word_less_nat_alt word_le_nat_alt)
  have "GetIncarnation (ev_Payload (case LastGossipAbout (hostAddress s) (sw_gossip s) of None \<Rightarrow> ev
        | Some old \<Rightarrow> if beats (ev_Payload ev) (ev_Payload old) then ev else old)) < ?i + 1"
    using lt assms(5) by (auto split: option.split)
  moreover have "Invalidates (ev_Payload (aliveAt s (?i + 1))) ev = Some True"
    using lt [of ?i] by (simp add: Invalidates_beats aliveAt_def beats_def table_def)
  ultimately show ?thesis using accused [OF assms(1-3), of period] by auto
qed

definition accusation :: "byte \<Rightarrow> u16 \<Rightarrow> Event" where
  "accusation b i = \<lparr>ev_Payload = PSuspect \<lparr>e_Source = hostIP 2, e_Subject = hostIP b, e_Incarnation = i\<rparr>\<rparr>"

lemma accusation_accuses: "accuses (accusation b i) (exampleServer b)"
  by (simp add: accuses_def accusation_def isEventLocal_def Event_EventKind_def)

lemma example_unknown: "LastGossipAbout ip (sw_gossip (exampleServer b)) = None"
  by (simp add: LastGossipAbout_def)

theorem suspicion_refuted_witness:
  "\<exists>s'. processPingEvents plainEnv 1 [accusation 1 4] (exampleServer 1) = Some s' \<and> incarnation s' = 5"
  using suspicion_refuted [OF sortedEnv_valid example_srv accusation_accuses, of 1 4 "\<lambda>_. None" 1]
  by (auto simp: example_unknown accusation_def)

text \<open>C33: at the end of the incarnation counter the refutation is lost. Accused at 65535, the server falls
  back to the incarnation 0 and its queue goes on saying that it is suspect, faulty or gone at
  65535: no Alive of its new incarnation is ever gossiped, and no Wrap is announced.\<close>

theorem refutation_lost_at_wrap:
  assumes "valid_env e" and "srv_inv s" and "accuses ev s" and "GetIncarnation (ev_Payload ev) = 65535"
  shows "\<exists>s' known. processPingEvents e period [ev] s = Some s' \<and> incarnation s' = 0
    \<and> LastGossipAbout (hostAddress s) (sw_gossip s') = Some known
    \<and> Event_EventKind known \<in> {EventSuspect, EventFaulty, EventLeft}"
proof -
  have ev: "Kind (ev_Payload ev) \<in> {EventSuspect, EventFaulty}" using assms(3) by (simp add: accuses_def Event_EventKind_def)
  have old: "Kind q \<in> {EventSuspect, EventFaulty, EventLeft}" if "\<not> beats (ev_Payload ev) q" for q
    using that ev assms(4) u16_max [of "GetIncarnation q"] by (cases q) (auto simp: beats_def table_def)
  have zero: "GetIncarnation (ev_Payload ev) + 1 = 0" by (simp add: assms(4) word_unat_eq_iff)
  from accused [OF assms(1-3), of period] old ev show ?thesis
    unfolding zero by (auto simp: Event_EventKind_def split: option.splits if_splits)
qed

theorem refutation_lost_at_wrap_witness:
  "\<exists>s' known. processPingEvents plainEnv 1 [accusation 1 65535] (exampleServer 1) = Some s' \<and> incarnation s' = 0
    \<and> LastGossipAbout (hostIP 1) (sw_gossip s') = Some known \<and> Event_EventKind known \<in> {EventSuspect, EventFaulty, EventLeft}"
  using refutation_lost_at_wrap [OF sortedEnv_valid example_srv accusation_accuses, of 1 65535 "\<lambda>_. None" 1]
  by (auto simp: accusation_def)

subsection \<open>The member list and the gossip queue\<close>

text \<open>The member list and the gossip queue follow different rules. An Alive of the very incarnation at which
  a member is suspected does not replace the Suspect in the queue, yet it clears the suspicion in
  the member list: the server then holds the member stable while it goes on gossiping that it is
  suspect.\<close>

lemma alive_splits_list_and_queue:
  assumes "valid_env e" and "srv_inv s" and "a \<noteq> hostAddress s"
    and "LastGossipAbout a (sw_gossip s) = Some old" and "Event_EventKind old = EventSuspect"
    and "GetIncarnation (ev_Payload old) = i"
    and "NodeByHash (IntoHash a) (nm_list (sw_nodes s)) = Some v" and "n_Incarnation v = i"
  shows "\<exists>s'. processPingEvents e period [\<lparr>ev_Payload = PAlive \<lparr>s_Subject = a, s_Incarnation = i\<rparr>\<rparr>] s = Some s'
    \<and> NodeByHash (IntoHash a) (nm_list (sw_nodes s')) = Some (v\<lparr>n_Suspect := False\<rparr>)
    \<and> LastGossipAbout a (sw_gossip s') = Some old"
proof -
  let ?ev = "\<lparr>ev_Payload = PAlive \<lparr>s_Subject = a, s_Incarnation = i\<rparr>\<rparr>"
  let ?v = "\<lparr>n_Suspect = False, n_Incarnation = i, n_Address = a\<rparr>"
  have g: "gm_inv (sw_gossip s)" "nm_inv (sw_nodes s)" using assms(2) by (simp_all add: srv_inv_def gossip_ok_def nodes_ok_def)
  have "\<not> beats (ev_Payload ?ev) (ev_Payload old)"
    using assms(6) by (simp add: beats_def table_def)
  then obtain g1 where g1: "gossipAdd e ?ev s = Some (s\<lparr>sw_gossip := g1\<rparr>)" "LastGossipAbout a g1 = Some old"
    using gossipAdd_spec [OF assms(1) g(1), of ?ev] assms(4) by auto
  have "NodeByHash (Hash ?v) (nm_list (UpdateOrCreate period ?v (sw_nodes s))) = Some (v\<lparr>n_Suspect := False\<rparr>)"
    using UpdateOrCreate_result [OF g(2), of ?v period] assms(7, 8) by (simp add: Hash_def)
  with g1 assms(3) show ?thesis
    by (simp add: processPingEvents_def isEventLocal_def applyEvent_def Hash_def)
qed

text \<open>A server that has heard of a suspect.\<close>

definition suspectingServer :: swimServer where
  "suspectingServer = (exampleServer 1)\<lparr>
     sw_nodes := UpdateOrCreate 1 (host True 5 2) (NewNodeManager (hostIP 1)),
     sw_gossip := \<lparr>gm_queue = [\<lparr>First = accusation 2 5, Second = 1\<rparr>], maxTx = 1\<rparr>\<rparr>"

lemma suspecting_reached: "processPingEvents plainEnv 1 [accusation 2 5] (exampleServer 1) = Some suspectingServer"
  by (simp add: processPingEvents_def gossipAdd_def gossipManager_Add_def reorder_def sortedEnv_def sortDesc_def
      isEventLocal_def accusation_def applyEvent_def suspectingServer_def exampleServer_def newSwimServer_def NewGossipManager_def)

lemma suspecting_inv: "srv_inv suspectingServer"
  using processPingEvents_ok [OF sortedEnv_valid example_srv, of "[accusation 2 5]" "\<lambda>_. None" 1 1] suspecting_reached
  by (simp add: typedEvent_def typedPayload_def accusation_def)

lemma suspecting_knows:
  "NodeByHash (IntoHash (hostIP 2)) (nm_list (sw_nodes suspectingServer)) = Some (host True 5 2)"
  "LastGossipAbout (hostIP 2) (sw_gossip suspectingServer) = Some (accusation 2 5)"
proof -
  have "NodeByHash (hostHash 2) (nm_list (NewNodeManager (hostIP 1))) = None"
    by (simp add: NewNodeManager_def NodeByHash_def NewNodeList_def)
  with UpdateOrCreate_result [OF nm_inv_new [of "hostIP 1"], of "host True 5 2" 1] Hash_host [of True 5 2]
  show "NodeByHash (IntoHash (hostIP 2)) (nm_list (sw_nodes suspectingServer)) = Some (host True 5 2)"
    by (simp add: suspectingServer_def Hash_def NewNodeManager_def)
  show "LastGossipAbout (hostIP 2) (sw_gossip suspectingServer) = Some (accusation 2 5)"
    by (simp add: suspectingServer_def LastGossipAbout_def accusation_def)
qed

lemma alive_splits_list_and_queue_witness:
  "\<exists>s'. processPingEvents plainEnv 1 [\<lparr>ev_Payload = PAlive \<lparr>s_Subject = hostIP 2, s_Incarnation = 5\<rparr>\<rparr>] suspectingServer = Some s'
    \<and> NodeByHash (IntoHash (hostIP 2)) (nm_list (sw_nodes s')) = Some (host False 5 2)
    \<and> LastGossipAbout (hostIP 2) (sw_gossip s') = Some (accusation 2 5)"
  using alive_splits_list_and_queue [OF sortedEnv_valid suspecting_inv _ suspecting_knows(2) _ _ suspecting_knows(1),
      of 5 "\<lambda>_. None" 1]
  by (simp add: accusation_def Event_EventKind_def suspectingServer_def)

subsection \<open>Bootstrap\<close>

text \<open>Whom the bootstrap acknowledged: in the run of \<open>inputs\<close> from \<open>y0\<close> to \<open>y\<close>, a response of \<open>peer\<close> was taken while
  the bootstrap was advertising, and answered with an Ack to that very address. Since then it waits, unless a
  completion was signalled.\<close>

definition acknowledged :: "env \<Rightarrow> system \<Rightarrow> input list \<Rightarrow> system \<Rightarrow> NetIP \<Rightarrow> bool" where
  "acknowledged e y0 inputs y peer \<longleftrightarrow> (\<exists>pre pkt post y1 y2.
     inputs = pre @ BootEvent (ResponseArrived pkt) # post \<and> trace (turn e) y0 pre y1
     \<and> turn e (BootEvent (ResponseArrived pkt)) y1 y2 \<and> trace (turn e) y2 post y
     \<and> sy_boot y1 = Advertising \<and> h_OpCode (p_Header pkt) = BTRR \<and> p_Source pkt = peer
     \<and> server_DispatchMessage e peer MBootstrapAck ((sy_server y1)\<lparr>bootstrapResponseReceived := True\<rparr>) = Some (sy_server y2)
     \<and> (sy_boot y = AwaitingCompletion \<or> BootEvent CompletionArrived \<in> set post))"

lemma trace_snoc: "trace R s xs t \<Longrightarrow> R l t u \<Longrightarrow> trace R s (xs @ [l]) u"
  by (auto simp: trace_append trace_Cons_iff)

lemma accept_step:
  assumes "turn e i y y'" and "sys_inv y" and "acceptBootstrapFrom (sy_manager y') \<noteq> []"
  shows "acceptBootstrapFrom (sy_manager y') = acceptBootstrapFrom (sy_manager y)
      \<and> (sy_boot y' = sy_boot y \<or> i = BootEvent CompletionArrived)
    \<or> (\<exists>pkt. i = BootEvent (ResponseArrived pkt) \<and> sy_boot y = Advertising \<and> h_OpCode (p_Header pkt) = BTRR
      \<and> acceptBootstrapFrom (sy_manager y') = p_Source pkt \<and> sy_boot y' = AwaitingCompletion
      \<and> server_DispatchMessage e (p_Source pkt) MBootstrapAck ((sy_server y)\<lparr>bootstrapResponseReceived := True\<rparr>) = Some (sy_server y'))"
proof (cases i)
  case (TCPArrival source t)
  with assms(1, 3) show ?thesis
    by (auto simp: turn_def HandleTCPPacket_def dest: HandleBootstrap_manager split: Option.bind_splits sum.splits option.splits Message.splits if_splits)
next
  case (BootEvent ev)
  with assms show ?thesis
    by (cases ev; cases "sy_boot y")
      (auto simp: turn_def sys_inv_def SetBootstrapSource_def Let_def split: Option.bind_splits if_splits)
qed (use assms(1) in \<open>auto simp: turn_def set_server_def set_loop_def\<close>)

lemma acknowledged_extend:
  assumes "acknowledged e y0 ins z peer" and "turn e i z y" and "sy_boot y = sy_boot z \<or> i = BootEvent CompletionArrived"
  shows "acknowledged e y0 (ins @ [i]) y peer"
proof -
  obtain pre pkt post y1 y2 where ack: "ins = pre @ BootEvent (ResponseArrived pkt) # post" "trace (turn e) y0 pre y1"
      "turn e (BootEvent (ResponseArrived pkt)) y1 y2" "trace (turn e) y2 post z" "sy_boot y1 = Advertising"
      "h_OpCode (p_Header pkt) = BTRR" "p_Source pkt = peer"
      "server_DispatchMessage e peer MBootstrapAck ((sy_server y1)\<lparr>bootstrapResponseReceived := True\<rparr>) = Some (sy_server y2)"
      "sy_boot z = AwaitingCompletion \<or> BootEvent CompletionArrived \<in> set post"
    using assms(1) unfolding acknowledged_def by blast
  with trace_snoc [OF ack(4) assms(2)] assms(3) show ?thesis
    unfolding acknowledged_def by (intro exI [of _ pre] exI [of _ pkt] exI [of _ "post @ [i]"] exI [of _ y1] exI [of _ y2]) auto
qed

lemma accept_acknowledged:
  assumes "valid_env e" and "trace (turn e) y0 inputs y" and "sys_inv y0" and "acceptBootstrapFrom (sy_manager y0) = []"
    and "acceptBootstrapFrom (sy_manager y) \<noteq> []"
  shows "acknowledged e y0 inputs y (acceptBootstrapFrom (sy_manager y))"
  using assms(2, 5)
proof (induction inputs arbitrary: y rule: rev_induct)
  case Nil
  with assms(4) show ?case by simp
next
  case (snoc i ins)
  then obtain z where z: "trace (turn e) y0 ins z" "turn e i z y" by (auto simp: trace_append trace_Cons_iff)
  from accept_step [OF z(2) invariant.trace_inv [OF turn_invariant [OF assms(1)] z(1) assms(3)] snoc.prems(2)] show ?case
  proof (elim disjE [of "_ \<and> _"] exE)
    assume "acceptBootstrapFrom (sy_manager y) = acceptBootstrapFrom (sy_manager z) \<and> (sy_boot y = sy_boot z \<or> i = BootEvent CompletionArrived)"
    with snoc.IH [OF z(1)] snoc.prems(2) acknowledged_extend [OF _ z(2)] show ?thesis by auto
  next
    fix pkt assume "i = BootEvent (ResponseArrived pkt) \<and> sy_boot z = Advertising \<and> h_OpCode (p_Header pkt) = BTRR
      \<and> acceptBootstrapFrom (sy_manager y) = p_Source pkt \<and> sy_boot y = AwaitingCompletion
      \<and> server_DispatchMessage e (p_Source pkt) MBootstrapAck ((sy_server z)\<lparr>bootstrapResponseReceived := True\<rparr>) = Some (sy_server y)"
    with z show ?thesis
      unfolding acknowledged_def by (intro exI [of _ ins] exI [of _ pkt] exI [of _ "[]"] exI [of _ z] exI [of _ y]) simp
  qed
qed

text \<open>C25: whom a bootstrap listens to. In every reachable state, the node list of a bootstrap is merged
  only if it comes from the peer to whose response an Ack was dispatched earlier in the run, while the bootstrap
  has been waiting for the list ever since (unless a completion left over from an earlier attempt was signalled meanwhile),
  and once: afterwards no address is accepted. From anyone else the connection is closed and nothing changes.\<close>

theorem bootstrap_accepts_once:
  assumes "valid_env e" and "typedIP self" and "0 < k"
    and "trace (turn e) (newSystem (newSwimServer self a p k t) (NewRunLoop d l ad r)) inputs y"
    and "peer_address source"
    and "HandleBootstrap (sync_server e period) msg source (sy_manager y) (sy_server y) = Some (ops, m', s')"
  shows "if NetIP_Equal source (acceptBootstrapFrom (sy_manager y))
    then acknowledged e (newSystem (newSwimServer self a p k t) (NewRunLoop d l ad r)) inputs y (acceptBootstrapFrom (sy_manager y))
      \<and> members (nm_list (sw_nodes s')) = fold (m_add (hostAddress (sy_server y)) period) (sync_Nodes msg)
          (members (nm_list (sw_nodes (sy_server y))))
      \<and> (\<forall>ip. peer_address ip \<longrightarrow> \<not> NetIP_Equal ip (acceptBootstrapFrom m'))
    else m' = sy_manager y \<and> s' = sy_server y \<and> ops = [ClientClose]"
proof -
  let ?y0 = "newSystem (newSwimServer self a p k t) (NewRunLoop d l ad r)"
  have new: "sys_inv ?y0" using sys_inv_new srv_inv_new [OF assms(2, 3)] by blast
  have s: "srv_inv (sy_server y)"
    using invariant.trace_inv [OF turn_invariant [OF assms(1)] assms(4) new] by (simp add: sys_inv_def)
  show ?thesis
  proof (cases "NetIP_Equal source (acceptBootstrapFrom (sy_manager y))")
    case True
    then have "acceptBootstrapFrom (sy_manager y) \<noteq> []" using assms(5) by (auto simp: NetIP_Equal_def)
    with accept_acknowledged [OF assms(1, 4) new]
    have "acknowledged e ?y0 inputs y (acceptBootstrapFrom (sy_manager y))" by (simp add: newSystem_def NewSyncManager_def)
    moreover have "acceptBootstrapFrom m' = []"
      "s' = emit BootstrapFinished (server_HandleIncomingNodeList e period (sync_Nodes msg) (sy_server y))"
      using assms(6) True by (auto simp: HandleBootstrap_def sync_server_def Let_def split: Option.bind_splits sum.splits)
    ultimately show ?thesis using True IncomingNodeList_members [OF s] by (auto simp: emit_def NetIP_Equal_def)
  next
    case False
    with assms(6) show ?thesis by (simp add: HandleBootstrap_def)
  qed
qed

definition awaitingSystem :: system where
  "awaitingSystem = (newSystem (exampleServer 1) (NewRunLoop 1000 1400 False 0))\<lparr>sy_boot := AwaitingCompletion,
     sy_manager := \<lparr>acceptBootstrapFrom = [10, 0, 0, 2]\<rparr>,
     sy_server := (exampleServer 1)\<lparr>bootstrapResponseReceived := True, sw_effects := [UDPOut [10, 0, 0, 2] (packet_wire 0 MBootstrapAck)]\<rparr>\<rparr>"

abbreviation bootstrapResponse :: Packet where
  "bootstrapResponse \<equiv> (Pkt 0 MBootstrapResponse)\<lparr>p_Source := [10, 0, 0, 2]\<rparr>"

lemma awaiting_reached:
  "trace (turn plainEnv) (newSystem (exampleServer 1) (NewRunLoop 1000 1400 False 0)) [BootEvent (ResponseArrived bootstrapResponse)] awaitingSystem"
proof -
  have "turn plainEnv (BootEvent (ResponseArrived bootstrapResponse)) (newSystem (exampleServer 1) (NewRunLoop 1000 1400 False 0)) awaitingSystem"
    by (simp add: turn_def newSystem_def awaitingSystem_def NewSyncManager_def SetBootstrapSource_def runBootstrap_start_def
        server_DispatchMessage_def EncPkt_wire Seal_def ConvertNetIP_def To4_def emit_def Pkt_def Let_def)
  then show ?thesis by (auto simp: trace_Cons_iff intro: trace.intros)
qed

theorem bootstrap_accepts_once_witness:
  "\<exists>ops m' s'. HandleBootstrap (sync_server plainEnv 1) \<lparr>sync_Nodes = [host False 4 2], sync_Mode = SyncModeBootstrap\<rparr> [10, 0, 0, 2]
      (sy_manager awaitingSystem) (sy_server awaitingSystem) = Some (ops, m', s')
    \<and> members (nm_list (sw_nodes s')) (hostHash 2) = Some (MStable (host False 4 2))"
proof -
  let ?msg = "\<lparr>sync_Nodes = [host False 4 2], sync_Mode = SyncModeBootstrap\<rparr>"
  have "srv_inv (sy_server awaitingSystem)" using example_srv [of 1] by (simp add: awaitingSystem_def srv_inv_def)
  then obtain ops m' s' where h: "HandleBootstrap (sync_server plainEnv 1) ?msg [10, 0, 0, 2]
      (sy_manager awaitingSystem) (sy_server awaitingSystem) = Some (ops, m', s')"
    using syncing.HandleBootstrap_total [of "sy_server awaitingSystem" ?msg "\<lambda>_. None" 1 "[10, 0, 0, 2]" "sy_manager awaitingSystem"]
    by (auto simp: typedNode_def)
  have "members (nm_list (sw_nodes (sy_server awaitingSystem))) = Map.empty" "hostAddress (sy_server awaitingSystem) = hostIP 1"
    "acceptBootstrapFrom (sy_manager awaitingSystem) = [10, 0, 0, 2]"
    by (simp_all add: awaitingSystem_def exampleServer_def newSwimServer_def NewNodeManager_def members_new)
  with bootstrap_accepts_once [OF sortedEnv_valid _ _ awaiting_reached [unfolded exampleServer_def] _ h] Hash_host [of False 4 2] h
  show ?thesis by (auto simp: NetIP_Equal_def m_add_def new_member_def)
qed

end
