(* ===== verification/Exchange.thy ===== *)
theory Exchange
  imports Server_Properties
begin

text \<open>
  Two servers that talk to each other over the network: what one sends is what the other receives.
  The properties follow a message through the whole program: the run loop or the sync manager of the
  sender, the encoder, the cipher, the decoder and the handler of the receiver, and back.

  The two servers share a key, which is what \<open>shares_key\<close> says of the cipher, and their random sources
  deliver nonces.
\<close>

subsection \<open>A shared key\<close>

definition shares_key :: "asconWrapper \<Rightarrow> asconWrapper \<Rightarrow> bool" where
  "shares_key a b \<longleftrightarrow> enabled a = enabled b
     \<and> (\<forall>nonce data. aead_open b nonce (aead_seal a nonce data) = Some data)"

definition nonces :: "env \<Rightarrow> bool" where
  "nonces e \<longleftrightarrow> (\<forall>i. \<exists>n. env_nonce e i = Some n \<and> length n = 16)"

text \<open>What \<open>Seal\<close> returns when the random source works.\<close>

definition sealed :: "env \<Rightarrow> swimServer \<Rightarrow> byte list \<Rightarrow> byte list" where
  "sealed e s data = (if enabled (sw_ascon s)
     then the (env_nonce e (length (sw_effects s))) @ aead_seal (sw_ascon s) (the (env_nonce e (length (sw_effects s)))) data
     else data)"

lemma Seal_sealed: "nonces e \<Longrightarrow> Seal (sw_ascon s) (env_nonce e (length (sw_effects s))) data = Some (sealed e s data)"
  by (cases "env_nonce e (length (sw_effects s))") (auto simp: Seal_def sealed_def nonces_def dest: spec [of _ "length (sw_effects s)"])

lemma Open_sealed:
  assumes "nonces e" and "shares_key (sw_ascon s) b"
  shows "Open b (sealed e s data) = Some (Some data)"
proof -
  obtain n where "env_nonce e (length (sw_effects s)) = Some n" "length n = 16" using assms(1) by (auto simp: nonces_def)
  with assms(2) show ?thesis by (auto simp: shares_key_def sealed_def Open_def)
qed

subsection \<open>Datagrams from server to server\<close>

lemma Dispatch_sealed:
  assumes "nonces e" and "typedMessage m" and "peer_address dst"
  shows "server_DispatchMessage e dst m s = Some (emit (UDPOut dst (sealed e s (packet_wire (incarnation s) m))) s)"
  using ConvertNetIP_ok [OF assms(3)] assms(2)
  by (auto simp: server_DispatchMessage_def EncPkt_wire Seal_sealed [OF assms(1)])

text \<open>A datagram is handled as the packet it carries. Only the part the decoder reads counts.\<close>

lemma delivered:
  assumes "nonces e" and "shares_key (sw_ascon s) (sw_ascon s')" and "wfMessage m'"
    and "message_wire m = message_wire m' @ rest" and "Message_OpCode m = Message_OpCode m'"
  shows "HandleUDPControlMessage e' period (sealed e s (packet_wire inc m)) source s'
    = handlePacket e' period ((Pkt inc m')\<lparr>p_Source := source\<rparr>) s'"
  using packet_wire_cut [OF assms(4, 5), of inc] ParsePacket_wire [OF assms(3), of inc rest]
  by (simp add: HandleUDPControlMessage_def Open_sealed [OF assms(1, 2)])

lemma delivered_whole:
  assumes "nonces e" and "shares_key (sw_ascon s) (sw_ascon s')" and "wfMessage m"
  shows "HandleUDPControlMessage e' period (sealed e s (packet_wire inc m)) source s'
    = handlePacket e' period ((Pkt inc m)\<lparr>p_Source := source\<rparr>) s'"
  using delivered [OF assms, of m "[]"] by simp

subsection \<open>A probe and its answer\<close>

abbreviation probe :: "runLoop \<Rightarrow> Node \<Rightarrow> Event list \<Rightarrow> Ping" where
  "probe r v es \<equiv> \<lparr>ping_Cookie = rp_cookie (rl_period r), ping_Period = rp_id (rl_period r),
     ping_TargetIncarnation = n_Incarnation v, ping_Events = es\<rparr>"

lemma NextPing_typed:
  assumes "srv_inv s" and "NextPing ch (sw_nodes s) = (Some v, n)"
  shows "typedNode v"
  using assms nodes_ok_lookup [of "hostAddress s" "sw_nodes s"]
  by (auto simp: srv_inv_def NextPing_def Let_def split: list.splits if_splits)

lemma startPeriod_sends:
  assumes "valid_env e" and "srv_inv s" and "nonces e"
    and "NextPing (mapChoices e (sw_nodes s)) (sw_nodes s) = (Some v, n)"
  shows "\<exists>es g r1. startPeriod (server_delegate e) rnd now r s = Some (r1,
        emit (UDPOut (IP_Bytes (n_Address v)) (sealed e s (packet_wire (incarnation s) (MPing (probe r1 v es)))))
          (s\<lparr>sw_nodes := n, sw_gossip := g\<rparr>))
    \<and> gossipManager_Next (env_sort e) (rl_udpMaxLen r - 7) (sw_gossip s) = Some (es, g)
    \<and> list_all typedEvent es \<and> set es \<subseteq> First ` set (gm_queue (sw_gossip s)) \<and> gossip_ok g
    \<and> (\<Sum>ev\<leftarrow>es. int (Event_RequiredSize ev)) \<le> max 0 (rl_udpMaxLen r - 7)
    \<and> rp_id (rl_period r1) = rp_id (rl_period r) \<and> rl_adaptivePings r1 = rl_adaptivePings r"
proof -
  let ?r = "r\<lparr>rl_period := (makeCookie rnd ((rl_period r)\<lparr>rp_acked := False, rp_node := NodeHashZero\<rparr>))\<lparr>rp_node := Hash v\<rparr>\<rparr>"
  have typed: "typedNode v" using NextPing_typed [OF assms(2, 4)] .
  then have dst: "peer_address (IP_Bytes (n_Address v))" by (auto simp: typedNode_def IP_Size_def AddressKind_Size_def)
  obtain es g where g: "gossipManager_Next (env_sort e) (rl_udpMaxLen r - 7) (sw_gossip s) = Some (es, g)"
      "gossip_ok g" "list_all typedEvent es" "(\<Sum>ev\<leftarrow>es. int (Event_RequiredSize ev)) \<le> max 0 (rl_udpMaxLen r - 7)"
    using gossip_ok_Next [OF valid_env_sorts [OF assms(1)], of "sw_gossip s" "rl_udpMaxLen r - 7"] assms(2) by (auto simp: srv_inv_def)
  have sub: "set es \<subseteq> First ` set (gm_queue (sw_gossip s))"
    using Next_space [of "env_sort e" "rl_udpMaxLen r - 7" "sw_gossip s"] g(1) set_take_subset [of "length es" "CurrentGossips (sw_gossip s)"]
    by (auto simp: CurrentGossips_def)
  let ?s = "s\<lparr>sw_nodes := n, sw_gossip := g\<rparr>"
  have "server_DispatchMessage e (IP_Bytes (n_Address v)) (MPing (probe ?r v es)) ?s
      = Some (emit (UDPOut (IP_Bytes (n_Address v)) (sealed e ?s (packet_wire (incarnation ?s) (MPing (probe ?r v es))))) ?s)"
    using Dispatch_sealed [OF assms(3) _ dst, of "MPing (probe ?r v es)" ?s] g(3) by simp
  moreover have "sealed e ?s = sealed e s" by (simp add: sealed_def fun_eq_iff)
  ultimately have "startPeriod (server_delegate e) rnd now r s = Some (registerSentPing now ?r,
      emit (UDPOut (IP_Bytes (n_Address v)) (sealed e s (packet_wire (incarnation s) (MPing (probe ?r v es))))) ?s)"
    using assms(4) g(1)
    by (simp add: startPeriod_def server_delegate_def server_NextProbeSubject_def server_GossipEvents_def
        Ping_RequiredSize_def reduce_def Let_def)
  with g sub show ?thesis
    by (intro exI [of _ es] exI [of _ g] exI [of _ "registerSentPing now ?r"]) (simp add: makeCookie_def registerSentPing_def)
qed

lemma gossipAdd_frame: "gossipAdd e ev s = Some s' \<Longrightarrow> sw_effects s' = sw_effects s \<and> sw_ascon s' = sw_ascon s"
  by (auto simp: gossipAdd_def split: Option.bind_splits)

lemma loop_frame:
  "processPingEvents_loop e period evs v s = Some (v', s') \<Longrightarrow> sw_effects s' = sw_effects s \<and> sw_ascon s' = sw_ascon s"
proof (induction e period evs v s rule: processPingEvents_loop.induct)
  case (2 e period ev evs v s)
  then show ?case by (auto simp: gossipAdd_frame split: if_splits Option.bind_splits)
qed simp

lemma processPingEvents_frame:
  "processPingEvents e period evs s = Some s' \<Longrightarrow> sw_effects s' = sw_effects s"
  by (auto simp: processPingEvents_def increment_eq dest!: loop_frame gossipAdd_frame split: Option.bind_splits if_splits)

lemma wf_pingReply: "wfMessage (MPong (pingReply pkt msg s))"
proof -
  have "unat (Event_EventKind ev) < 64" for ev by (cases "ev_Payload ev") (simp_all add: Event_EventKind_def)
  then show ?thesis by (auto simp: pingReply_def Let_def split: option.split)
qed

lemma handlePing_answers:
  assumes "nonces e" and "peer_address (p_Source pkt)" and "handlePing e period pkt msg s = Some s'"
  shows "sw_effects s' = sw_effects s @ [UDPOut (p_Source pkt) (sealed e s (packet_wire (incarnation s) (MPong (pingReply pkt msg s))))]"
  using assms(3) wfMessage_typed [OF wf_pingReply, of pkt msg s]
  by (auto simp: handlePing_def Dispatch_sealed [OF assms(1) _ assms(2)] emit_def Let_def dest!: processPingEvents_frame)

lemma increment_frame:
  assumes "valid_env e" and "srv_inv s"
  shows "\<exists>s'. incrementIncarnationToSurpass e i s = Some s' \<and> indirectPingCallbacks s' = indirectPingCallbacks s
    \<and> sw_ascon s' = sw_ascon s"
  using gossipAdd_spec [OF assms(1), of "s\<lparr>incarnation := i + 1\<rparr>" "aliveAt s (i + 1)"] assms(2)
  by (auto simp: increment_eq srv_inv_def gossip_ok_def)

lemma handlePong_forwards: "handlePong e pkt msg s = Some s' \<Longrightarrow> last (sw_effects s') = LoopMessage pkt"
  by (auto simp: handlePong_def emit_def Let_def split: Option.bind_splits)

text \<open>C3: a probe of a live member is answered. When the loop of server \<open>A\<close> starts a period, it sends a datagram
  to the member whose turn it is; \<open>B\<close>, which shares the key, handles that datagram without a panic and
  its last act is to send an answer to where it came from; \<open>A\<close> handles the answer without a panic and
  passes it to its loop, which then counts the probe as acknowledged. This holds whatever events ride on
  the ping, even when their number overflows its counter.\<close>

theorem probe_answered:
  assumes "valid_env eA" and "srv_inv A" and "nonces eA" and "valid_env eB" and "srv_inv B" and "nonces eB"
    and "shares_key (sw_ascon A) (sw_ascon B)" and "shares_key (sw_ascon B) (sw_ascon A)"
    and "\<forall>item \<in> set (gm_queue (sw_gossip A)). wfEvent (First item)"
    and "NextPing (mapChoices eA (sw_nodes A)) (sw_nodes A) = (Some v, n)"
    and "peer_address addrA" and "peer_address addrB"
  shows "\<exists>r1 A1 ping B1 pong A2 pkt.
      startPeriod (server_delegate eA) rnd now r A = Some (r1, A1)
    \<and> last (sw_effects A1) = UDPOut (IP_Bytes (n_Address v)) ping
    \<and> HandleUDPControlMessage eB pB ping addrA B = Some B1
    \<and> last (sw_effects B1) = UDPOut addrA pong
    \<and> HandleUDPControlMessage eA pA pong addrB A1 = Some A2
    \<and> last (sw_effects A2) = LoopMessage pkt
    \<and> rp_acked (rl_period (handleMessage now' pkt r1))"
proof -
  obtain es g r1 where start: "startPeriod (server_delegate eA) rnd now r A = Some (r1,
        emit (UDPOut (IP_Bytes (n_Address v)) (sealed eA A (packet_wire (incarnation A) (MPing (probe r1 v es)))))
          (A\<lparr>sw_nodes := n, sw_gossip := g\<rparr>))" and es: "set es \<subseteq> First ` set (gm_queue (sw_gossip A))"
    using startPeriod_sends [OF assms(1-3, 10), of rnd now r] by blast
  let ?ping = "sealed eA A (packet_wire (incarnation A) (MPing (probe r1 v es)))"
  let ?A1 = "emit (UDPOut (IP_Bytes (n_Address v)) ?ping) (A\<lparr>sw_nodes := n, sw_gossip := g\<rparr>)"
  let ?msg = "cut_ping (probe r1 v es)"
  let ?pkt = "(Pkt (incarnation A) (MPing ?msg))\<lparr>p_Source := addrA\<rparr>"
  have wf: "list_all wfEvent es" using es assms(9) by (auto simp: list_all_iff)
  have cut: "wfMessage (MPing ?msg)" using wf_cut_ping [of "probe r1 v es"] wf by simp
  have B: "HandleUDPControlMessage eB pB ?ping addrA B = handlePing eB pB ?pkt ?msg B"
    using delivered [OF assms(3, 7) cut ping_wire_cut, of eB pB "incarnation A" addrA] by (simp add: handlePacket_def Pkt_def)
  obtain B1 where B1: "handlePing eB pB ?pkt ?msg B = Some B1"
    using handlePing_ok [OF assms(4, 5), of ?msg ?pkt pB] wfMessage_typed [OF cut] assms(11) by auto
  let ?reply = "pingReply ?pkt ?msg B"
  let ?pong = "sealed eB B (packet_wire (incarnation B) (MPong ?reply))"
  have pong: "last (sw_effects B1) = UDPOut addrA ?pong"
    using handlePing_answers [OF assms(6) _ B1] assms(11) by simp
  let ?ans = "(Pkt (incarnation B) (MPong ?reply))\<lparr>p_Source := addrB\<rparr>"
  have A2: "HandleUDPControlMessage eA pA ?pong addrB ?A1 = handlePong eA ?ans ?reply ?A1"
    using delivered_whole [OF assms(6) _ wf_pingReply, of B ?A1 eA pA "incarnation B" ?pkt ?msg B addrB] assms(8)
    by (simp add: handlePacket_def Pkt_def emit_def)
  have "srv_inv ?A1"
    using run_loop_delegate.startPeriod_total [OF server_delegate_ok [OF assms(1)] assms(2), of rnd now r] start by simp
  then obtain A2 where "handlePong eA ?ans ?reply ?A1 = Some A2" using handlePong_ok [OF assms(1)] by blast
  moreover from this have "last (sw_effects A2) = LoopMessage ?ans" by (rule handlePong_forwards)
  moreover have "rp_acked (rl_period (handleMessage now' ?ans r1))"
    by (simp add: handleMessage_period answers_def Pkt_def pingReply_def cut_ping_def Let_def)
  moreover have "last (sw_effects ?A1) = UDPOut (IP_Bytes (n_Address v)) ?ping" by (simp add: emit_def)
  ultimately show ?thesis using start B B1 pong A2 by metis
qed

subsection \<open>Two concrete servers\<close>

definition nonceEnv :: env where
  "nonceEnv = sortedEnv (\<lambda>i. Some (replicate 16 (word_of_nat i)))"

lemma nonceEnv_valid: "valid_env nonceEnv"
  by (simp add: nonceEnv_def sortedEnv_valid)

definition sealingServer :: "byte \<Rightarrow> swimServer" where
  "sealingServer b = newSwimServer (hostIP b) xorWrapper 3 2 0"

lemma nonceEnv_nonces: "nonces nonceEnv"
  by (simp add: nonces_def nonceEnv_def sortedEnv_def)

lemma sealing_inv: "srv_inv (sealingServer b)"
  by (simp add: sealingServer_def srv_inv_new)

lemma sealing_fields [simp]:
  "hostAddress (sealingServer b) = hostIP b" "sw_ascon (sealingServer b) = xorWrapper" "incarnation (sealingServer b) = 0"
  "nm_list (sw_nodes (sealingServer b)) = NewNodeList (hostIP b)" "gm_queue (sw_gossip (sealingServer b)) = []"
  by (simp_all add: sealingServer_def newSwimServer_def NewGossipManager_def NewNodeManager_def)

lemma xor_shares: "shares_key xorWrapper xorWrapper"
  by (simp add: shares_key_def xorWrapper_def comp_def xor.assoc)

text \<open>The server once it has merged a list that names one other member.\<close>

definition introduced :: "byte \<Rightarrow> byte \<Rightarrow> swimServer" where
  "introduced a b = server_HandleIncomingNodeList nonceEnv 1 [host False 0 b] (sealingServer a)"

lemma introduced_list:
  "a \<noteq> b \<Longrightarrow> nm_list (sw_nodes (introduced a b)) = \<lparr>nodeByType = [hostHash b \<mapsto> NodeTypeStable],
     stable = [hostHash b \<mapsto> host False 0 b], suspects = Map.empty, selfAddr = hostIP a\<rparr>"
  using Hash_host [of False 0 b]
  by (simp add: introduced_def server_HandleIncomingNodeList_def nodeManager_Bootstrap_def Bootstrap_def unsafeAdd_def NewNodeList_def Let_def)

lemma introduced_inv: "srv_inv (introduced a b)"
  using IncomingNodeList_ok [OF nonceEnv_valid sealing_inv] by (simp add: introduced_def typedNode_def)

lemma introduced_fields [simp]:
  "hostAddress (introduced a b) = hostIP a" "sw_ascon (introduced a b) = xorWrapper"
  "sw_gossip (introduced a b) = sw_gossip (sealingServer a)" "incarnation (introduced a b) = 0"
  by (simp_all add: introduced_def) (simp_all add: server_HandleIncomingNodeList_def Let_def)

lemma introduced_ping:
  assumes "a \<noteq> b"
  shows "nodesToPing (sw_nodes (introduced a b)) = [hostHash b]"
proof -
  let ?l = "nm_list (sw_nodes (introduced a b))"
  let ?n = "(sw_nodes (sealingServer a))\<lparr>nm_list := ?l\<rparr>"
  have l: "Bootstrap 1 [host False 0 b] (NewNodeList (hostIP a)) = ?l"
    by (simp add: introduced_def server_HandleIncomingNodeList_def nodeManager_Bootstrap_def)
  have "nl_inv ?l" using introduced_inv [of a b] nodes_ok_inv by (auto simp: srv_inv_def)
  with prepare_spec(2) [of ?n "mapChoices nonceEnv ?n"] valid_env_choices [OF nonceEnv_valid, of ?n]
  have "enumerates (nodesToPing (unsafePreparePingList (mapChoices nonceEnv ?n) ?n)) (members ?l)" by simp
  moreover have "dom (members ?l) = {hostHash b}" by (auto simp: introduced_list [OF assms] members_def split: if_splits)
  moreover have "sw_nodes (introduced a b) = unsafePreparePingList (mapChoices nonceEnv ?n) ?n"
    using l by (simp add: introduced_def server_HandleIncomingNodeList_def nodeManager_Bootstrap_def)
  ultimately have "distinct (nodesToPing (sw_nodes (introduced a b)))" "set (nodesToPing (sw_nodes (introduced a b))) = {hostHash b}"
    by simp_all
  then show ?thesis by (metis distinct_card card_1_singleton_iff length_0_conv length_Suc_conv list.set(1) list.simps(15) singleton_insert_inj_eq' One_nat_def empty_set)
qed

lemma introduced_next:
  "\<exists>n. NextPing (mapChoices nonceEnv (sw_nodes (introduced 1 2))) (sw_nodes (introduced 1 2)) = (Some (host False 0 2), n)"
proof -
  let ?A = "introduced 1 2"
  have "fst (NextPing (mapChoices nonceEnv (sw_nodes ?A)) (sw_nodes ?A)) = Some (host False 0 2)"
    by (simp add: NextPing_def introduced_ping introduced_list NodeByHash_def)
  then show ?thesis by (metis prod.collapse)
qed

theorem probe_answered_witness:
  "\<exists>r1 A1 ping B1 pong A2 pkt.
      startPeriod (server_delegate nonceEnv) 7 0 (NewRunLoop 1000 1400 False 0) (introduced 1 2) = Some (r1, A1)
    \<and> last (sw_effects A1) = UDPOut (IP_Bytes (hostIP 2)) ping
    \<and> HandleUDPControlMessage nonceEnv 9 ping [10, 0, 0, 1] (sealingServer 2) = Some B1
    \<and> last (sw_effects B1) = UDPOut [10, 0, 0, 1] pong
    \<and> HandleUDPControlMessage nonceEnv 1 pong [10, 0, 0, 2] A1 = Some A2
    \<and> last (sw_effects A2) = LoopMessage pkt
    \<and> rp_acked (rl_period (handleMessage 20 pkt r1))"
proof -
  obtain n where n: "NextPing (mapChoices nonceEnv (sw_nodes (introduced 1 2))) (sw_nodes (introduced 1 2)) = (Some (host False 0 2), n)"
    using introduced_next by blast
  from probe_answered [OF nonceEnv_valid introduced_inv nonceEnv_nonces nonceEnv_valid sealing_inv nonceEnv_nonces _ _ _ n,
      of 2 "[10, 0, 0, 1]" "[10, 0, 0, 2]" 7 0 "NewRunLoop 1000 1400 False 0" 9 1 20]
  show ?thesis using xor_shares by simp
qed

text \<open>The size of a probe. The datagram that starts a period, before it is sealed, has at most five bytes
  more than the limit the loop was given (or the twelve bytes of an empty ping): the gossip is
  fitted to the limit without the header of the packet.\<close>

lemma probe_size:
  assumes "valid_env e" and "srv_inv s" and "nonces e"
    and "NextPing (mapChoices e (sw_nodes s)) (sw_nodes s) = (Some v, n)"
  shows "\<exists>r1 s1 data. startPeriod (server_delegate e) rnd now r s = Some (r1, s1)
    \<and> sw_effects s1 = sw_effects s @ [UDPOut (IP_Bytes (n_Address v)) (sealed e s data)]
    \<and> int (length data) \<le> max 7 (rl_udpMaxLen r) + 5"
proof -
  obtain es g r1 where start: "startPeriod (server_delegate e) rnd now r s = Some (r1,
        emit (UDPOut (IP_Bytes (n_Address v)) (sealed e s (packet_wire (incarnation s) (MPing (probe r1 v es)))))
          (s\<lparr>sw_nodes := n, sw_gossip := g\<rparr>))" "list_all typedEvent es"
      "(\<Sum>ev\<leftarrow>es. int (Event_RequiredSize ev)) \<le> max 0 (rl_udpMaxLen r - 7)"
    using startPeriod_sends [OF assms, of rnd now r] by blast
  have "int (sum_list (map Event_RequiredSize es)) = (\<Sum>ev\<leftarrow>es. int (Event_RequiredSize ev))"
    by (induction es) simp_all
  then have "int (length (packet_wire (incarnation s) (MPing (probe r1 v es)))) = 12 + (\<Sum>ev\<leftarrow>es. int (Event_RequiredSize ev))"
    using packet_wire_length [of "MPing (probe r1 v es)" "incarnation s"] start(2) by (simp add: Ping_RequiredSize_def reduce_sum)
  with start show ?thesis by (auto simp: emit_def)
qed

lemma probe_size_witness:
  "\<exists>r1 s1 data. startPeriod (server_delegate nonceEnv) 7 0 (NewRunLoop 1000 512 False 0) (introduced 1 2) = Some (r1, s1)
    \<and> sw_effects s1 = sw_effects (introduced 1 2) @ [UDPOut (IP_Bytes (hostIP 2)) (sealed nonceEnv (introduced 1 2) data)]
    \<and> length data \<le> 517"
proof -
  obtain n where n: "NextPing (mapChoices nonceEnv (sw_nodes (introduced 1 2))) (sw_nodes (introduced 1 2)) = (Some (host False 0 2), n)"
    using introduced_next by blast
  from probe_size [OF nonceEnv_valid introduced_inv nonceEnv_nonces n, of 7 0 "NewRunLoop 1000 512 False 0"] show ?thesis
    by (auto simp: NewRunLoop_def)
qed

subsection \<open>Indirect probes\<close>

lemma Dispatch_success:
  assumes "nonces e" and "typedMessage m" and "server_DispatchMessage e dst m s = Some s'"
  shows "s' = emit (UDPOut dst (sealed e s (packet_wire (incarnation s) m))) s"
  using assms(2, 3) by (auto simp: server_DispatchMessage_def EncPkt_wire Seal_sealed [OF assms(1)] split: Option.bind_splits)

lemma dispatchAll_sends:
  assumes "nonces e" and "typedMessage m" and "dispatchAll (server_delegate e) vs m s = Some s'"
  shows "sw_ascon s' = sw_ascon s \<and> set (sw_effects s) \<subseteq> set (sw_effects s') \<and> (Some c \<in> set vs \<longrightarrow>
    (\<exists>sA. sw_ascon sA = sw_ascon s \<and> UDPOut (IP_Bytes (n_Address c)) (sealed e sA (packet_wire (incarnation s) m)) \<in> set (sw_effects s')))"
  using assms(3)
proof (induction vs arbitrary: s)
  case (Cons v vs)
  then obtain w where v: "v = Some w" by (cases v) simp_all
  let ?s1 = "emit (UDPOut (IP_Bytes (n_Address w)) (sealed e s (packet_wire (incarnation s) m))) s"
  have "dispatchAll (server_delegate e) vs m ?s1 = Some s'"
    using Cons.prems v by (auto simp: server_delegate_def dest!: Dispatch_success [OF assms(1, 2)] split: Option.bind_splits)
  from Cons.IH [OF this] v show ?case by (auto simp: emit_def)
qed simp

text \<open>The five datagrams of an indirect probe, one lemma each: the request of the prober \<open>A\<close>, the ping of the relay \<open>C\<close>, the pong of
  the probed member, the answer of the relay, and what \<open>A\<close> makes of it.\<close>

abbreviation request :: "runLoop \<Rightarrow> Node \<Rightarrow> IndirectPing" where
  "request r node \<equiv> \<lparr>iping_Cookie = rp_cookie (rl_period r), iping_Period = rp_id (rl_period r), iping_Address = n_Address node\<rparr>"

abbreviation relayPing :: "nat \<Rightarrow> u16 \<Rightarrow> Ping" where
  "relayPing rnd period \<equiv> \<lparr>ping_Cookie = word_of_nat rnd, ping_Period = period, ping_TargetIncarnation = 0, ping_Events = []\<rparr>"

lemma pingIndirect_asks:
  assumes "valid_env e" and "srv_inv A" and "nonces e" and "\<not> rp_acked (rl_period r)"
    and "NodeByHash (rp_node (rl_period r)) (nm_list (sw_nodes A)) = Some node"
    and "server_IndirectPingMembers e (rp_node (rl_period r)) A = Some indirect" and "Some c \<in> set indirect"
    and "wfIP (n_Address node)"
  shows "\<exists>r1 A1 A0. pingIndirect (server_delegate e) r A = Some (r1, A1) \<and> rl_period r1 = rl_period r
    \<and> sw_ascon A1 = sw_ascon A \<and> sw_ascon A0 = sw_ascon A
    \<and> UDPOut (IP_Bytes (n_Address c)) (sealed e A0 (packet_wire (incarnation A) (MIndirectPing (request r node)))) \<in> set (sw_effects A1)"
proof -
  let ?m = "MIndirectPing (request r node)"
  obtain r1 A1 where A1: "pingIndirect (server_delegate e) r A = Some (r1, A1)"
    using run_loop_delegate.pingIndirect_total [OF server_delegate_ok [OF assms(1)] assms(2), of r] by blast
  then have "dispatchAll (server_delegate e) indirect ?m A = Some A1"
    using assms(4-7) by (auto simp: pingIndirect_def server_delegate_def Let_def split: if_splits Option.bind_splits)
  from dispatchAll_sends [OF assms(3) _ this, of c] assms(7, 8) wfMessage_typed [of ?m] pingIndirect_period [OF A1] A1
  show ?thesis by auto
qed

lemma performIndirectPing_sends:
  assumes "nonces e" and "typedIP (iping_Address msg)"
  shows "\<exists>C0 C1. performIndirectPing e rnd period msg pkt C = Some C1 \<and> sw_ascon C0 = sw_ascon C \<and> sw_ascon C1 = sw_ascon C
    \<and> sw_effects C1 = sw_effects C @ [UDPOut (IP_Bytes (iping_Address msg)) (sealed e C0 (packet_wire (incarnation C) (MPing (relayPing rnd period)))),
        ExpireCallback (periodTag (word_of_nat rnd) period)]
    \<and> indirectPingCallbacks C1 (periodTag (word_of_nat rnd) period) = Some (p_Source pkt, iping_Cookie msg, iping_Period msg)"
proof -
  let ?C0 = "C\<lparr>indirectPingCallbacks := (indirectPingCallbacks C)(periodTag (word_of_nat rnd) period \<mapsto> (p_Source pkt, iping_Cookie msg, iping_Period msg))\<rparr>"
  have dst: "peer_address (IP_Bytes (iping_Address msg))" using assms(2) by (auto simp: IP_Size_def AddressKind_Size_def)
  have "typedMessage (MPing (relayPing rnd period))" by simp
  from Dispatch_sealed [OF assms(1) this dst, of ?C0]
  have "performIndirectPing e rnd period msg pkt C = Some (emit (ExpireCallback (periodTag (word_of_nat rnd) period))
      (emit (UDPOut (IP_Bytes (iping_Address msg)) (sealed e ?C0 (packet_wire (incarnation C) (MPing (relayPing rnd period))))) ?C0))" (is "_ = Some ?C1")
    by (simp add: performIndirectPing_def Let_def)
  then show ?thesis by (intro exI [of _ ?C0] exI [of _ ?C1]) (simp add: emit_def)
qed

lemma handlePong_relays:
  assumes "valid_env e" and "srv_inv C" and "nonces e"
    and "indirectPingCallbacks C (periodTag (pong_Cookie msg) (pong_Period msg)) = Some (source, cookie, period)" and "peer_address source"
  shows "\<exists>C0 C1 inc. handlePong e pkt msg C = Some C1 \<and> sw_ascon C0 = sw_ascon C
    \<and> indirectPingCallbacks C1 (periodTag (pong_Cookie msg) (pong_Period msg)) = None
    \<and> (\<exists>before. sw_effects C1 = before @ [UDPOut source (sealed e C0 (packet_wire inc (MIndirectPong \<lparr>ipong_Cookie = cookie, ipong_Period = period\<rparr>))),
        LoopMessage pkt])"
proof -
  let ?tag = "periodTag (pong_Cookie msg) (pong_Period msg)"
  let ?ans = "MIndirectPong \<lparr>ipong_Cookie = cookie, ipong_Period = period\<rparr>"
  obtain D where D: "(if pongOutdated msg C then incrementIncarnationToSurpass e (pong_LastKnownIncarnation msg) C else Some C) = Some D"
      "indirectPingCallbacks D = indirectPingCallbacks C" "sw_ascon D = sw_ascon C"
    using increment_frame [OF assms(1, 2), of "pong_LastKnownIncarnation msg"] by (cases "pongOutdated msg C") auto
  let ?D = "D\<lparr>indirectPingCallbacks := (indirectPingCallbacks D)(?tag := None)\<rparr>"
  have "handlePong e pkt msg C = Some (emit (LoopMessage pkt) (emit (UDPOut source (sealed e ?D (packet_wire (incarnation ?D) ?ans))) ?D))" (is "_ = Some ?C1")
    unfolding handlePong_def D(1) using Dispatch_sealed [OF assms(3) _ assms(5), of ?ans ?D] assms(4) D(2) by (simp add: Let_def)
  with D(3) show ?thesis by (intro exI [of _ ?D] exI [of _ ?C1] exI [of _ "incarnation ?D"]) (simp add: emit_def)
qed

lemma ping_gets_pong:
  assumes "valid_env eB" and "srv_inv B" and "nonces eB" and "nonces eC" and "shares_key (sw_ascon C0) (sw_ascon B)" and "peer_address source"
    and "wfMessage (MPing msg)"
  shows "\<exists>B1 pkt. HandleUDPControlMessage eB pB (sealed eC C0 (packet_wire inc (MPing msg))) source B = Some B1
    \<and> last (sw_effects B1) = UDPOut source (sealed eB B (packet_wire (incarnation B) (MPong (pingReply pkt msg B))))"
proof -
  let ?pkt = "(Pkt inc (MPing msg))\<lparr>p_Source := source\<rparr>"
  obtain B1 where B1: "handlePing eB pB ?pkt msg B = Some B1"
    using handlePing_ok [OF assms(1, 2), of msg ?pkt pB] wfMessage_typed [OF assms(7)] assms(6) by auto
  have "HandleUDPControlMessage eB pB (sealed eC C0 (packet_wire inc (MPing msg))) source B = handlePing eB pB ?pkt msg B"
    using delivered_whole [OF assms(4, 5, 7)] by (simp add: handlePacket_def Pkt_def)
  with B1 handlePing_answers [OF assms(3) _ B1] assms(6) show ?thesis by (intro exI [of _ B1] exI [of _ ?pkt]) simp
qed

text \<open>C22: an indirect probe is relayed, from end to end. When the ping timeout of a period fires at server \<open>A\<close>, \<open>A\<close> sends a
  request to every candidate \<open>c\<close>. The server \<open>C\<close> behind that address handles the request and starts the goroutine of an indirect
  ping, which sends a ping to the member \<open>A\<close> is probing. That member \<open>B\<close> handles this very datagram and answers it; \<open>C\<close> handles the bytes of that answer, forgets
  the request, and sends an answer to \<open>A\<close>; \<open>A\<close> handles its bytes and passes them to its loop, where they acknowledge the probe. No step panics.
  The three share a key, and the addresses are those the datagrams come from.\<close>

theorem indirect_probe_relayed:
  assumes "valid_env eA" and "srv_inv A" and "nonces eA" and "valid_env eB" and "srv_inv B" and "nonces eB"
    and "valid_env eC" and "srv_inv C" and "nonces eC"
    and "shares_key (sw_ascon A) (sw_ascon C)" and "shares_key (sw_ascon C) (sw_ascon B)"
    and "shares_key (sw_ascon B) (sw_ascon C)" and "shares_key (sw_ascon C) (sw_ascon A)"
    and "peer_address addrA" and "peer_address addrB" and "peer_address addrC"
    and "\<not> rp_acked (rl_period r)" and "NodeByHash (rp_node (rl_period r)) (nm_list (sw_nodes A)) = Some node" and "wfIP (n_Address node)"
    and "server_IndirectPingMembers eA (rp_node (rl_period r)) A = Some indirect" and "Some c \<in> set indirect"
  shows "\<exists>r1 A1 asked msg pkt C1 before1 ping tag B1 pong C2 before2 answer pkt2 A2 relayed.
      pingIndirect (server_delegate eA) r A = Some (r1, A1)
    \<and> UDPOut (IP_Bytes (n_Address c)) asked \<in> set (sw_effects A1)
    \<and> HandleUDPControlMessage eC pC asked addrA C = Some (emit (GoIndirectPing msg pkt) C)
    \<and> performIndirectPing eC rnd pC msg pkt (emit (GoIndirectPing msg pkt) C) = Some C1
    \<and> sw_effects C1 = before1 @ [UDPOut (IP_Bytes (n_Address node)) ping, ExpireCallback tag]
    \<and> HandleUDPControlMessage eB pB ping addrC B = Some B1
    \<and> last (sw_effects B1) = UDPOut addrC pong
    \<and> HandleUDPControlMessage eC pC' pong addrB C1 = Some C2 \<and> indirectPingCallbacks C2 tag = None
    \<and> sw_effects C2 = before2 @ [UDPOut addrA answer, LoopMessage pkt2]
    \<and> HandleUDPControlMessage eA pA answer addrC A1 = Some A2 \<and> last (sw_effects A2) = LoopMessage relayed
    \<and> rp_acked (rl_period (handleMessage now relayed r1))"
proof -
  let ?msg = "request r node" and ?tag = "periodTag (word_of_nat rnd) pC"
  let ?pkt = "(Pkt (incarnation A) (MIndirectPing ?msg))\<lparr>p_Source := addrA\<rparr>"
  let ?C = "emit (GoIndirectPing ?msg ?pkt) C"
  have wf: "wfMessage (MIndirectPing ?msg)" using assms(19) by simp
  obtain r1 A1 A0 where A1: "pingIndirect (server_delegate eA) r A = Some (r1, A1)" "rl_period r1 = rl_period r" "sw_ascon A1 = sw_ascon A"
      "sw_ascon A0 = sw_ascon A" "UDPOut (IP_Bytes (n_Address c)) (sealed eA A0 (packet_wire (incarnation A) (MIndirectPing ?msg))) \<in> set (sw_effects A1)"
    using pingIndirect_asks [OF assms(1-3, 17, 18, 20, 21, 19)] by blast
  have asked: "HandleUDPControlMessage eC pC (sealed eA A0 (packet_wire (incarnation A) (MIndirectPing ?msg))) addrA C = Some ?C"
    using delivered_whole [OF assms(3) _ wf, of A0 C] A1(4) assms(10) by (simp add: handlePacket_def Pkt_def)
  have typed: "typedIP (iping_Address ?msg)" using assms(19) by (simp add: wfIP_def)
  obtain C0 C1 where C1: "performIndirectPing eC rnd pC ?msg ?pkt ?C = Some C1" "sw_ascon C0 = sw_ascon C" "sw_ascon C1 = sw_ascon C"
      "sw_effects C1 = sw_effects ?C @ [UDPOut (IP_Bytes (n_Address node)) (sealed eC C0 (packet_wire (incarnation C) (MPing (relayPing rnd pC)))), ExpireCallback ?tag]"
      "indirectPingCallbacks C1 ?tag = Some (addrA, rp_cookie (rl_period r), rp_id (rl_period r))"
    using performIndirectPing_sends [OF assms(9) typed, of rnd pC ?pkt ?C] by (auto simp: emit_def)
  have inv: "srv_inv C1" using performIndirectPing_ok [of ?C ?msg ?pkt eC rnd pC] assms(8, 14) typed C1(1) by simp
  obtain B1 pk where B1: "HandleUDPControlMessage eB pB (sealed eC C0 (packet_wire (incarnation C) (MPing (relayPing rnd pC)))) addrC B = Some B1"
      "last (sw_effects B1) = UDPOut addrC (sealed eB B (packet_wire (incarnation B) (MPong (pingReply pk (relayPing rnd pC) B))))"
    using ping_gets_pong [OF assms(4-6, 9) _ assms(16), of C0 "relayPing rnd pC" pB "incarnation C"] C1(2) assms(11) by auto
  let ?reply = "pingReply pk (relayPing rnd pC) B"
  let ?pkt2 = "(Pkt (incarnation B) (MPong ?reply))\<lparr>p_Source := addrB\<rparr>"
  have tag: "periodTag (pong_Cookie ?reply) (pong_Period ?reply) = ?tag" by (simp add: pingReply_def Let_def)
  have pong: "HandleUDPControlMessage eC pC' (sealed eB B (packet_wire (incarnation B) (MPong ?reply))) addrB C1 = handlePong eC ?pkt2 ?reply C1"
    using delivered_whole [OF assms(6) _ wf_pingReply, of B C1] C1(3) assms(12) by (simp add: handlePacket_def Pkt_def)
  let ?ans = "MIndirectPong \<lparr>ipong_Cookie = rp_cookie (rl_period r), ipong_Period = rp_id (rl_period r)\<rparr>"
  obtain D C2 inc before where C2: "handlePong eC ?pkt2 ?reply C1 = Some C2" "sw_ascon D = sw_ascon C1" "indirectPingCallbacks C2 ?tag = None"
      "sw_effects C2 = before @ [UDPOut addrA (sealed eC D (packet_wire inc ?ans)), LoopMessage ?pkt2]"
    using handlePong_relays [OF assms(7) inv assms(9) _ assms(14), of ?reply "rp_cookie (rl_period r)" "rp_id (rl_period r)" ?pkt2] C1(5)
    unfolding tag by blast
  let ?relayed = "(Pkt inc ?ans)\<lparr>p_Source := addrC\<rparr>"
  have "HandleUDPControlMessage eA pA (sealed eC D (packet_wire inc ?ans)) addrC A1 = Some (emit (LoopMessage ?relayed) A1)"
    using delivered_whole [OF assms(9), of D A1 ?ans] C2(2) C1(3) A1(3) assms(13) by (simp add: handlePacket_def Pkt_def)
  moreover have "last (sw_effects (emit (LoopMessage ?relayed) A1)) = LoopMessage ?relayed" by (simp add: emit_def)
  moreover have "rp_acked (rl_period (handleMessage now ?relayed r1))"
    using A1(2) by (simp add: handleMessage_period answers_def Pkt_def)
  ultimately show ?thesis
    using A1(1, 5) asked C1(1, 4) B1 pong C2(1, 3, 4) by metis
qed

lemma wf_host: "wfNode (host s i b)"
  by (simp add: wfNode_def wfIP_def typedIP_def numeral_eq_Suc)

text \<open>A server that knows two others and is probing the first of them.\<close>

definition prober :: swimServer where
  "prober = server_HandleIncomingNodeList nonceEnv 1 [host False 0 2, host False 0 3] (sealingServer 1)"

definition proberLoop :: runLoop where
  "proberLoop = (let r = NewRunLoop 1000 1400 False 0 in r\<lparr>rl_period := (rl_period r)\<lparr>rp_node := hostHash 2, rp_cookie := 9\<rparr>\<rparr>)"

lemma prober_list:
  "nm_list (sw_nodes prober) = \<lparr>nodeByType = [hostHash 2 \<mapsto> NodeTypeStable, hostHash 3 \<mapsto> NodeTypeStable],
     stable = [hostHash 2 \<mapsto> host False 0 2, hostHash 3 \<mapsto> host False 0 3], suspects = Map.empty, selfAddr = hostIP 1\<rparr>"
  using Hash_host [of False 0 2] Hash_host [of False 0 3]
  by (simp add: prober_def server_HandleIncomingNodeList_def nodeManager_Bootstrap_def Bootstrap_def unsafeAdd_def NewNodeList_def Let_def)

lemma prober_inv: "srv_inv prober"
  using IncomingNodeList_ok [OF nonceEnv_valid sealing_inv] by (simp add: prober_def typedNode_def)

lemma distinct_singleton: "distinct ys \<Longrightarrow> set ys = {a} \<Longrightarrow> ys = [a]"
proof (cases ys)
  case (Cons y zs)
  assume "distinct ys" and "set ys = {a}"
  with Cons show ?thesis by (cases zs) auto
qed simp

lemma filter_other: "set xs = {a, b} \<Longrightarrow> a \<noteq> b \<Longrightarrow> distinct xs \<Longrightarrow> filter (\<lambda>h. h \<noteq> b) xs = [a]"
  by (rule distinct_singleton) auto

lemma prober_asks: "\<exists>indirect. server_IndirectPingMembers nonceEnv (hostHash 2) prober = Some indirect \<and> Some (host False 0 3) \<in> set indirect"
proof -
  let ?l = "nm_list (sw_nodes prober)"
  have "opt_IndirectPings prober = 2" by (simp add: prober_def server_HandleIncomingNodeList_def sealingServer_def newSwimServer_def)
  moreover have "nl_inv ?l" using prober_inv nodes_ok_inv by (auto simp: srv_inv_def)
  moreover have ord: "set (env_all nonceEnv ?l) = dom (nodeByType ?l)" "distinct (env_all nonceEnv ?l)"
    using nonceEnv_valid \<open>nl_inv ?l\<close> by (auto simp: valid_env_def)
  ultimately obtain vs where vs: "server_IndirectPingMembers nonceEnv (hostHash 2) prober = Some (map Some vs)"
      "map Hash vs = take 2 (filter (\<lambda>h. h \<noteq> hostHash 2) (env_all nonceEnv ?l))" "\<forall>v \<in> set vs. NodeByHash (Hash v) ?l = Some v"
    using IndirectPingCandidates_result [of ?l "env_all nonceEnv ?l" 2 "hostHash 2"] by (auto simp: server_IndirectPingMembers_def)
  have "dom (nodeByType ?l) = {hostHash 3, hostHash 2}" "hostHash 3 \<noteq> hostHash 2" by (simp_all add: prober_list)
  from filter_other [OF ord(1) [unfolded this(1)] this(2) ord(2)]
  have "map Hash vs = [hostHash 3]" using vs(2) by simp
  then obtain v where "v \<in> set vs" "Hash v = hostHash 3" by auto
  moreover from this vs(3) have "v = host False 0 3" by (auto simp: NodeByHash_def prober_list)
  ultimately show ?thesis using vs(1) by auto
qed

theorem indirect_probe_relayed_witness:
  "\<exists>r1 A1 asked msg pkt C1 before1 ping tag B1 pong C2 before2 answer pkt2 A2 relayed.
      pingIndirect (server_delegate nonceEnv) proberLoop prober = Some (r1, A1)
    \<and> UDPOut (IP_Bytes (hostIP 3)) asked \<in> set (sw_effects A1)
    \<and> HandleUDPControlMessage nonceEnv 4 asked [10, 0, 0, 1] (sealingServer 3) = Some (emit (GoIndirectPing msg pkt) (sealingServer 3))
    \<and> performIndirectPing nonceEnv 77 4 msg pkt (emit (GoIndirectPing msg pkt) (sealingServer 3)) = Some C1
    \<and> sw_effects C1 = before1 @ [UDPOut (IP_Bytes (hostIP 2)) ping, ExpireCallback tag]
    \<and> HandleUDPControlMessage nonceEnv 8 ping [10, 0, 0, 3] (sealingServer 2) = Some B1
    \<and> last (sw_effects B1) = UDPOut [10, 0, 0, 3] pong
    \<and> HandleUDPControlMessage nonceEnv 5 pong [10, 0, 0, 2] C1 = Some C2 \<and> indirectPingCallbacks C2 tag = None
    \<and> sw_effects C2 = before2 @ [UDPOut [10, 0, 0, 1] answer, LoopMessage pkt2]
    \<and> HandleUDPControlMessage nonceEnv 1 answer [10, 0, 0, 3] A1 = Some A2 \<and> last (sw_effects A2) = LoopMessage relayed
    \<and> rp_acked (rl_period (handleMessage 20 relayed r1))"
proof -
  obtain indirect where ind: "server_IndirectPingMembers nonceEnv (rp_node (rl_period proberLoop)) prober = Some indirect" "Some (host False 0 3) \<in> set indirect"
    using prober_asks by (auto simp: proberLoop_def Let_def)
  have node: "NodeByHash (rp_node (rl_period proberLoop)) (nm_list (sw_nodes prober)) = Some (host False 0 2)"
    by (simp add: proberLoop_def Let_def NodeByHash_def prober_list)
  have "sw_ascon prober = xorWrapper" "\<not> rp_acked (rl_period proberLoop)" "wfIP (n_Address (host False 0 2))"
    using wf_host [of False 0 2] by (simp_all add: prober_def server_HandleIncomingNodeList_def proberLoop_def NewRunLoop_def wfNode_def Let_def)
  with indirect_probe_relayed [OF nonceEnv_valid prober_inv nonceEnv_nonces nonceEnv_valid sealing_inv nonceEnv_nonces nonceEnv_valid sealing_inv nonceEnv_nonces
      _ _ _ _ _ _ _ _ node _ ind, of 3 2 "[10, 0, 0, 1]" "[10, 0, 0, 2]" "[10, 0, 0, 3]" 4 77 8 5 1 20] xor_shares
  show ?thesis by simp
qed

subsection \<open>Full synchronisation\<close>

lemma Encode_sealed:
  assumes "nonces e" and "typedMessage m"
  shows "server_EncodeTCPPacket e m s = Some (Inr \<lparr>t_Magic = protocolMagic, t_Version = protocolVersion,
    t_Payload = sealed e s (packet_wire (incarnation s) m)\<rparr>)"
  using assms by (simp add: server_EncodeTCPPacket_def EncTCPPkt_def EncPkt_wire Seal_sealed)

lemma Decode_sealed:
  assumes "nonces e" and "shares_key (sw_ascon s) (sw_ascon s')" and "wfMessage m"
  shows "server_DecodeTCPPacket \<lparr>t_Magic = x, t_Version = y, t_Payload = sealed e s (packet_wire inc m)\<rparr> source s'
    = Some (Inr (Some ((Pkt inc m)\<lparr>p_Source := source\<rparr>)))"
  using ParsePacket_wire [OF assms(3), of inc "[]"]
  by (simp add: server_DecodeTCPPacket_def Open_sealed [OF assms(1, 2)])

lemma m_add_dom: "dom m \<subseteq> dom (m_add self p v m)"
  by (auto simp: m_add_def)

lemma fold_m_add_dom: "dom m \<subseteq> dom (fold (m_add self p) vs m)"
  by (induction vs arbitrary: m) (simp, metis fold_simps(2) m_add_dom subset_trans)

lemma fold_m_add_learns:
  "v \<in> set vs \<Longrightarrow> n_Address v \<noteq> self \<Longrightarrow> Hash v \<in> dom (fold (m_add self p) vs m)"
proof (induction vs arbitrary: m)
  case (Cons w vs)
  show ?case
  proof (cases "v = w")
    case True
    with Cons.prems have "Hash v \<in> dom (m_add self p w m)" by (auto simp: m_add_def)
    with fold_m_add_dom [of "m_add self p w m" self p vs] show ?thesis by (simp add: subset_iff)
  qed (use Cons in auto)
qed simp

text \<open>What a server learns from another's list: the other server and every member stable there.\<close>

definition learned :: "swimServer \<Rightarrow> swimServer \<Rightarrow> bool" where
  "learned s s' \<longleftrightarrow> (hostAddress s \<noteq> hostAddress s' \<longrightarrow> IntoHash (hostAddress s) \<in> dom (members (nm_list (sw_nodes s'))))
     \<and> (\<forall>h v. stable (nm_list (sw_nodes s)) h = Some v \<and> n_Address v \<noteq> hostAddress s'
          \<longrightarrow> h \<in> dom (members (nm_list (sw_nodes s'))))"

lemma incoming_fields [simp]:
  "hostAddress (server_HandleIncomingNodeList e p vs s) = hostAddress s"
  "sw_ascon (server_HandleIncomingNodeList e p vs s) = sw_ascon s"
  by (simp_all add: server_HandleIncomingNodeList_def Let_def)

lemma incoming_learned:
  assumes "valid_env e" and "srv_inv s" and "srv_inv s'"
  shows "learned s (server_HandleIncomingNodeList e' p (server_AllKnownNodes e s) s')"
proof -
  let ?l = "nm_list (sw_nodes s)" and ?vs = "server_AllKnownNodes e s"
  have inv: "nl_inv ?l" using assms(2) nodes_ok_inv by (auto simp: srv_inv_def)
  have hash: "Hash v = h" if "stable ?l h = Some v" for h v using hash_filed(1) [OF inv that] .
  have "set (env_stable e ?l) = dom (stable ?l)" using assms(1) inv by (simp add: valid_env_def)
  then have stable: "v \<in> set ?vs" if "stable ?l h = Some v" for h v
    using that by (auto simp: AllKnownNodes_eq set_map_filter_eq)
  note learn = fold_m_add_learns [where vs = ?vs and self = "hostAddress s'" and p = p and m = "members (nm_list (sw_nodes s'))"]
  let ?self = "\<lparr>n_Suspect = False, n_Incarnation = incarnation s, n_Address = hostAddress s\<rparr>"
  have "?self \<in> set ?vs" by (simp add: AllKnownNodes_eq)
  from learn [OF this] have "hostAddress s \<noteq> hostAddress s' \<Longrightarrow> IntoHash (hostAddress s)
      \<in> dom (fold (m_add (hostAddress s') p) ?vs (members (nm_list (sw_nodes s'))))" by (simp add: Hash_def)
  moreover have "h \<in> dom (fold (m_add (hostAddress s') p) ?vs (members (nm_list (sw_nodes s'))))"
    if "stable ?l h = Some v" "n_Address v \<noteq> hostAddress s'" for h v
    using learn [OF stable [OF that(1)] that(2)] hash [OF that(1)] by simp
  ultimately show ?thesis
    unfolding learned_def IncomingNodeList_members [OF assms(3)] incoming_fields by blast
qed

text \<open>C5: a full synchronisation spreads the membership both ways. Server \<open>A\<close> sends its list to \<open>B\<close>, \<open>B\<close>
  merges it and answers with its own, and \<open>A\<close>, whatever it has done since, merges the answer: no
  step fails, and each then lists the other and every member that was stable at the other. The lists
  have protocol addresses and at most 255 entries, what their one-byte count can hold.\<close>

theorem full_sync_spreads_members:
  assumes "valid_env eA" and "srv_inv A" and "nonces eA" and "valid_env eB" and "srv_inv B" and "nonces eB"
    and "shares_key (sw_ascon A) (sw_ascon B)" and "shares_key (sw_ascon B) (sw_ascon A)"
    and "wfMessage (MSync \<lparr>sync_Nodes = server_AllKnownNodes eA A, sync_Mode = SyncModeFirstPhase\<rparr>)"
    and "wfMessage (MSync \<lparr>sync_Nodes = server_AllKnownNodes eB
        (server_HandleIncomingNodeList eB pB (server_AllKnownNodes eA A) B), sync_Mode = SyncModeSecondPhase\<rparr>)"
    and "srv_inv A'" and "hostAddress A' = hostAddress A" and "sw_ascon A' = sw_ascon A"
  shows "\<exists>req sync B1 resp A1.
      PerformSync_request (sync_server eA pA) True True A = Some ([ClientWrite req], True)
    \<and> HandleTCPPacket eB pB addrA req m B = Some ([], m, emit (GoSyncRequest sync addrA) B)
    \<and> HandleSyncRequest (sync_server eB pB) sync (emit (GoSyncRequest sync addrA) B) = Some ([ClientWrite resp, ClientClose], B1)
    \<and> PerformSync_response (sync_server eA pA) addrB (ReplyPacket resp) A' = Some ([ClientClose], A1)
    \<and> learned A B1 \<and> learned B1 A1"
proof -
  let ?first = "\<lparr>sync_Nodes = server_AllKnownNodes eA A, sync_Mode = SyncModeFirstPhase\<rparr>"
  let ?B0 = "emit (GoSyncRequest ?first addrA) B"
  let ?B1 = "server_HandleIncomingNodeList eB pB (server_AllKnownNodes eA A) ?B0"
  let ?second = "\<lparr>sync_Nodes = server_AllKnownNodes eB ?B1, sync_Mode = SyncModeSecondPhase\<rparr>"
  let ?A1 = "server_HandleIncomingNodeList eA pA (server_AllKnownNodes eB ?B1) A'"
  have B0: "srv_inv ?B0" using assms(5) by simp
  have B1: "srv_inv ?B1" using IncomingNodeList_ok [OF assms(4) B0 AllKnownNodes_ok [OF assms(2)]] .
  have "server_AllKnownNodes eB ?B1 = server_AllKnownNodes eB (server_HandleIncomingNodeList eB pB (server_AllKnownNodes eA A) B)"
    by (simp add: server_AllKnownNodes_def server_HandleIncomingNodeList_def emit_def Let_def)
  then have wf: "wfMessage (MSync ?second)" using assms(10) by simp
  obtain req where req: "server_EncodeTCPPacket eA (MSync ?first) A = Some (Inr req)"
    and got: "server_DecodeTCPPacket req addrA B = Some (Inr (Some ((Pkt (incarnation A) (MSync ?first))\<lparr>p_Source := addrA\<rparr>)))"
    using Encode_sealed [OF assms(3) wfMessage_typed [OF assms(9)]] Decode_sealed [OF assms(3, 7, 9)] by blast
  obtain resp where resp: "server_EncodeTCPPacket eB (MSync ?second) ?B1 = Some (Inr resp)"
    and returned: "server_DecodeTCPPacket resp addrB A' = Some (Inr (Some ((Pkt (incarnation ?B1) (MSync ?second))\<lparr>p_Source := addrB\<rparr>)))"
    using Encode_sealed [OF assms(6) wfMessage_typed [OF wf]] Decode_sealed [OF assms(6) _ wf, of ?B1 A'] assms(8, 13)
    by (auto simp: emit_def)
  have req_sent: "PerformSync_request (sync_server eA pA) True True A = Some ([ClientWrite req], True)"
    using req by (simp add: PerformSync_request_def exchange_request_def sync_server_def)
  have req_got: "HandleTCPPacket eB pB addrA req m B = Some ([], m, ?B0)"
    using got by (simp add: HandleTCPPacket_def Pkt_def)
  have resp_sent: "HandleSyncRequest (sync_server eB pB) ?first ?B0 = Some ([ClientWrite resp, ClientClose], ?B1)"
    using resp by (simp add: HandleSyncRequest_def sync_server_def Let_def)
  have resp_got: "PerformSync_response (sync_server eA pA) addrB (ReplyPacket resp) A' = Some ([ClientClose], ?A1)"
    using returned by (simp add: PerformSync_response_def exchange_answer_def sync_server_def Pkt_def)
  have "learned A ?B1" using incoming_learned [OF assms(1, 2) B0] .
  moreover have "learned ?B1 ?A1" using incoming_learned [OF assms(4) B1 assms(11)] .
  ultimately show ?thesis using req_sent req_got resp_sent resp_got by blast
qed

lemma known_sealing: "server_AllKnownNodes nonceEnv (sealingServer a) = [host False 0 a]"
  by (simp add: AllKnownNodes_eq nonceEnv_def sortedEnv_def NewNodeList_def)

lemma known_introduced: "a \<noteq> b \<Longrightarrow> server_AllKnownNodes nonceEnv (introduced a b) = [host False 0 b, host False 0 a]"
  by (simp add: AllKnownNodes_eq introduced_list nonceEnv_def sortedEnv_def List.map_filter_simps)

theorem full_sync_spreads_members_witness:
  "\<exists>req sync B1 resp A1.
      PerformSync_request (sync_server nonceEnv 1) True True (sealingServer 1) = Some ([ClientWrite req], True)
    \<and> HandleTCPPacket nonceEnv 1 [10, 0, 0, 1] req NewSyncManager (sealingServer 2)
      = Some ([], NewSyncManager, emit (GoSyncRequest sync [10, 0, 0, 1]) (sealingServer 2))
    \<and> HandleSyncRequest (sync_server nonceEnv 1) sync (emit (GoSyncRequest sync [10, 0, 0, 1]) (sealingServer 2))
      = Some ([ClientWrite resp, ClientClose], B1)
    \<and> PerformSync_response (sync_server nonceEnv 1) [10, 0, 0, 2] (ReplyPacket resp) (sealingServer 1) = Some ([ClientClose], A1)
    \<and> learned (sealingServer 1) B1 \<and> learned B1 A1"
proof -
  have "server_HandleIncomingNodeList nonceEnv 1 (server_AllKnownNodes nonceEnv (sealingServer 1)) (sealingServer 2) = introduced 2 1"
    by (simp add: known_sealing introduced_def)
  with full_sync_spreads_members [OF nonceEnv_valid sealing_inv nonceEnv_nonces nonceEnv_valid sealing_inv nonceEnv_nonces _ _ _ _ sealing_inv,
      of 1 2 1 1 1 "[10, 0, 0, 1]" NewSyncManager "[10, 0, 0, 2]"]
  show ?thesis using xor_shares by (simp add: known_sealing known_introduced wf_host)
qed

end
