(* ===== verification/Goroutines.thy ===== *)
theory Goroutines
  imports Transition_System
begin

text \<open>
  Goroutines that another one stops. A component is a step function on its state: a label names the
  goroutine that moves, at the grain of its accesses to shared state, and what the operating system answers;
  \<open>None\<close> means that the label cannot fire. The locale \<open>stoppable\<close> is the contract between the code
  that stops a goroutine and the goroutine: from the moment \<open>stopped\<close> holds, each of its steps
  lowers a rank that no other step raises, and it always has a step until it has returned.
\<close>

abbreviation fires :: "('l \<Rightarrow> 's \<Rightarrow> 's option) \<Rightarrow> 'l \<Rightarrow> 's \<Rightarrow> 's \<Rightarrow> bool" where
  "fires step l s t \<equiv> step l s = Some t"

text \<open>A run as a function, for concrete ones.\<close>

fun run :: "('l \<Rightarrow> 's \<Rightarrow> 's option) \<Rightarrow> 'l list \<Rightarrow> 's \<Rightarrow> 's option" where
  "run step [] s = Some s"
| "run step (l # ls) s = (case step l s of None \<Rightarrow> None | Some t \<Rightarrow> run step ls t)"

lemma run_trace: "run step ls s = Some t \<longleftrightarrow> trace (fires step) s ls t"
  by (induction ls arbitrary: s) (auto simp: trace_Cons_iff split: option.splits)

lemma run_invariant:
  assumes "\<And>l s t. P s \<Longrightarrow> step l s = Some t \<Longrightarrow> P t"
  shows "P s \<Longrightarrow> run step ls s = Some t \<Longrightarrow> P t"
  by (induction ls arbitrary: s) (use assms in \<open>auto split: option.splits\<close>)

lemma run_append: "run step (ls @ ms) s = (case run step ls s of None \<Rightarrow> None | Some t \<Rightarrow> run step ms t)"
  by (induction ls arbitrary: s) (auto split: option.split)

lemma trace_labels:
  assumes "\<And>l s t. l \<in> L \<Longrightarrow> P s \<Longrightarrow> C l s t \<Longrightarrow> P t"
  shows "trace C s ls t \<Longrightarrow> set ls \<subseteq> L \<Longrightarrow> P s \<Longrightarrow> P t"
  by (induction rule: trace.induct) (use assms in auto)

locale stoppable = invariant C inv
  for C :: "'l \<Rightarrow> 's \<Rightarrow> 's \<Rightarrow> bool"
    and inv :: "'s \<Rightarrow> bool" +
  fixes own :: "'l \<Rightarrow> bool"
    and stopped :: "'s \<Rightarrow> bool"
    and returned :: "'s \<Rightarrow> bool"
    and rank :: "'s \<Rightarrow> nat"
  assumes stays_stopped: "inv s \<Longrightarrow> stopped s \<Longrightarrow> C l s t \<Longrightarrow> stopped t"
    and own_step: "inv s \<Longrightarrow> stopped s \<Longrightarrow> own l \<Longrightarrow> C l s t \<Longrightarrow> rank t < rank s"
    and other_step: "inv s \<Longrightarrow> stopped s \<Longrightarrow> \<not> own l \<Longrightarrow> C l s t \<Longrightarrow> rank t \<le> rank s"
    and moves: "inv s \<Longrightarrow> stopped s \<Longrightarrow> \<not> returned s \<Longrightarrow> \<exists>l t. own l \<and> C l s t"
begin

lemma few_steps:
  "trace C s ls t \<Longrightarrow> inv s \<Longrightarrow> stopped s \<Longrightarrow> length (filter own ls) + rank t \<le> rank s"
proof (induction rule: trace.induct)
  case (trace_Cons l s t ls u)
  then have "length (filter own ls) + rank u \<le> rank t" using step_inv stays_stopped by blast
  with trace_Cons own_step [of s l t] other_step [of s l t] show ?case by (cases "own l") auto
qed simp

lemma still_stopped: "trace C s ls t \<Longrightarrow> inv s \<Longrightarrow> stopped s \<Longrightarrow> inv t \<and> stopped t"
  by (induction rule: trace.induct) (auto intro: step_inv stays_stopped)

text \<open>The goroutine takes no more steps than its rank, and where it can take none it has returned.\<close>

lemma returns:
  assumes "inv s" and "stopped s" and "trace C s ls t"
  shows "length (filter own ls) \<le> rank s \<and> (returned t \<or> (\<exists>l u. own l \<and> C l t u))"
  using few_steps [OF assms(3, 1, 2)] still_stopped [OF assms(3, 1, 2)] moves [of t] by auto

end

end
