(* ===== verification/Sockets.thy ===== *)
theory Sockets
  imports Goroutines Proto_Base
begin

text \<open>
  What the three listeners of \<open>internal/wire\<close> share: the textual form of an address with its port, which is
  an IPv6 address in brackets, the names of the networks, and the program counter of a goroutine that
  shuts a listener down. Resolving a name and printing an address are services of the \<open>net\<close> package:
  \<open>resolve\<close> and \<open>ipString\<close> are arguments of the functions that use them.
\<close>

fun decimal :: "nat \<Rightarrow> string" where
  "decimal n = (if n < 10 then [char_of (48 + n)] else decimal (n div 10) @ [char_of (48 + n mod 10)])"

definition hostPort :: "bool \<Rightarrow> string \<Rightarrow> u16 \<Rightarrow> string" where
  "hostPort v6 host port = (if v6 then ''['' @ host @ '']:'' else host @ '':'') @ decimal (unat port)"

definition networkName :: "string \<Rightarrow> bool \<Rightarrow> string" where
  "networkName transport v6 = transport @ (if v6 then ''6'' else ''4'')"

text \<open>What reading from a UDP socket gives: the error of a closed socket is told apart.\<close>

datatype read_udp = ReadDatagram "byte list" NetIP | ReadErrClosed | ReadErrOther

datatype shutdown_pc = ShutIdle | ShutListener | ShutClose nat | ShutReturned

type_synonym endpoint = "NetIP \<times> u16"

declare decimal.simps [simp del]

text \<open>The number that a decimal denotes, and that printing loses nothing.\<close>

definition of_decimal :: "string \<Rightarrow> nat" where
  "of_decimal s = foldl (\<lambda>n c. 10 * n + (of_char c - 48)) 0 s"

lemma of_decimal_decimal: "of_decimal (decimal n) = n"
proof (induction n rule: decimal.induct)
  case (1 n)
  show ?case
  proof (cases "n < 10")
    case True
    then show ?thesis by (simp add: decimal.simps [of n] of_decimal_def)
  next
    case False
    have "of_decimal (decimal n) = 10 * of_decimal (decimal (n div 10)) + n mod 10"
      using False by (subst decimal.simps) (simp add: of_decimal_def)
    with 1 False show ?thesis by simp
  qed
qed

lemma hostPort_port_inj: "hostPort v6 host p = hostPort v6 host q \<Longrightarrow> p = q"
  by (auto simp: hostPort_def of_decimal_decimal unsigned_word_eqI split: if_splits dest!: arg_cong [of _ _ of_decimal])

end
