(* ===== verification/Udp_Listener.thy ===== *)
theory Udp_Listener
  imports Sockets
begin

text \<open>
  \<open>internal/wire/udp_control_server.go\<close>: the goroutine that reads datagrams, and the one that shuts it
  down. The sockets the operating system has handed out are a list of flags (whether the socket is open); \<open>listener\<close>
  is an index into it, \<open>None\<close> for nil. What the operating system decides is part of a label: whether a
  socket could be bound, what a read returns. A read from a closed socket returns \<open>net.ErrClosed\<close>
  and nothing else, and one from an open socket never does.

  The delegate is two functions on its own state: \<open>enter\<close>, what it does up to the send that may block it (\<open>None\<close> for a panic), and \<open>leave\<close>, that send, which
  is \<open>None\<close> as long as it is blocked; other goroutines may change the delegate's state and so unblock it. Every access to \<open>stopping\<close> and to
  \<open>listener\<close> is a step of its own, so that the two goroutines interleave as they do in the program. A call of
  \<open>Shutdown\<close> that finds \<open>stopping\<close> set returns at once, so that only the first caller has a program counter.
\<close>

subsection \<open>State\<close>

datatype udp_pc = UListenTest | UMakeListener | UReadTest | URead | UHandle "byte list" NetIP | UInside | UReturned | UPanicked

record 'd udpControlServer =
  u_network :: string
  u_address :: endpoint
  u_sockets :: "bool list"
  u_listener :: "nat option"
  u_stopping :: bool
  u_delegate :: 'd
  u_pc :: udp_pc
  u_shut :: shutdown_pc

datatype udp_label = Listen_test | Make_listener bool | Read_test | Read_from read_udp | Call_handle | Call_return
  | Shut_swap | Shut_listener | Shut_close

definition NewUDPControlServer :: "(string \<Rightarrow> string \<Rightarrow> string + endpoint) \<Rightarrow> (IP \<Rightarrow> string) \<Rightarrow> IP \<Rightarrow> u16 \<Rightarrow> 'd
    \<Rightarrow> string + 'd udpControlServer" where
  "NewUDPControlServer resolve ipString address swimPort delegate =
     (let v6 = (AddressKind address = AddressIPv6); network = networkName ''udp'' v6
      in case resolve network (hostPort v6 (ipString address) swimPort) of
        Inl err \<Rightarrow> Inl (''failed resolving '' @ network @ '' address: '' @ err)
      | Inr addr \<Rightarrow> Inr \<lparr>u_network = network, u_address = addr, u_sockets = [], u_listener = None, u_stopping = False,
          u_delegate = delegate, u_pc = UListenTest, u_shut = ShutIdle\<rparr>)"

text \<open>The part of a new server that changes.\<close>

definition udp_new :: "'d udpControlServer \<Rightarrow> bool" where
  "udp_new u \<longleftrightarrow> u_sockets u = [] \<and> u_listener u = None \<and> \<not> u_stopping u \<and> u_pc u = UListenTest \<and> u_shut u = ShutIdle"

lemma NewUDP_new: "NewUDPControlServer resolve ipString address port d = Inr u \<Longrightarrow> udp_new u \<and> u_delegate u = d"
  by (auto simp: NewUDPControlServer_def udp_new_def Let_def split: sum.splits)

subsection \<open>Steps\<close>

text \<open>\<open>send\<close> is the system call; on a nil listener \<open>WriteToUDP\<close> returns \<open>EINVAL\<close>.\<close>

definition WriteUDP :: "(nat \<Rightarrow> byte list \<Rightarrow> string + nat) \<Rightarrow> byte list \<Rightarrow> 'd udpControlServer \<Rightarrow> string + nat" where
  "WriteUDP send data u = (case u_listener u of None \<Rightarrow> Inl ''invalid argument'' | Some i \<Rightarrow> send i data)"

definition makeListener :: "bool \<Rightarrow> 'd udpControlServer \<Rightarrow> 'd udpControlServer" where
  "makeListener bound u =
     (if \<not> bound then u\<lparr>u_pc := UListenTest\<rparr>
      else u\<lparr>u_sockets := u_sockets u @ [True], u_listener := Some (length (u_sockets u)), u_pc := UReadTest\<rparr>)"

text \<open>The buffer has 4096 bytes; what a datagram has beyond them is lost.\<close>

definition readLoop_read :: "read_udp \<Rightarrow> nat \<Rightarrow> 'd udpControlServer \<Rightarrow> 'd udpControlServer option" where
  "readLoop_read r i u = (case r of
     ReadErrClosed \<Rightarrow> if u_sockets u ! i then None else Some (u\<lparr>u_pc := UListenTest\<rparr>)
   | ReadErrOther \<Rightarrow> if u_sockets u ! i then Some (u\<lparr>u_pc := UReadTest\<rparr>) else None
   | ReadDatagram data source \<Rightarrow> if u_sockets u ! i then Some (u\<lparr>u_pc := UHandle (take 4096 data) source\<rparr>) else None)"

fun udp_step :: "(byte list \<Rightarrow> NetIP \<Rightarrow> 'd \<Rightarrow> 'd option) \<Rightarrow> ('d \<Rightarrow> 'd option) \<Rightarrow> udp_label \<Rightarrow> 'd udpControlServer \<Rightarrow> 'd udpControlServer option" where
  "udp_step enter leave Listen_test u = (if u_pc u = UListenTest
     then Some (u\<lparr>u_pc := if u_stopping u then UReturned else UMakeListener\<rparr>) else None)"
| "udp_step enter leave (Make_listener bound) u = (if u_pc u = UMakeListener then Some (makeListener bound u) else None)"
| "udp_step enter leave Read_test u = (if u_pc u = UReadTest
     then Some (u\<lparr>u_pc := if u_stopping u then UListenTest else URead\<rparr>) else None)"
| "udp_step enter leave (Read_from r) u = (case (u_pc u, u_listener u) of (URead, Some i) \<Rightarrow> readLoop_read r i u | _ \<Rightarrow> None)"
| "udp_step enter leave Call_handle u = (case u_pc u of
     UHandle data source \<Rightarrow> (case enter data source (u_delegate u) of
        None \<Rightarrow> Some (u\<lparr>u_pc := UPanicked\<rparr>)
      | Some d \<Rightarrow> Some (u\<lparr>u_delegate := d, u_pc := UInside\<rparr>))
   | _ \<Rightarrow> None)"
| "udp_step enter leave Call_return u = (if u_pc u = UInside
     then map_option (\<lambda>d. u\<lparr>u_delegate := d, u_pc := UReadTest\<rparr>) (leave (u_delegate u)) else None)"
| "udp_step enter leave Shut_swap u = Some (if u_stopping u then u else u\<lparr>u_stopping := True, u_shut := ShutListener\<rparr>)"
| "udp_step enter leave Shut_listener u = (if u_shut u = ShutListener
     then Some (u\<lparr>u_shut := (case u_listener u of None \<Rightarrow> ShutReturned | Some i \<Rightarrow> ShutClose i)\<rparr>) else None)"
| "udp_step enter leave Shut_close u = (case u_shut u of
     ShutClose i \<Rightarrow> Some (u\<lparr>u_sockets := (u_sockets u)[i := False], u_shut := ShutReturned\<rparr>) | _ \<Rightarrow> None)"

text \<open>\<open>Listen\<close> is blocked inside its delegate.\<close>

definition udp_blocked :: "('d \<Rightarrow> 'd option) \<Rightarrow> 'd udpControlServer \<Rightarrow> bool" where
  "udp_blocked leave u \<longleftrightarrow> u_pc u = UInside \<and> leave (u_delegate u) = None"

text \<open>The steps of the goroutine of \<open>Listen\<close>, and how many it has left once it is told to stop.\<close>

definition listens :: "udp_label \<Rightarrow> bool" where
  "listens l \<longleftrightarrow> l \<notin> {Shut_swap, Shut_listener, Shut_close}"

fun udp_rank :: "udp_pc \<Rightarrow> nat" where
  "udp_rank UReturned = 0"
| "udp_rank UPanicked = 0"
| "udp_rank UListenTest = 1"
| "udp_rank UReadTest = 2"
| "udp_rank URead = 2"
| "udp_rank UMakeListener = 3"
| "udp_rank UInside = 3"
| "udp_rank (UHandle data source) = 4"

subsection \<open>The invariant\<close>

text \<open>While a read is under way its socket is the current one, and it is open until \<open>Shutdown\<close> closes it,
  which it does before it returns.\<close>

definition udp_inv :: "'d udpControlServer \<Rightarrow> bool" where
  "udp_inv u \<longleftrightarrow> (u_shut u \<noteq> ShutIdle \<longleftrightarrow> u_stopping u)
     \<and> (\<forall>i. u_listener u = Some i \<longrightarrow> i < length (u_sockets u))
     \<and> (u_pc u \<notin> {UListenTest, UMakeListener, UReturned, UPanicked} \<longrightarrow> u_listener u \<noteq> None)
     \<and> (u_pc u = URead \<longrightarrow> (\<exists>i. u_listener u = Some i
          \<and> (u_shut u = ShutReturned \<longrightarrow> \<not> u_sockets u ! i) \<and> (\<forall>j. u_shut u = ShutClose j \<longrightarrow> j = i)))"

lemma udp_inv_new: "udp_new u \<Longrightarrow> udp_inv u"
  by (simp add: udp_inv_def udp_new_def)

lemma udp_step_inv: "udp_inv u \<Longrightarrow> udp_step enter leave l u = Some v \<Longrightarrow> udp_inv v"
  by (cases l)
    (auto simp: udp_inv_def makeListener_def readLoop_read_def nth_append nth_list_update
       split: if_splits option.splits udp_pc.splits read_udp.splits shutdown_pc.splits)


interpretation udp: stoppable "fires (udp_step enter leave)" udp_inv listens "\<lambda>u. u_shut u = ShutReturned"
  "\<lambda>u. u_pc u \<in> {UReturned, UPanicked} \<or> udp_blocked leave u" "\<lambda>u. udp_rank (u_pc u)" for enter leave
proof
  fix u v :: "'a udpControlServer" and l
  assume inv: "udp_inv u"
  show "udp_inv v" if "udp_step enter leave l u = Some v"
    using inv that by (rule udp_step_inv)
  assume shut: "u_shut u = ShutReturned"
  show "u_shut v = ShutReturned" if "udp_step enter leave l u = Some v"
    using that inv shut by (cases l) (auto simp: udp_inv_def makeListener_def readLoop_read_def
      split: if_splits option.splits udp_pc.splits read_udp.splits)
  show "udp_rank (u_pc v) < udp_rank (u_pc u)" if "listens l" "udp_step enter leave l u = Some v"
    using that inv shut by (cases l) (auto simp: listens_def udp_inv_def makeListener_def readLoop_read_def
      split: if_splits option.splits udp_pc.splits read_udp.splits)
  show "udp_rank (u_pc v) \<le> udp_rank (u_pc u)" if "\<not> listens l" "udp_step enter leave l u = Some v"
    using that inv shut by (cases l) (auto simp: listens_def udp_inv_def)
  show "\<exists>l v. listens l \<and> udp_step enter leave l u = Some v" if "\<not> (u_pc u \<in> {UReturned, UPanicked} \<or> udp_blocked leave u)"
  proof (cases "u_pc u")
    case URead
    then have "udp_step enter leave (Read_from ReadErrClosed) u = Some (u\<lparr>u_pc := UListenTest\<rparr>)"
      using inv shut by (auto simp: udp_inv_def readLoop_read_def)
    then show ?thesis unfolding listens_def by blast
  next
    case (UHandle data source)
    then have "\<exists>v. udp_step enter leave Call_handle u = Some v" by (simp split: option.split)
    then show ?thesis unfolding listens_def by blast
  next
    case UInside
    then have "\<exists>v. udp_step enter leave Call_return u = Some v" using that by (auto simp: udp_blocked_def)
    then show ?thesis unfolding listens_def by blast
  next
    case UMakeListener
    then have "\<exists>v. udp_step enter leave (Make_listener False) u = Some v" by simp
    then show ?thesis unfolding listens_def by blast
  next
    case UListenTest
    then have "\<exists>v. udp_step enter leave Listen_test u = Some v" by simp
    then show ?thesis unfolding listens_def by blast
  next
    case UReadTest
    then have "\<exists>v. udp_step enter leave Read_test u = Some v" by simp
    then show ?thesis unfolding listens_def by blast
  qed (use that in auto)
qed

lemma udp_rank_le: "udp_rank pc \<le> 4"
  by (cases pc) simp_all

subsection \<open>Properties\<close>

text \<open>C29: \<open>Shutdown\<close> stops \<open>Listen\<close>. Whatever the interleaving of the two goroutines and the answers of the
  operating system, once \<open>Shutdown\<close> has returned \<open>Listen\<close> takes at most four more steps. Where it can take none, it has returned, or its
  delegate has panicked, or it is inside its delegate, which is blocked: reading from the socket never blocks it. Whether the delegate is unblocked
  is up to others.\<close>

theorem udp_Shutdown_stops_Listen:
  assumes "NewUDPControlServer resolve ipString address port d = Inr u0"
    and "trace (fires (udp_step enter leave)) u0 ls u" and "u_shut u = ShutReturned"
    and "trace (fires (udp_step enter leave)) u ms v"
  shows "length (filter listens ms) \<le> 4
    \<and> (u_pc v \<in> {UReturned, UPanicked} \<or> udp_blocked leave v \<or> (\<exists>l w. listens l \<and> udp_step enter leave l v = Some w))"
proof -
  have "udp_inv u" using udp.trace_inv [OF assms(2)] udp_inv_new NewUDP_new [OF assms(1)] by blast
  from udp.returns [OF this assms(3, 4)] udp_rank_le [of "u_pc u"] show ?thesis by auto
qed

abbreviation exampleUDP :: "byte list list udpControlServer" where
  "exampleUDP \<equiv> \<lparr>u_network = ''udp4'', u_address = ([10, 0, 0, 1], 7946), u_sockets = [], u_listener = None, u_stopping = False,
     u_delegate = [], u_pc = UListenTest, u_shut = ShutIdle\<rparr>"

text \<open>A delegate that records what it is given and holds at most one datagram.\<close>

abbreviation exampleStep :: "udp_label \<Rightarrow> byte list list udpControlServer \<Rightarrow> byte list list udpControlServer option" where
  "exampleStep \<equiv> udp_step (\<lambda>data source ds. Some (ds @ [data])) (\<lambda>ds. if length ds \<le> 1 then Some ds else None)"

theorem udp_Shutdown_stops_Listen_witness:
  "\<exists>v. run exampleStep
      [Listen_test, Make_listener True, Read_test, Read_from (ReadDatagram [7] [10, 0, 0, 2]), Shut_swap, Shut_listener, Shut_close,
       Call_handle, Call_return, Read_test, Listen_test] exampleUDP = Some v
    \<and> u_pc v = UReturned \<and> u_delegate v = [[7]] \<and> length (filter listens [Call_handle, Call_return, Read_test, Listen_test]) \<le> 4"
proof -
  let ?ls = "[Listen_test, Make_listener True, Read_test, Read_from (ReadDatagram [7] [10, 0, 0, 2]), Shut_swap, Shut_listener, Shut_close]"
  let ?u = "exampleUDP\<lparr>u_sockets := [False], u_listener := Some 0, u_stopping := True, u_pc := UHandle [7] [10, 0, 0, 2], u_shut := ShutReturned\<rparr>"
  let ?v = "?u\<lparr>u_delegate := [[7]], u_pc := UReturned\<rparr>"
  have "NewUDPControlServer (\<lambda>_ _. Inr ([10, 0, 0, 1], 7946)) (\<lambda>_. ''10.0.0.1'') zeroIP 7946 [] = Inr exampleUDP"
    by (simp add: NewUDPControlServer_def networkName_def)
  moreover have "trace (fires exampleStep) exampleUDP ?ls ?u" "trace (fires exampleStep) ?u [Call_handle, Call_return, Read_test, Listen_test] ?v"
    by (simp_all add: run_trace [symmetric] makeListener_def readLoop_read_def)
  ultimately have "length (filter listens [Call_handle, Call_return, Read_test, Listen_test]) \<le> 4"
    using udp_Shutdown_stops_Listen by fastforce
  then show ?thesis by (simp add: makeListener_def readLoop_read_def)
qed

text \<open>A socket that is bound while \<open>Shutdown\<close> runs is never closed. From every new server there is a run in
  which both \<open>Listen\<close> and \<open>Shutdown\<close> return, one socket is open, and it is open after anything that can
  still happen.\<close>

lemma udp_socket_leaks:
  assumes "NewUDPControlServer resolve ipString address port d = Inr u0"
  shows "\<exists>u. run (udp_step enter leave) [Listen_test, Shut_swap, Shut_listener, Make_listener True, Read_test, Listen_test] u0 = Some u
    \<and> u_pc u = UReturned \<and> u_shut u = ShutReturned
    \<and> (\<forall>ms v. run (udp_step enter leave) ms u = Some v \<longrightarrow> u_sockets v = [True])"
proof -
  let ?u = "u0\<lparr>u_sockets := [True], u_listener := Some 0, u_stopping := True, u_pc := UReturned, u_shut := ShutReturned\<rparr>"
  have "v = ?u" if "udp_step enter leave l ?u = Some v" for l v
    using that by (cases l) simp_all
  then have "v = ?u" if "run (udp_step enter leave) ms ?u = Some v" for ms v
    using run_invariant [of "\<lambda>u. u = ?u" "udp_step enter leave", OF _ _ that] by simp
  moreover have "run (udp_step enter leave) [Listen_test, Shut_swap, Shut_listener, Make_listener True, Read_test, Listen_test] u0 = Some ?u"
    using NewUDP_new [OF assms] by (simp add: udp_new_def makeListener_def)
  ultimately show ?thesis by fastforce
qed

lemma udp_socket_leaks_witness:
  "\<exists>u. run exampleStep [Listen_test, Shut_swap, Shut_listener, Make_listener True, Read_test, Listen_test] exampleUDP = Some u
    \<and> u_pc u = UReturned \<and> u_shut u = ShutReturned \<and> u_sockets u = [True]"
  by (simp add: makeListener_def)

end
