(* ===== verification/Server_Facade.thy ===== *)
theory Server_Facade
  imports Server_System
begin

text \<open>
  The package's public side: \<open>options.go\<close>, \<open>server.go\<close> and the filter of \<open>iputil.IPList\<close>. A pointer to an address is \<open>None\<close> for nil; the distinguished
  pointer \<open>IgnoreFamilyAddr\<close> is a constructor of its own, since the code compares pointers.

  Parameters: \<open>findIP\<close> is the third-party \<open>defip.FindDefaultIP\<close>, \<open>asconNew\<close> the constructor of the cipher,
  \<open>sockets\<close> whether the sockets of a server could be opened, \<open>localAddrs\<close> what \<open>LocalAddresses\<close> reads from
  the operating system, \<open>logTx\<close> the default of \<open>MaxEventTransmission\<close> (a floating-point logarithm).
\<close>

subsection \<open>Options\<close>

datatype hostAddr = IgnoreFamilyAddr | HostAddr Addr

record Options =
  IPv4Address :: "hostAddr option"
  IPv6Address :: "hostAddr option"
  IPv4MulticastAddress :: string
  IPv6MulticastAddress :: string
  CryptoKey :: "byte list"
  InsecureDisableCrypto :: bool
  o_IndirectPings :: int
  ProtocolPeriod :: int
  UseAdaptivePingTimeout :: bool
  o_PingTimeout :: int
  o_SuspectPeriods :: u16
  FullSyncProtocolRounds :: int
  UDPMaxLength :: int
  MaxEventTransmission :: "(int \<Rightarrow> int) option"

definition detect :: "Addr option \<Rightarrow> hostAddr option \<Rightarrow> hostAddr option" where
  "detect found a = (case a of Some x \<Rightarrow> Some x
     | None \<Rightarrow> (case found of Some ip \<Rightarrow> Some (HostAddr ip) | None \<Rightarrow> Some IgnoreFamilyAddr))"

text \<open>The defaults of the fields left at their zero value.\<close>

definition withDefaults :: "(int \<Rightarrow> int) \<Rightarrow> Options \<Rightarrow> Options" where
  "withDefaults logTx p =
     (let p = (if ProtocolPeriod p = 0 then p\<lparr>ProtocolPeriod := 2000000000\<rparr> else p);
          p = (if o_PingTimeout p = 0 then p\<lparr>o_PingTimeout := ProtocolPeriod p sdiv 2\<rparr> else p);
          p = (if UDPMaxLength p = 0 then p\<lparr>UDPMaxLength := 1200\<rparr> else p);
          p = (if o_IndirectPings p = 0 then p\<lparr>o_IndirectPings := 2\<rparr> else p);
          p = (if o_SuspectPeriods p = 0 then p\<lparr>o_SuspectPeriods := 20\<rparr> else p);
          p = (if FullSyncProtocolRounds p = 0 then p\<lparr>FullSyncProtocolRounds := 300\<rparr> else p)
      in if MaxEventTransmission p = None then p\<lparr>MaxEventTransmission := Some logTx\<rparr> else p)"

definition Options_normalize :: "(bool \<Rightarrow> Addr option) \<Rightarrow> (int \<Rightarrow> int) \<Rightarrow> Options \<Rightarrow> string + Options" where
  "Options_normalize findIP logTx p =
     (if \<not> InsecureDisableCrypto p \<and> length (CryptoKey p) \<noteq> 16 then Inl ''CryptoKey must have 16 bytes''
      else let p = withDefaults logTx p
        in Inr (p\<lparr>IPv4Address := detect (findIP False) (IPv4Address p), IPv6Address := detect (findIP True) (IPv6Address p)\<rparr>))"

subsection \<open>The server\<close>

record server =
  v4Server :: "swimServer option"
  v6Server :: "swimServer option"

text \<open>\<open>newSwimServer\<close> with its errors. \<open>None\<close> is the panic of \<open>IPFromAddr\<close> on the zero address.\<close>

definition createSwimServer :: "(byte list \<Rightarrow> ((byte list \<Rightarrow> byte list \<Rightarrow> byte list) \<times> (byte list \<Rightarrow> byte list \<Rightarrow> byte list option)) option)
    \<Rightarrow> (IP \<Rightarrow> bool) \<Rightarrow> Addr \<Rightarrow> Options \<Rightarrow> (string + swimServer) option" where
  "createSwimServer asconNew sockets bindAddress opts = (case NewASCON asconNew (CryptoKey opts) of
     None \<Rightarrow> Some (Inl ''failed initializing crypto handler'')
   | Some ascon \<Rightarrow> do {
       selfAddress \<leftarrow> IPFromAddr bindAddress;
       if \<not> sockets selfAddress then Some (Inl ''failed initializing listeners'')
       else Some (Inr (newSwimServer selfAddress ascon (o_SuspectPeriods opts) (o_IndirectPings opts) (o_PingTimeout opts)))
     })"

definition chooseFamily :: "string \<Rightarrow> hostAddr option \<Rightarrow> hostAddr" where
  "chooseFamily multicast a = (case a of None \<Rightarrow> IgnoreFamilyAddr
     | Some x \<Rightarrow> if multicast = [] then IgnoreFamilyAddr else x)"

definition familyServer :: "(Addr \<Rightarrow> (string + swimServer) option) \<Rightarrow> hostAddr \<Rightarrow> (string + swimServer option) option" where
  "familyServer mk a = (case a of IgnoreFamilyAddr \<Rightarrow> Some (Inr None)
     | HostAddr addr \<Rightarrow> do { r \<leftarrow> mk addr; (case r of Inl err \<Rightarrow> Some (Inl err) | Inr s \<Rightarrow> Some (Inr (Some s))) })"

definition NewServer :: "(bool \<Rightarrow> Addr option) \<Rightarrow> (int \<Rightarrow> int) \<Rightarrow> (string + Addr list)
    \<Rightarrow> (byte list \<Rightarrow> ((byte list \<Rightarrow> byte list \<Rightarrow> byte list) \<times> (byte list \<Rightarrow> byte list \<Rightarrow> byte list option)) option)
    \<Rightarrow> (IP \<Rightarrow> bool) \<Rightarrow> Options \<Rightarrow> (string + server) option" where
  "NewServer findIP logTx localAddrs asconNew sockets opts = (case Options_normalize findIP logTx opts of
     Inl err \<Rightarrow> Some (Inl err)
   | Inr opts \<Rightarrow>
       let addr6 = chooseFamily (IPv6MulticastAddress opts) (IPv6Address opts);
           addr4 = chooseFamily (IPv4MulticastAddress opts) (IPv4Address opts);
           mk = (\<lambda>a. createSwimServer asconNew sockets a opts)
       in (case localAddrs of Inl err \<Rightarrow> Some (Inl err)
         | Inr allIPs \<Rightarrow> do {
             v4 \<leftarrow> familyServer mk addr4;
             (case v4 of Inl err \<Rightarrow> Some (Inl err)
              | Inr v4 \<Rightarrow> do {
                  v6 \<leftarrow> familyServer mk addr6;
                  (case v6 of Inl err \<Rightarrow> Some (Inl err)
                   | Inr v6 \<Rightarrow> Some (Inr \<lparr>v4Server = v4, v6Server = v6\<rparr>))
                })
           }))"

text \<open>The filter is the union of the stable type with itself.\<close>

definition familyNodes :: "env \<Rightarrow> swimServer option \<Rightarrow> Addr list" where
  "familyNodes e s = (case s of None \<Rightarrow> []
     | Some s \<Rightarrow> (let l = nm_list (sw_nodes s) in
         map (\<lambda>v. IntoManaged (n_Address v))
           (nodeManager_All (NodeTypeStable OR NodeTypeStable) (env_stable e l) (env_suspects e l) (sw_nodes s))))"

definition GetKnownNodes :: "env \<Rightarrow> server \<Rightarrow> Addr list" where
  "GetKnownNodes e s = familyNodes e (v4Server s) @ familyNodes e (v6Server s)"

subsection \<open>Multicast traffic of this host\<close>

text \<open>The predicates of \<open>net/netip\<close>. An IPv4 address in its IPv6 form counts as IPv4.\<close>

definition unmap :: "Addr \<Rightarrow> Addr" where
  "unmap a = (case a of Addr6 bs \<Rightarrow> if take 12 bs = v4InV6Prefix then Addr4 (drop 12 bs) else a | _ \<Rightarrow> a)"

definition IsLoopback :: "Addr \<Rightarrow> bool" where
  "IsLoopback a = (case unmap a of Addr4 bs \<Rightarrow> bs ! 0 = 127 | Addr6 bs \<Rightarrow> bs = replicate 15 0 @ [1] | AddrZero \<Rightarrow> False)"

definition IsLinkLocalMulticast :: "Addr \<Rightarrow> bool" where
  "IsLinkLocalMulticast a = (case unmap a of Addr4 bs \<Rightarrow> take 3 bs = [224, 0, 0]
     | Addr6 bs \<Rightarrow> bs ! 0 = 0xFF \<and> bs ! 1 AND 0x0F = 0x02 | AddrZero \<Rightarrow> False)"

definition IsLinkLocalUnicast :: "Addr \<Rightarrow> bool" where
  "IsLinkLocalUnicast a = (case unmap a of Addr4 bs \<Rightarrow> take 2 bs = [169, 254]
     | Addr6 bs \<Rightarrow> bs ! 0 = 0xFE \<and> bs ! 1 AND 0xC0 = 0x80 | AddrZero \<Rightarrow> False)"

definition IPList_Contains :: "Addr list \<Rightarrow> Addr \<Rightarrow> bool" where
  "IPList_Contains i ip = (if IsLoopback ip \<or> IsLinkLocalMulticast ip \<or> IsLinkLocalUnicast ip then True
     else slices_Index i ip \<noteq> -1)"

subsection \<open>What a new server is\<close>

lemmas option_selectors = if_distrib [of CryptoKey] if_distrib [of o_SuspectPeriods] if_distrib [of o_IndirectPings]
  if_distrib [of UDPMaxLength] if_distrib [of ProtocolPeriod] if_distrib [of FullSyncProtocolRounds]
  if_distrib [of o_PingTimeout] if_distrib [of MaxEventTransmission] if_distrib [of InsecureDisableCrypto]

lemma withDefaults_fields:
  "CryptoKey (withDefaults logTx p) = CryptoKey p"
  "o_SuspectPeriods (withDefaults logTx p) = (if o_SuspectPeriods p = 0 then 20 else o_SuspectPeriods p)"
  "o_IndirectPings (withDefaults logTx p) = (if o_IndirectPings p = 0 then 2 else o_IndirectPings p)"
  by (simp_all add: withDefaults_def Let_def option_selectors cong: if_cong)

lemma normalize_fields:
  assumes "Options_normalize findIP logTx opts = Inr opts'"
  shows "CryptoKey opts' = CryptoKey opts" and "o_SuspectPeriods opts' \<noteq> 0"
    and "0 \<le> o_IndirectPings opts \<Longrightarrow> 0 < o_IndirectPings opts'" and "o_IndirectPings opts < 0 \<Longrightarrow> o_IndirectPings opts' < 0"
    and "InsecureDisableCrypto opts \<or> length (CryptoKey opts) = 16"
  using assms by (auto simp: Options_normalize_def withDefaults_fields Let_def split: if_splits)

lemma createSwimServer_sound:
  assumes "createSwimServer asconNew sockets a opts = Some (Inr s)"
  shows "(0 < o_IndirectPings opts \<longrightarrow> srv_inv s) \<and> enabled (sw_ascon s) = (CryptoKey opts \<noteq> []) \<and> Some (hostAddress s) = IPFromAddr a
    \<and> opt_SuspectPeriods s = o_SuspectPeriods opts \<and> opt_IndirectPings s = o_IndirectPings opts"
proof -
  obtain ascon self where *: "NewASCON asconNew (CryptoKey opts) = Some ascon" "IPFromAddr a = Some self"
      "s = newSwimServer self ascon (o_SuspectPeriods opts) (o_IndirectPings opts) (o_PingTimeout opts)"
    using assms(1) by (auto simp: createSwimServer_def split: option.splits if_splits Option.bind_splits)
  have "typedIP self" using *(2) by (auto simp: IPFromAddr_def typedIP_def split: Addr.splits)
  moreover have "enabled ascon = (CryptoKey opts \<noteq> [])"
    using *(1) by (auto simp: NewASCON_def split: if_splits Option.bind_splits)
  moreover have "0 < o_IndirectPings opts \<longrightarrow> srv_inv s" using *(3) srv_inv_new calculation(1) by simp
  ultimately show ?thesis using * by (simp add: newSwimServer_def)
qed

text \<open>A negative bound on the number of candidates makes \<open>IndirectPingCandidates\<close> panic as soon as there is a member.\<close>

lemma negative_candidates_panic:
  "opt_IndirectPings s < 0 \<Longrightarrow> nodeByType (nm_list (sw_nodes s)) \<noteq> Map.empty \<Longrightarrow>
     server_IndirectPingMembers e h s = None"
  by (simp add: server_IndirectPingMembers_def IndirectPingCandidates_def)

text \<open>C37: what \<open>NewServer\<close> returns. Each of the servers it creates waits at least one period before it
  declares a suspect faulty, and encrypts its traffic exactly when a key was given: the option
  \<open>InsecureDisableCrypto\<close> lifts the check on the length of the key and nothing else (its comment says that the key is ignored). If the number of indirect pings is
  not negative, the server satisfies the invariant on which its safety rests. \<open>NewServer\<close> accepts a negative number too; then the choice of
  members for an indirect ping panics in \<open>make\<close> whenever the server has a member.\<close>

theorem NewServer_sound:
  assumes "NewServer findIP logTx localAddrs asconNew sockets opts = Some (Inr srv)"
    and "v4Server srv = Some s \<or> v6Server srv = Some s"
  shows "(if 0 \<le> o_IndirectPings opts then srv_inv s
      else \<forall>e h nodes. nodeByType (nm_list nodes) \<noteq> Map.empty
        \<longrightarrow> server_IndirectPingMembers e h (s\<lparr>sw_nodes := nodes\<rparr>) = None)
    \<and> opt_SuspectPeriods s \<noteq> 0 \<and> (enabled (sw_ascon s) \<longleftrightarrow> CryptoKey opts \<noteq> [])
    \<and> (InsecureDisableCrypto opts \<or> length (CryptoKey opts) = 16)"
proof -
  obtain opts' where norm: "Options_normalize findIP logTx opts = Inr opts'"
    using assms(1) by (auto simp: NewServer_def split: sum.splits)
  obtain a where "createSwimServer asconNew sockets a opts' = Some (Inr s)"
    using assms norm
    by (auto simp: NewServer_def familyServer_def Let_def split: sum.splits if_splits hostAddr.splits Option.bind_splits)
  from createSwimServer_sound [OF this] normalize_fields [OF norm] show ?thesis by (auto simp: negative_candidates_panic)
qed

abbreviation exampleOptions :: Options where
  "exampleOptions \<equiv> \<lparr>IPv4Address = Some (HostAddr (Addr4 [10, 0, 0, 1])), IPv6Address = Some IgnoreFamilyAddr,
     IPv4MulticastAddress = ''239.0.0.1'', IPv6MulticastAddress = [], CryptoKey = replicate 16 7, InsecureDisableCrypto = True,
     o_IndirectPings = 0, ProtocolPeriod = 0, UseAdaptivePingTimeout = False, o_PingTimeout = 0, o_SuspectPeriods = 0,
     FullSyncProtocolRounds = 0, UDPMaxLength = 0, MaxEventTransmission = None\<rparr>"

theorem NewServer_sound_witness:
  "\<exists>srv s. NewServer (\<lambda>_. None) (\<lambda>n. 3) (Inr []) (\<lambda>key. Some (aead_seal xorWrapper, aead_open xorWrapper)) (\<lambda>_. True) exampleOptions = Some (Inr srv)
    \<and> v4Server srv = Some s \<and> v6Server srv = None \<and> srv_inv s \<and> enabled (sw_ascon s)"
proof -
  obtain srv s where srv: "NewServer (\<lambda>_. None) (\<lambda>n. 3) (Inr []) (\<lambda>key. Some (aead_seal xorWrapper, aead_open xorWrapper)) (\<lambda>_. True) exampleOptions = Some (Inr srv)"
      "v4Server srv = Some s" "v6Server srv = None"
    by (simp add: NewServer_def Options_normalize_def withDefaults_def detect_def chooseFamily_def familyServer_def createSwimServer_def NewASCON_def IPFromAddr_def)
  with NewServer_sound [OF srv(1), of s] show ?thesis by simp
qed

text \<open>The nodes a client of the package sees are the stable members of both families.\<close>

lemma GetKnownNodes_set:
  assumes "valid_env e" and "v4Server srv = Some s \<Longrightarrow> srv_inv s"
  shows "v4Server srv = Some s \<Longrightarrow> v6Server srv = None \<Longrightarrow>
    set (GetKnownNodes e srv) = {IntoManaged (n_Address v) | v h. stable (nm_list (sw_nodes s)) h = Some v}"
proof -
  assume 4: "v4Server srv = Some s" and 6: "v6Server srv = None"
  let ?l = "nm_list (sw_nodes s)"
  have "nl_inv ?l" using assms(2) [OF 4] nodes_ok_inv by (auto simp: srv_inv_def)
  then have "set (env_stable e ?l) = dom (stable ?l)" using assms(1) by (simp add: valid_env_def)
  moreover have "nodeManager_All 1 ordS ordP (sw_nodes s) = List.map_filter (stable ?l) ordS" for ordS ordP
    using Range_stable_collect [of id ?l ordS "[]"]
    by (simp add: nodeManager_All_def nodeList_Range_def NodeType_Is_def option.map_id)
  ultimately show ?thesis
    using 4 6 by (force simp: GetKnownNodes_def familyNodes_def Let_def set_map_filter_eq)
qed

end
