(* ===== verification/Tcp_Client.thy ===== *)
theory Tcp_Client
  imports Packet_Codec
begin

text \<open>
  \<open>internal/wire/tcp_control_client.go\<close>: a TCP connection that carries frames. The connection is a
  parameter: \<open>conn\<close> gives the result of the \<open>k\<close>-th call of its \<open>Write\<close> (\<open>Inl\<close> an error, \<open>Inr\<close> the number of
  bytes taken), and a list of \<open>read_result\<close>s what its \<open>Read\<close> returns. The two channels, of
  capacity 16 and 10 in the code, are lists without a bound: a full channel makes the reader wait, with \<open>hijackMu\<close> held, so the frames listed here are those the
  reader delivers when somebody receives from the channel often enough. When nobody does, the reader stays where it is and \<open>Hijack\<close> waits for its mutex.

  The loop of \<open>Write\<close> ends only if the connection makes progress, so it is a partial function: \<open>None\<close> is
  a loop that never ends.
\<close>

subsection \<open>The client\<close>

record tcpControlClient =
  isClosed :: bool
  isHijacked :: bool
  tc_decoder :: tcpFSM
  tc_message :: "TCPPacket list"
  hijackChan :: "TCPPacket list"

text \<open>\<open>makeClient\<close> of the server creates it.\<close>

definition makeClient :: tcpControlClient where
  "makeClient = \<lparr>isClosed = False, isHijacked = False, tc_decoder = New TCPPacketDecoder, tc_message = [], hijackChan = []\<rparr>"

text \<open>\<open>None\<close> is the panic of a second \<open>Hijack\<close>.\<close>

definition Hijack :: "tcpControlClient \<Rightarrow> tcpControlClient option" where
  "Hijack c = (if isHijacked c then None else Some (c\<lparr>isHijacked := True, hijackChan := []\<rparr>))"

definition Close :: "tcpControlClient \<Rightarrow> tcpControlClient" where
  "Close c = c\<lparr>isClosed := True\<rparr>"

subsection \<open>Writing\<close>

text \<open>The result: whether all was written, and the bytes the connection has taken.\<close>

partial_function (option) Write_loop :: "(nat \<Rightarrow> byte list \<Rightarrow> unit + nat) \<Rightarrow> nat \<Rightarrow> nat \<Rightarrow> byte list \<Rightarrow> byte list \<Rightarrow> (bool \<times> byte list) option" where
  "Write_loop conn k written buf sent =
     (if written < length buf then
        (case conn k (drop written buf) of
           Inl err \<Rightarrow> Some (False, sent)
         | Inr n \<Rightarrow> Write_loop conn (k + 1) (written + n) buf (sent @ take n (drop written buf)))
      else Some (True, sent))"

definition client_Write :: "(nat \<Rightarrow> byte list \<Rightarrow> unit + nat) \<Rightarrow> TCPPacket \<Rightarrow> (bool \<times> byte list) option" where
  "client_Write conn pkt = do {
     buf \<leftarrow> TCPPacket_Encode pkt (replicate (TCPPacket_RequiredSize pkt) 0);
     Write_loop conn 0 0 buf []
   }"

subsection \<open>Reading\<close>

definition deliver :: "TCPPacket \<Rightarrow> tcpControlClient \<Rightarrow> tcpControlClient" where
  "deliver msg c = (if isHijacked c then c\<lparr>hijackChan := hijackChan c @ [msg]\<rparr> else c\<lparr>tc_message := tc_message c @ [msg]\<rparr>)"

text \<open>The bytes of one read. The first component says whether the loop goes on.\<close>

fun loop_chunk :: "byte list \<Rightarrow> tcpControlClient \<Rightarrow> (bool \<times> tcpControlClient) option" where
  "loop_chunk [] c = Some (True, c)"
| "loop_chunk (v # vs) c = do {
     (msg, err, d) \<leftarrow> Feed TCPPacketDecoder_Feed (tc_decoder c) v;
     let c = c\<lparr>tc_decoder := d\<rparr>;
     if err \<noteq> None then Some (False, Close c)
     else loop_chunk vs (case msg of None \<Rightarrow> c | Some msg \<Rightarrow> deliver msg c)
   }"

text \<open>A failed read says whether the error is \<open>net.ErrClosed\<close>.\<close>

datatype read_result = ReadChunk "byte list" | ReadError bool

fun client_loop :: "read_result list \<Rightarrow> tcpControlClient \<Rightarrow> tcpControlClient option" where
  "client_loop [] c = Some c"
| "client_loop (ReadError errClosed # rs) c = (if isClosed c \<and> errClosed then Some c else Some (Close c))"
| "client_loop (ReadChunk bs # rs) c = do {
     (go, c) \<leftarrow> loop_chunk bs c;
     if go then client_loop rs c else Some c
   }"

subsection \<open>Writing ends\<close>

text \<open>A connection makes progress when every write of something takes at least a byte of it.\<close>

definition progress :: "(nat \<Rightarrow> byte list \<Rightarrow> unit + nat) \<Rightarrow> bool" where
  "progress conn \<longleftrightarrow> (\<forall>k bs. bs \<noteq> [] \<longrightarrow> (\<exists>n. conn k bs = Inr n \<and> 0 < n \<and> n \<le> length bs))"

lemma Write_loop_ends:
  assumes "progress conn"
  shows "written \<le> length buf \<Longrightarrow> Write_loop conn k written buf (take written buf) = Some (True, buf)"
proof (induction "length buf - written" arbitrary: k written rule: less_induct)
  case less
  show ?case
  proof (cases "written < length buf")
    case True
    then have "drop written buf \<noteq> []" by simp
    then obtain n where n: "conn k (drop written buf) = Inr n" "0 < n" "n \<le> length buf - written"
      using assms unfolding progress_def by (metis length_drop)
    have "take written buf @ take n (drop written buf) = take (written + n) buf" by (simp add: take_add)
    moreover have "Write_loop conn (k + 1) (written + n) buf (take (written + n) buf) = Some (True, buf)"
      using n True less.prems by (intro less.hyps) auto
    ultimately show ?thesis using n(1) True by (subst Write_loop.simps) simp
  next
    case False
    with less.prems show ?thesis by (subst Write_loop.simps) simp
  qed
qed

text \<open>C35: writing a frame ends and sends the whole frame: on a connection that takes at least one byte
  at a time, in whatever pieces, the loop of \<open>Write\<close> terminates without an error after the
  connection has taken exactly the encoded frame, in order.\<close>

theorem Write_sends_frame:
  assumes "progress conn"
  shows "\<exists>frame. TCPPacket_Encode pkt (replicate (TCPPacket_RequiredSize pkt) 0) = Some frame
    \<and> client_Write conn pkt = Some (True, frame)"
  using Write_loop_ends [OF assms, of 0 "tcp_wire pkt" 0] by (simp add: client_Write_def tcp_enc.Encode_exact)

theorem Write_sends_frame_witness:
  "client_Write (\<lambda>k bs. Inr 1) \<lparr>t_Magic = protocolMagic, t_Version = protocolVersion, t_Payload = [5, 6]\<rparr>
   = Some (True, [202, 254, 1, 0, 0, 0, 2, 5, 6])"
  using Write_sends_frame [of "\<lambda>k bs. Inr 1" "\<lparr>t_Magic = protocolMagic, t_Version = protocolVersion, t_Payload = [5, 6]\<rparr>"]
  by (simp add: progress_def Suc_le_eq tcp_enc.Encode_exact tcp_wire_def be16_def be32_def)

subsection \<open>Reading in chunks\<close>

lemma Feed_error: "Feed F f b = Some (v, err, f') \<Longrightarrow> err = None"
  by (auto simp: Feed_def FeedStep_def Let_def split: if_splits option.splits prod.splits Option.bind_splits)

text \<open>No byte makes the decoder of frames panic, whatever its state.\<close>

definition tcp_decoding :: "tcpFSM \<Rightarrow> bool" where
  "tcp_decoding f \<longleftrightarrow> of_def TCPPacketDecoder f \<and> (case fstate f of
     tcpPacketDecoderStateMagic \<Rightarrow> pending f 2
   | tcpPacketDecoderStateVersion \<Rightarrow> pending f 1
   | tcpPacketDecoderStateSize \<Rightarrow> pending f 4
   | tcpPacketDecoderStatePayload \<Rightarrow> mustSatisfySize f)"

lemma tcp_decoding_New [simp]: "tcp_decoding (New TCPPacketDecoder)"
  by (simp add: tcp_decoding_def New_eq TCPPacketDecoder_def of_def_def pending_def)

lemma tcp_decoding_Reset [simp]: "of_def TCPPacketDecoder f \<Longrightarrow> tcp_decoding (Reset f)"
  by (simp add: tcp_decoding_def of_def_fields fsm_simps) (simp add: TCPPacketDecoder_def pending_def)

interpretation tcp_safe: safe_decoder "Feed TCPPacketDecoder_Feed" tcp_decoding tcp_decoding "\<lambda>_. True"
proof
  fix f :: tcpFSM and b :: byte
  assume inv: "tcp_decoding f"
  then have f: "of_def TCPPacketDecoder f" by (simp add: tcp_decoding_def)
  show "\<exists>v f'. Feed TCPPacketDecoder_Feed f b = Some (v, None, f') \<and> sound_out tcp_decoding tcp_decoding (\<lambda>_. True) v f'"
  proof (cases "fstate f")
    case tcpPacketDecoderStateMagic
    with inv have pend: "pending f 2" by (simp add: tcp_decoding_def)
    show ?thesis
      using tcpPacketDecoderStateMagic f pend
      by (intro safe_pending [OF pend])
        (simp_all add: FeedStep_def TCPPacketDecoder_Feed_def U16_def Uint16_def Let_def,
         simp_all add: tcp_decoding_def fsm_op_defs pending_def)
  next
    case tcpPacketDecoderStateVersion
    with inv have pend: "pending f 1" by (simp add: tcp_decoding_def)
    show ?thesis
      using tcpPacketDecoderStateVersion f pend
      by (intro safe_pending [OF pend])
        (simp_all add: FeedStep_def TCPPacketDecoder_Feed_def Let_def,
         simp_all add: tcp_decoding_def fsm_op_defs pending_def)
  next
    case tcpPacketDecoderStateSize
    with inv have pend: "pending f 4" by (simp add: tcp_decoding_def)
    show ?thesis
      using tcpPacketDecoderStateSize f pend
      by (intro safe_pending [OF pend])
        (simp_all add: FeedStep_def TCPPacketDecoder_Feed_def U32_def Uint32_def Let_def,
         simp_all add: tcp_decoding_def fsm_op_defs pending_def)
  next
    case tcpPacketDecoderStatePayload
    with inv have wait: "mustSatisfySize f" by (simp add: tcp_decoding_def)
    show ?thesis
    proof (cases "Size f = 1")
      case True
      with wait tcpPacketDecoderStatePayload f show ?thesis
        by (simp add: Feed_satisfied FeedStep_def TCPPacketDecoder_Feed_def)
    next
      case False
      with wait tcpPacketDecoderStatePayload f show ?thesis
        by (simp add: Feed_accumulate tcp_decoding_def)
    qed
  qed
qed

lemma loop_chunk_total:
  "tcp_decoding (tc_decoder c) \<Longrightarrow> \<exists>c'. loop_chunk bs c = Some (True, c') \<and> tcp_decoding (tc_decoder c')"
proof (induction bs arbitrary: c)
  case (Cons b bs)
  obtain v d where "Feed TCPPacketDecoder_Feed (tc_decoder c) b = Some (v, None, d)"
      and d: "sound_out tcp_decoding tcp_decoding (\<lambda>_. True) v d"
    using tcp_safe.safe_step [OF Cons.prems] by blast
  moreover have "tcp_decoding d" using d by (cases v) simp_all
  moreover have "tc_decoder (deliver m (c\<lparr>tc_decoder := d\<rparr>)) = d" for m by (simp add: deliver_def)
  ultimately show ?case using Cons.IH [of "c\<lparr>tc_decoder := d\<rparr>"] Cons.IH [of "deliver (the v) (c\<lparr>tc_decoder := d\<rparr>)"]
    by (cases v) auto
qed simp

definition delivered_to :: "tcpControlClient \<Rightarrow> TCPPacket list" where
  "delivered_to c = (if isHijacked c then hijackChan c else tc_message c)"

definition receive :: "TCPPacket list \<Rightarrow> tcpFSM \<Rightarrow> tcpControlClient \<Rightarrow> tcpControlClient" where
  "receive ms d c = (if isHijacked c then c\<lparr>tc_decoder := d, hijackChan := hijackChan c @ ms\<rparr>
     else c\<lparr>tc_decoder := d, tc_message := tc_message c @ ms\<rparr>)"

lemma loop_chunk_DriveAll:
  "loop_chunk bs c = map_option (\<lambda>(ms, d). (True, receive ms d c)) (DriveAll (Feed TCPPacketDecoder_Feed) (tc_decoder c) bs)"
proof (induction bs arbitrary: c)
  case Nil
  then show ?case by (simp add: receive_def)
next
  case (Cons b bs)
  show ?case
  proof (cases "Feed TCPPacketDecoder_Feed (tc_decoder c) b")
    case (Some r)
    obtain msg err d where r: "r = (msg, err, d)" by (cases r)
    have err: "err = None" using Feed_error Some r by blast
    let ?c = "c\<lparr>tc_decoder := d\<rparr>"
    have "tc_decoder (deliver m ?c) = d" for m by (simp add: deliver_def)
    moreover have "receive ms d' (deliver m ?c) = receive (m # ms) d' c" "receive ms d' ?c = receive ms d' c" for m ms d'
      by (simp_all add: receive_def deliver_def)
    ultimately show ?thesis
      using Cons [of ?c] Cons [of "deliver (the msg) ?c"] Some r err
      by (cases msg; cases "DriveAll (Feed TCPPacketDecoder_Feed) d bs") auto
  qed simp
qed

lemma DriveAll_append:
  "DriveAll S f (xs @ ys) = (case DriveAll S f xs of None \<Rightarrow> None
     | Some (vs, g) \<Rightarrow> map_option (\<lambda>(ws, h). (vs @ ws, h)) (DriveAll S g ys))"
  by (induction xs arbitrary: f) (auto simp: option.map_comp comp_def option.map_id split: option.splits prod.splits)

text \<open>Reading in chunks is reading at once.\<close>

lemma client_loop_chunks: "client_loop (map ReadChunk chunks) c = map_option snd (loop_chunk (concat chunks) c)"
proof (induction chunks arbitrary: c)
  case (Cons bs chunks)
  have "receive ws d (receive vs d' c) = receive (vs @ ws) d c" for vs ws d d' by (simp add: receive_def)
  moreover have "tc_decoder (receive vs d c) = d" for vs d by (simp add: receive_def)
  ultimately show ?case
    using Cons by (auto simp: loop_chunk_DriveAll DriveAll_append option.map_comp comp_def split_beta split: option.split)
qed simp

text \<open>C36: a client delivers the frames of its connection. However the stream of encoded frames is cut into
  reads, the reader ends without an error or a panic, having delivered exactly those frames in order, to
  the channel of \<open>Hijack\<close> when the client is hijacked and to the handler otherwise.\<close>

theorem client_delivers_frames:
  assumes "list_all wfTCP ts" and "concat chunks = concat (map tcp_wire ts)"
    and "tc_decoder c = New TCPPacketDecoder"
  shows "\<exists>c'. client_loop (map ReadChunk chunks) c = Some c' \<and> delivered_to c' = delivered_to c @ ts
    \<and> isClosed c' = isClosed c \<and> isHijacked c' = isHijacked c \<and> tc_decoder c' = New TCPPacketDecoder"
proof -
  have "DriveAll (Feed TCPPacketDecoder_Feed) (tc_decoder c) (concat chunks) = Some (ts, New TCPPacketDecoder)"
    using tcp_dec.DriveAll_concat [of "New TCPPacketDecoder" ts] assms by (auto simp: tcp_ready_def list_all_iff)
  then show ?thesis
    by (simp add: client_loop_chunks loop_chunk_DriveAll receive_def delivered_to_def)
qed

theorem client_delivers_frames_witness:
  "\<exists>c'. client_loop (map ReadChunk [[202], [254, 1, 0, 0, 0, 1, 9, 202, 254, 1, 0, 0], [0, 1], [7]]) (the (Hijack makeClient)) = Some c'
    \<and> hijackChan c' = [\<lparr>t_Magic = protocolMagic, t_Version = protocolVersion, t_Payload = [9]\<rparr>,
        \<lparr>t_Magic = protocolMagic, t_Version = protocolVersion, t_Payload = [7]\<rparr>]"
proof -
  let ?ts = "[\<lparr>t_Magic = protocolMagic, t_Version = protocolVersion, t_Payload = [9]\<rparr>,
        \<lparr>t_Magic = protocolMagic, t_Version = protocolVersion, t_Payload = [7]\<rparr>]"
  let ?c = "the (Hijack makeClient)"
  have "\<exists>c'. client_loop (map ReadChunk [[202], [254, 1, 0, 0, 0, 1, 9, 202, 254, 1, 0, 0], [0, 1], [7]]) ?c = Some c'
      \<and> delivered_to c' = delivered_to ?c @ ?ts \<and> isClosed c' = isClosed ?c \<and> isHijacked c' = isHijacked ?c
      \<and> tc_decoder c' = New TCPPacketDecoder"
    by (rule client_delivers_frames) (simp_all add: wfTCP_def tcp_wire_def be16_def be32_def Hijack_def makeClient_def)
  then show ?thesis by (auto simp: delivered_to_def Hijack_def makeClient_def simp del: client_loop.simps)
qed

end
