(* ===== verification/Multicast_Listener.thy ===== *)
theory Multicast_Listener
  imports Sockets Server_Facade Tcp_Client
begin

text \<open>
  \<open>internal/wire/multicast_listener.go\<close>: the goroutine that reads the multicast group and the one that shuts
  it down, as in \<open>Udp_Listener\<close>. The mutex \<open>listenerMu\<close> makes the store of \<open>currentListener\<close> and the
  whole end of \<open>Shutdown\<close> one step each. \<open>parseIP\<close> is \<open>net.ParseIP\<close>, an empty result being nil; the
  conversion of a shorter slice to an array panics.
\<close>

subsection \<open>State\<close>

datatype mc_pc = McTest | McMake | McStore nat | McRead nat | McError nat | McDatagram nat "byte list" NetIP
  | McBreak nat | McReturned | McPanicked

record 'd multicastCommunicator =
  m_udpAddress :: endpoint
  m_network :: string
  m_address :: string
  m_bindAddress :: string
  m_ipProto :: AddressKind
  m_sockets :: "bool list"
  m_currentListener :: "nat option"
  m_stopping :: bool
  m_delegate :: 'd
  m_pc :: mc_pc
  m_shut :: shutdown_pc

text \<open>How far \<open>makeListener\<close> gets: the socket, the raw connection, its control function, joining the group.\<close>

datatype make_result = ListenFails | SyscallConnFails | ControlFails | JoinFails | Joined

datatype mc_label = Mc_test | Mc_make make_result | Mc_store | Mc_read read_udp | Mc_error | Mc_datagram | Mc_break
  | Mc_swap | Mc_close

definition NewMulticastCommunicator :: "(string \<Rightarrow> string \<Rightarrow> string + endpoint) \<Rightarrow> string \<Rightarrow> u16 \<Rightarrow> AddressKind \<Rightarrow> 'd
    \<Rightarrow> string + 'd multicastCommunicator" where
  "NewMulticastCommunicator resolve multicastAddress multicastPort ipProto delegate =
     (let v6 = (ipProto \<noteq> AddressIPv4);
          bindAddress = hostPort v6 multicastAddress multicastPort;
          network = networkName ''udp'' v6
      in case resolve network bindAddress of Inl err \<Rightarrow> Inl err
       | Inr udpAddr \<Rightarrow> Inr \<lparr>m_udpAddress = udpAddr, m_network = network, m_address = multicastAddress, m_bindAddress = bindAddress,
           m_ipProto = ipProto, m_sockets = [], m_currentListener = None, m_stopping = False, m_delegate = delegate,
           m_pc = McTest, m_shut = ShutIdle\<rparr>)"

subsection \<open>Joining the group\<close>

definition UnixProto :: "AddressKind \<Rightarrow> int" where
  "UnixProto a = (if a = AddressIPv4 then 0 else 41)"

definition go_array :: "nat \<Rightarrow> byte list \<Rightarrow> byte list option" where
  "go_array n bs = (if length bs < n then None else Some (take n bs))"

text \<open>The address in the request to join; \<open>None\<close> is the panic of the conversion.\<close>

definition membership :: "(string \<Rightarrow> NetIP) \<Rightarrow> AddressKind \<Rightarrow> string \<Rightarrow> byte list option" where
  "membership parseIP ipProto address =
     (if UnixProto ipProto = 41 then go_array 16 (To16 (parseIP address))
      else go_array 4 (case To4 (parseIP address) of None \<Rightarrow> [] | Some bs \<Rightarrow> bs))"

text \<open>A socket that could not join the group stays open.\<close>

definition multicast_makeListener :: "(string \<Rightarrow> NetIP) \<Rightarrow> make_result \<Rightarrow> 'd multicastCommunicator \<Rightarrow> 'd multicastCommunicator" where
  "multicast_makeListener parseIP r m =
     (let opened = m\<lparr>m_sockets := m_sockets m @ [True]\<rparr>
      in case r of
        ListenFails \<Rightarrow> m\<lparr>m_pc := McTest\<rparr>
      | SyscallConnFails \<Rightarrow> opened\<lparr>m_pc := McTest\<rparr>
      | ControlFails \<Rightarrow> opened\<lparr>m_pc := McTest\<rparr>
      | _ \<Rightarrow> (case membership parseIP (m_ipProto m) (m_address m) of
           None \<Rightarrow> opened\<lparr>m_pc := McPanicked\<rparr>
         | Some grp \<Rightarrow> if r = JoinFails then opened\<lparr>m_pc := McTest\<rparr> else opened\<lparr>m_pc := McStore (length (m_sockets m))\<rparr>))"

text \<open>An address that is not an IP literal parses to nil, and the first attempt to join panics.\<close>

lemma unparsed_group_panics:
  "parseIP (m_address m) = [] \<Longrightarrow> r \<in> {JoinFails, Joined} \<Longrightarrow> m_pc (multicast_makeListener parseIP r m) = McPanicked"
  by (auto simp: multicast_makeListener_def membership_def go_array_def To16_def To4_def Let_def)

subsection \<open>Reading\<close>

text \<open>The buffer has 4094 bytes. A read from a closed socket returns the error of a closed one and nothing
  else.\<close>

definition Listen_read :: "read_udp \<Rightarrow> nat \<Rightarrow> 'd multicastCommunicator \<Rightarrow> 'd multicastCommunicator option" where
  "Listen_read r i m = (if (r = ReadErrClosed) = m_sockets m ! i then None
     else case r of ReadDatagram data source \<Rightarrow> Some (m\<lparr>m_pc := McDatagram i (take 4094 data) source\<rparr>)
      | _ \<Rightarrow> Some (m\<lparr>m_pc := McError i\<rparr>))"

definition Listen_datagram :: "Addr list \<Rightarrow> (byte list \<Rightarrow> NetIP \<Rightarrow> 'd \<Rightarrow> 'd option) \<Rightarrow> nat \<Rightarrow> byte list \<Rightarrow> NetIP
    \<Rightarrow> 'd multicastCommunicator \<Rightarrow> 'd multicastCommunicator" where
  "Listen_datagram localIPs onData i data source m =
     (if IPList_Contains localIPs (AddrFromSlice source) then m\<lparr>m_pc := McRead i\<rparr>
      else case onData data source (m_delegate m) of
        None \<Rightarrow> m\<lparr>m_pc := McPanicked\<rparr>
      | Some d \<Rightarrow> m\<lparr>m_delegate := d, m_pc := McRead i\<rparr>)"

text \<open>After the inner loop: the socket is closed, and \<open>Listen\<close> returns if it is stopping.\<close>

definition Listen_break :: "nat \<Rightarrow> 'd multicastCommunicator \<Rightarrow> 'd multicastCommunicator" where
  "Listen_break i m = m\<lparr>m_sockets := (m_sockets m)[i := False], m_pc := (if m_stopping m then McReturned else McTest)\<rparr>"

definition multicast_close :: "'d multicastCommunicator \<Rightarrow> 'd multicastCommunicator" where
  "multicast_close m = (case m_currentListener m of
     None \<Rightarrow> m\<lparr>m_shut := ShutReturned\<rparr>
   | Some i \<Rightarrow> m\<lparr>m_sockets := (m_sockets m)[i := False], m_shut := ShutReturned\<rparr>)"

fun mc_step :: "(string \<Rightarrow> NetIP) \<Rightarrow> Addr list \<Rightarrow> (byte list \<Rightarrow> NetIP \<Rightarrow> 'd \<Rightarrow> 'd option) \<Rightarrow> mc_label
    \<Rightarrow> 'd multicastCommunicator \<Rightarrow> 'd multicastCommunicator option" where
  "mc_step parseIP localIPs onData Mc_test m = (if m_pc m = McTest
     then Some (m\<lparr>m_pc := if m_stopping m then McReturned else McMake\<rparr>) else None)"
| "mc_step parseIP localIPs onData (Mc_make r) m = (if m_pc m = McMake then Some (multicast_makeListener parseIP r m) else None)"
| "mc_step parseIP localIPs onData Mc_store m = (case m_pc m of
     McStore i \<Rightarrow> Some (m\<lparr>m_currentListener := Some i, m_pc := McRead i\<rparr>) | _ \<Rightarrow> None)"
| "mc_step parseIP localIPs onData (Mc_read r) m = (case m_pc m of McRead i \<Rightarrow> Listen_read r i m | _ \<Rightarrow> None)"
| "mc_step parseIP localIPs onData Mc_error m = (case m_pc m of
     McError i \<Rightarrow> Some (m\<lparr>m_pc := if m_stopping m then McBreak i else McRead i\<rparr>) | _ \<Rightarrow> None)"
| "mc_step parseIP localIPs onData Mc_datagram m = (case m_pc m of
     McDatagram i data source \<Rightarrow> Some (Listen_datagram localIPs onData i data source m) | _ \<Rightarrow> None)"
| "mc_step parseIP localIPs onData Mc_break m = (case m_pc m of McBreak i \<Rightarrow> Some (Listen_break i m) | _ \<Rightarrow> None)"
| "mc_step parseIP localIPs onData Mc_swap m = Some (if m_stopping m then m else m\<lparr>m_stopping := True, m_shut := ShutListener\<rparr>)"
| "mc_step parseIP localIPs onData Mc_close m = (if m_shut m = ShutListener then Some (multicast_close m) else None)"

subsection \<open>Writing\<close>

text \<open>A connection of its own for each message, in the loop of the TCP client. The result: whether there
  was no error, and the bytes written; \<open>None\<close> if the loop does not end.\<close>

definition multicast_Write :: "bool \<Rightarrow> (nat \<Rightarrow> byte list \<Rightarrow> unit + nat) \<Rightarrow> bool \<Rightarrow> byte list \<Rightarrow> (bool \<times> byte list) option" where
  "multicast_Write dialled conn closes data =
     (if \<not> dialled then Some (False, [])
      else do { (ok, sent) \<leftarrow> Write_loop conn 0 0 data []; Some (ok \<and> closes, sent) })"

lemma multicast_Write_sends: "progress conn \<Longrightarrow> multicast_Write True conn True data = Some (True, data)"
  using Write_loop_ends [of conn 0 data 0] by (simp add: multicast_Write_def)

subsection \<open>The invariant\<close>

definition mc_listens :: "mc_label \<Rightarrow> bool" where
  "mc_listens l \<longleftrightarrow> l \<notin> {Mc_swap, Mc_close}"

fun mc_rank :: "mc_pc \<Rightarrow> nat" where
  "mc_rank (McBreak i) = 1"
| "mc_rank (McError i) = 2"
| "mc_rank (McRead i) = 3"
| "mc_rank (McDatagram i data source) = 4"
| "mc_rank _ = 0"

lemma mc_rank_le: "mc_rank pc \<le> 4"
  by (cases pc) simp_all

text \<open>\<open>Listen\<close> reads from the current listener, and it leaves the inner loop only to return: it has one
  listener in its life.\<close>

fun mc_at :: "mc_pc \<Rightarrow> nat option \<Rightarrow> bool list \<Rightarrow> bool \<Rightarrow> bool" where
  "mc_at (McStore i) listener socks stopping \<longleftrightarrow> listener = None \<and> i < length socks"
| "mc_at (McRead i) listener socks stopping \<longleftrightarrow> listener = Some i \<and> i < length socks"
| "mc_at (McError i) listener socks stopping \<longleftrightarrow> listener = Some i \<and> i < length socks"
| "mc_at (McDatagram i data source) listener socks stopping \<longleftrightarrow> listener = Some i \<and> i < length socks"
| "mc_at (McBreak i) listener socks stopping \<longleftrightarrow> listener = Some i \<and> i < length socks \<and> stopping"
| "mc_at McTest listener socks stopping \<longleftrightarrow> listener = None"
| "mc_at McMake listener socks stopping \<longleftrightarrow> listener = None"
| "mc_at McReturned listener socks stopping \<longleftrightarrow> (\<forall>i. listener = Some i \<longrightarrow> i < length socks)"
| "mc_at McPanicked listener socks stopping \<longleftrightarrow> (\<forall>i. listener = Some i \<longrightarrow> i < length socks)"

definition mc_inv :: "'d multicastCommunicator \<Rightarrow> bool" where
  "mc_inv m \<longleftrightarrow> (m_shut m \<noteq> ShutIdle \<longleftrightarrow> m_stopping m)
     \<and> mc_at (m_pc m) (m_currentListener m) (m_sockets m) (m_stopping m)"

definition mc_new :: "'d multicastCommunicator \<Rightarrow> bool" where
  "mc_new m \<longleftrightarrow> m_sockets m = [] \<and> m_currentListener m = None \<and> \<not> m_stopping m \<and> m_pc m = McTest \<and> m_shut m = ShutIdle"

lemma NewMulticast_new:
  "NewMulticastCommunicator resolve address port ipProto d = Inr m \<Longrightarrow>
     mc_new m \<and> m_delegate m = d \<and> m_ipProto m = ipProto \<and> m_address m = address"
  by (auto simp: NewMulticastCommunicator_def mc_new_def Let_def split: sum.splits)

lemma mc_inv_new: "mc_new m \<Longrightarrow> mc_inv m"
  by (simp add: mc_inv_def mc_new_def)

lemmas mc_steps = multicast_makeListener_def Listen_read_def Listen_datagram_def Listen_break_def multicast_close_def Let_def

lemmas mc_splits = if_splits option.splits mc_pc.splits read_udp.splits make_result.splits

lemma mc_at_weaken: "mc_at pc listener socks stopping \<Longrightarrow> length socks' = length socks \<Longrightarrow> mc_at pc listener socks' True"
  by (cases pc) simp_all

lemma mc_step_inv:
  assumes "mc_inv m" and "mc_step parseIP localIPs onData l m = Some n"
  shows "mc_inv n"
proof (cases "l = Mc_swap \<or> l = Mc_close")
  case True
  have "mc_at (m_pc m) (m_currentListener m) (m_sockets m) (m_stopping m)" using assms(1) by (simp add: mc_inv_def)
  from mc_at_weaken [OF this] assms True show ?thesis
    by (auto simp: mc_inv_def multicast_close_def split: if_splits option.splits)
next
  case False
  with assms show ?thesis by (cases l) (auto simp: mc_inv_def mc_steps split: mc_splits)
qed

text \<open>\<open>Shutdown\<close> has found the listener and closed it.\<close>

definition mc_stopped :: "'d multicastCommunicator \<Rightarrow> bool" where
  "mc_stopped m \<longleftrightarrow> m_shut m = ShutReturned \<and> (\<exists>i. m_currentListener m = Some i \<and> \<not> m_sockets m ! i)"

interpretation mc: stoppable "fires (mc_step parseIP localIPs onData)" mc_inv mc_listens mc_stopped
  "\<lambda>m. m_pc m \<in> {McReturned, McPanicked}" "\<lambda>m. mc_rank (m_pc m)" for parseIP localIPs onData
proof
  fix m n :: "'a multicastCommunicator" and l
  assume inv: "mc_inv m"
  show "mc_inv n" if "mc_step parseIP localIPs onData l m = Some n"
    using inv that by (rule mc_step_inv)
  assume "mc_stopped m"
  then obtain i where i: "m_shut m = ShutReturned" "m_currentListener m = Some i" "\<not> m_sockets m ! i"
    by (auto simp: mc_stopped_def)
  with inv have pc: "mc_at (m_pc m) (Some i) (m_sockets m) True" and st: "m_stopping m" by (auto simp: mc_inv_def)
  show "mc_stopped n" if "mc_step parseIP localIPs onData l m = Some n"
    using that i pc st by (cases l) (auto simp: mc_stopped_def mc_steps nth_list_update split: mc_splits)
  show "mc_rank (m_pc n) < mc_rank (m_pc m)" if "mc_listens l" "mc_step parseIP localIPs onData l m = Some n"
    using that i pc st by (cases l) (auto simp: mc_listens_def mc_steps split: mc_splits)
  show "mc_rank (m_pc n) \<le> mc_rank (m_pc m)" if "\<not> mc_listens l" "mc_step parseIP localIPs onData l m = Some n"
    using that i st by (cases l) (auto simp: mc_listens_def)
  show "\<exists>l n. mc_listens l \<and> mc_step parseIP localIPs onData l m = Some n" if "m_pc m \<notin> {McReturned, McPanicked}"
  proof -
    let ?l = "case m_pc m of McRead i \<Rightarrow> Mc_read ReadErrClosed | McError i \<Rightarrow> Mc_error | McBreak i \<Rightarrow> Mc_break | _ \<Rightarrow> Mc_datagram"
    have "mc_listens ?l" by (simp add: mc_listens_def split: mc_pc.split)
    moreover have "mc_step parseIP localIPs onData ?l m \<noteq> None"
      using that pc i(3) by (cases "m_pc m") (simp_all add: Listen_read_def)
    ultimately show ?thesis by blast
  qed
qed

subsection \<open>Properties\<close>

text \<open>\<open>Shutdown\<close> stops \<open>Listen\<close> once it listens. If \<open>Shutdown\<close> takes the mutex after \<open>Listen\<close> has stored its
  listener, then in every interleaving \<open>Listen\<close> takes at most four more steps, and it is never blocked
  before it has returned (or before its delegate has panicked).\<close>

lemma multicast_Shutdown_stops_Listen:
  assumes "NewMulticastCommunicator resolve address port ipProto d = Inr m0"
    and "trace (fires (mc_step parseIP localIPs onData)) m0 ls m" and "m_currentListener m \<noteq> None"
    and "mc_step parseIP localIPs onData Mc_close m = Some n"
    and "trace (fires (mc_step parseIP localIPs onData)) n ms v"
  shows "length (filter mc_listens ms) \<le> 4
    \<and> (m_pc v \<in> {McReturned, McPanicked} \<or> (\<exists>l w. mc_listens l \<and> mc_step parseIP localIPs onData l v = Some w))"
proof -
  have "mc_inv m" using mc.trace_inv [OF assms(2)] mc_inv_new NewMulticast_new [OF assms(1)] by blast
  then have "mc_inv n" using assms(4) by (rule mc_step_inv)
  moreover obtain i where "m_currentListener m = Some i" using assms(3) by blast
  moreover have "i < length (m_sockets m)"
    using \<open>mc_inv m\<close> calculation(2) by (cases "m_pc m") (auto simp: mc_inv_def)
  ultimately have "mc_stopped n" using assms(4) by (auto simp: mc_stopped_def multicast_close_def split: if_splits)
  from mc.returns [OF \<open>mc_inv n\<close> this assms(5)] mc_rank_le [of "m_pc n"] show ?thesis by auto
qed

abbreviation exampleMulticast :: "byte list list multicastCommunicator" where
  "exampleMulticast \<equiv> \<lparr>m_udpAddress = ([239, 0, 0, 1], 7946), m_network = ''udp4'', m_address = ''239.0.0.1'',
     m_bindAddress = hostPort False ''239.0.0.1'' 7946, m_ipProto = AddressIPv4, m_sockets = [], m_currentListener = None,
     m_stopping = False, m_delegate = [], m_pc = McTest, m_shut = ShutIdle\<rparr>"

lemma exampleMulticast_new:
  "NewMulticastCommunicator (\<lambda>_ _. Inr ([239, 0, 0, 1], 7946)) ''239.0.0.1'' 7946 AddressIPv4 [] = Inr exampleMulticast"
  by (simp add: NewMulticastCommunicator_def networkName_def)

abbreviation exampleStep :: "mc_label \<Rightarrow> byte list list multicastCommunicator \<Rightarrow> byte list list multicastCommunicator option" where
  "exampleStep \<equiv> mc_step (\<lambda>_. [239, 0, 0, 1]) [] (\<lambda>data source ds. Some (ds @ [data]))"

lemma multicast_Shutdown_stops_Listen_witness:
  "\<exists>v. run exampleStep [Mc_test, Mc_make Joined, Mc_store, Mc_swap, Mc_close, Mc_read ReadErrClosed, Mc_error, Mc_break] exampleMulticast = Some v
    \<and> m_pc v = McReturned \<and> m_sockets v = [False] \<and> length (filter mc_listens [Mc_read ReadErrClosed, Mc_error, Mc_break]) \<le> 4"
proof -
  let ?m = "exampleMulticast\<lparr>m_sockets := [True], m_currentListener := Some 0, m_stopping := True, m_pc := McRead 0, m_shut := ShutListener\<rparr>"
  let ?n = "?m\<lparr>m_sockets := [False], m_shut := ShutReturned\<rparr>" and ?v = "?m\<lparr>m_sockets := [False], m_shut := ShutReturned, m_pc := McReturned\<rparr>"
  have 1: "trace (fires exampleStep) exampleMulticast [Mc_test, Mc_make Joined, Mc_store, Mc_swap] ?m"
    and 2: "trace (fires exampleStep) ?n [Mc_read ReadErrClosed, Mc_error, Mc_break] ?v"
    by (simp_all add: run_trace [symmetric] mc_steps membership_def UnixProto_def To4_def go_array_def)
  have "exampleStep Mc_close ?m = Some ?n" by (simp add: multicast_close_def)
  from multicast_Shutdown_stops_Listen [OF exampleMulticast_new 1 _ this 2]
  have "length (filter mc_listens [Mc_read ReadErrClosed, Mc_error, Mc_break]) \<le> 4" by simp
  then show ?thesis by (simp add: mc_steps membership_def UnixProto_def To4_def go_array_def)
qed

text \<open>Datagrams that arrive one after the other.\<close>

definition arrivals :: "(byte list \<times> NetIP) list \<Rightarrow> mc_label list" where
  "arrivals ds = concat (map (\<lambda>(data, source). [Mc_read (ReadDatagram data source), Mc_datagram]) ds)"

lemma arrivals_handled:
  assumes "\<forall>(data, source) \<in> set ds. \<not> IPList_Contains localIPs (AddrFromSlice source)"
    and "m_pc m = McRead i" and "m_sockets m ! i"
    and "those_handled = fold (\<lambda>(data, source) d. onData (take 4094 data) source d) ds (m_delegate m)"
  shows "run (mc_step parseIP localIPs (\<lambda>data source d. Some (onData data source d))) (arrivals ds) m
    = Some (m\<lparr>m_delegate := those_handled, m_pc := McRead i\<rparr>)"
  using assms
proof (induction ds arbitrary: m)
  case (Cons x ds)
  obtain data source where x: "x = (data, source)" by (cases x)
  with Cons.prems Cons.IH [of "m\<lparr>m_delegate := onData (take 4094 data) source (m_delegate m), m_pc := McRead i\<rparr>"] show ?case
    by (simp add: arrivals_def Listen_read_def Listen_datagram_def)
next
  case Nil
  then show ?case by (cases m) (simp add: arrivals_def)
qed

text \<open>\<open>Shutdown\<close> can miss \<open>Listen\<close>. If it runs between the test of \<open>stopping\<close> and the store of the
  listener, it returns without closing anything, and \<open>Listen\<close>, which looks at \<open>stopping\<close> only when a read fails,
  goes on to handle every datagram that arrives from another host, for ever: after \<open>Shutdown\<close> has returned, any
  sequence of datagrams is handled and the listener is back at its read.\<close>

lemma multicast_Shutdown_missed:
  assumes "NewMulticastCommunicator resolve address port ipProto d = Inr m0"
    and "membership parseIP ipProto address \<noteq> None"
    and "\<forall>(data, source) \<in> set ds. \<not> IPList_Contains localIPs (AddrFromSlice source)"
  shows "\<exists>m v. run (mc_step parseIP localIPs (\<lambda>data source d. Some (onData data source d))) [Mc_test, Mc_swap, Mc_close] m0 = Some m
    \<and> m_shut m = ShutReturned
    \<and> run (mc_step parseIP localIPs (\<lambda>data source d. Some (onData data source d))) ([Mc_make Joined, Mc_store] @ arrivals ds) m = Some v
    \<and> m_delegate v = fold (\<lambda>(data, source) d. onData (take 4094 data) source d) ds d \<and> m_pc v = McRead 0 \<and> m_sockets v = [True]"
proof -
  let ?step = "mc_step parseIP localIPs (\<lambda>data source d. Some (onData data source d))"
  let ?m = "m0\<lparr>m_stopping := True, m_pc := McMake, m_shut := ShutReturned\<rparr>"
  let ?w = "?m\<lparr>m_sockets := [True], m_currentListener := Some 0, m_pc := McRead 0\<rparr>"
  note new = NewMulticast_new [OF assms(1), unfolded mc_new_def]
  have "run ?step [Mc_test, Mc_swap, Mc_close] m0 = Some ?m" using new by (simp add: multicast_close_def)
  moreover have "run ?step [Mc_make Joined, Mc_store] ?m = Some ?w"
    using new assms(2) by (auto simp: multicast_makeListener_def)
  moreover have "run ?step (arrivals ds) ?w = Some (?w\<lparr>m_delegate := fold (\<lambda>(data, source) d. onData (take 4094 data) source d) ds (m_delegate ?w), m_pc := McRead 0\<rparr>)"
    using assms(3) by (intro arrivals_handled [where i = 0]) simp_all
  ultimately show ?thesis using new unfolding run_append by fastforce
qed

theorem multicast_Shutdown_missed_witness:
  "\<exists>m v. run exampleStep [Mc_test, Mc_swap, Mc_close] exampleMulticast = Some m \<and> m_shut m = ShutReturned
    \<and> run exampleStep ([Mc_make Joined, Mc_store] @ arrivals [([1, 2], [10, 0, 0, 2]), ([3], [10, 0, 0, 3])]) m = Some v
    \<and> m_delegate v = [[1, 2], [3]]"
proof -
  have group: "membership (\<lambda>_. [239, 0, 0, 1]) AddressIPv4 ''239.0.0.1'' \<noteq> None"
    by (simp add: membership_def UnixProto_def To4_def go_array_def)
  have foreign: "\<forall>(data, source) \<in> set [([1, 2], [10, 0, 0, 2]), ([3], [10, 0, 0, 3])]. \<not> IPList_Contains [] (AddrFromSlice source)"
    by (simp add: IPList_Contains_def IsLoopback_def IsLinkLocalMulticast_def IsLinkLocalUnicast_def unmap_def AddrFromSlice_def)
  obtain m v where "run exampleStep [Mc_test, Mc_swap, Mc_close] exampleMulticast = Some m" "m_shut m = ShutReturned"
      "run exampleStep ([Mc_make Joined, Mc_store] @ arrivals [([1, 2], [10, 0, 0, 2]), ([3], [10, 0, 0, 3])]) m = Some v"
      and v: "m_delegate v = fold (\<lambda>(data, source :: NetIP) ds. ds @ [take 4094 data]) [([1, 2], [10, 0, 0, 2]), ([3], [10, 0, 0, 3])] []"
    using multicast_Shutdown_missed [OF exampleMulticast_new group foreign, of "\<lambda>data source ds. ds @ [data]"] by blast
  moreover from v have "m_delegate v = [[1, 2], [3]]" by simp
  ultimately show ?thesis by blast
qed

end
