(* ===== verification/Tcp_Listener.thy ===== *)
theory Tcp_Listener
  imports Sockets Tcp_Client
begin

text \<open>
  \<open>internal/wire/tcp_control_server.go\<close> and the goroutine \<open>serve\<close> of \<open>tcp_control_client.go\<close>: the loop that accepts
  connections, the goroutines of each client, and the callers of \<open>Shutdown\<close>, which wait on the
  \<open>WaitGroup\<close> \<open>clients\<close>. \<open>Start\<close> may be called again after \<open>Shutdown\<close>, so that there is a list of accepting loops
  and one of callers that wait; a call of \<open>Shutdown\<close> that finds the server not running returns at once.

  The operating system decides what \<open>Accept\<close> and \<open>Read\<close> return: on a closed listener \<open>net.ErrClosed\<close> and nothing
  else. A failed \<open>Accept\<close> returns a nil connection. The delegate \<open>onPacket\<close> may close or hijack its client; \<open>None\<close> is a panic.
  A panic in any goroutine ends the process.

  The wait group is a counter: \<open>Add\<close> and \<open>Done\<close> change it in one step, \<open>Done\<close> panics below zero, and \<open>Wait\<close> returns when it is zero. The panics of a
  misuse, an \<open>Add\<close> from zero beside \<open>Wait\<close> or before a \<open>Wait\<close> that was released has returned, are not modelled: they can happen when \<open>Dial\<close> or
  \<open>makeClient\<close> adds a client just when the last one is done and \<open>Shutdown\<close> is waking up.
\<close>

subsection \<open>State\<close>

datatype accept_pc = TcpTest | TcpAccept | TcpMake bool | TcpEnded

datatype tcp_shut_pc = TcpClosing | TcpWaiting | TcpReturned

record connection =
  cn_client :: tcpControlClient
  cn_serving :: bool
  cn_reading :: bool

record 'd tcpControlServer =
  t_network :: string
  t_address :: endpoint
  t_listening :: bool
  t_running :: bool
  t_clients :: int
  t_conns :: "connection list"
  t_loops :: "accept_pc list"
  t_shuts :: "tcp_shut_pc list"
  t_delegate :: 'd
  t_panicked :: bool

datatype accept_result = AcceptConn | AcceptErrClosed | AcceptErrOther

datatype tcp_label = T_start | T_test nat | T_accept nat accept_result | T_make nat
  | T_dial | T_read nat read_result | T_serve nat | T_message nat | T_closeClient nat
  | T_swap | T_close nat | T_wait nat

definition NewTCPControlServer :: "(string \<Rightarrow> string \<Rightarrow> string + endpoint) \<Rightarrow> (string \<Rightarrow> endpoint \<Rightarrow> string option) \<Rightarrow> (IP \<Rightarrow> string)
    \<Rightarrow> IP \<Rightarrow> u16 \<Rightarrow> 'd \<Rightarrow> string + 'd tcpControlServer" where
  "NewTCPControlServer resolve listenTCP ipString address port delegate =
     (let v6 = (AddressKind address = AddressIPv6); network = networkName ''tcp'' v6
      in case resolve network (hostPort v6 (ipString address) port) of
        Inl err \<Rightarrow> Inl (''failed resolving TCP address: '' @ err)
      | Inr addr \<Rightarrow> (case listenTCP network addr of
          Some err \<Rightarrow> Inl (''failed initializing TCP listener: '' @ err)
        | None \<Rightarrow> Inr \<lparr>t_network = network, t_address = addr, t_listening = True, t_running = False, t_clients = 0, t_conns = [],
            t_loops = [], t_shuts = [], t_delegate = delegate, t_panicked = False\<rparr>))"

subsection \<open>Steps\<close>

definition server_makeClient :: "'d tcpControlServer \<Rightarrow> 'd tcpControlServer" where
  "server_makeClient t = t\<lparr>t_clients := t_clients t + 1,
     t_conns := t_conns t @ [\<lparr>cn_client = makeClient, cn_serving = True, cn_reading = True\<rparr>]\<rparr>"

definition Dial :: "(string \<Rightarrow> string \<Rightarrow> string option) \<Rightarrow> (IP \<Rightarrow> string) \<Rightarrow> IP \<Rightarrow> u16 \<Rightarrow> 'd tcpControlServer \<Rightarrow> string + 'd tcpControlServer" where
  "Dial netDial ipString addr port t =
     (case netDial (t_network t) (hostPort (AddressKind addr \<noteq> AddressIPv4) (ipString addr) port) of
        Some err \<Rightarrow> Inl err | None \<Rightarrow> Inr (server_makeClient t))"

definition TCP_Start :: "'d tcpControlServer \<Rightarrow> 'd tcpControlServer" where
  "TCP_Start t = (if t_running t then t else t\<lparr>t_running := True, t_loops := t_loops t @ [TcpTest]\<rparr>)"

text \<open>After any other error than \<open>net.ErrClosed\<close> the loop goes on to \<open>makeClient\<close> with the nil connection.\<close>

definition loop_accept :: "nat \<Rightarrow> accept_result \<Rightarrow> 'd tcpControlServer \<Rightarrow> 'd tcpControlServer option" where
  "loop_accept k r t = (if (r = AcceptErrClosed) = t_listening t then None
     else Some (t\<lparr>t_loops := (t_loops t)[k := (case r of AcceptErrClosed \<Rightarrow> TcpTest | AcceptErrOther \<Rightarrow> TcpMake False | AcceptConn \<Rightarrow> TcpMake True)]\<rparr>))"

text \<open>\<open>conn.RemoteAddr()\<close> panics on a nil connection.\<close>

definition loop_make :: "nat \<Rightarrow> bool \<Rightarrow> 'd tcpControlServer \<Rightarrow> 'd tcpControlServer" where
  "loop_make k conn t = (if \<not> conn then t\<lparr>t_panicked := True\<rparr>
     else (server_makeClient t)\<lparr>t_loops := (t_loops t)[k := TcpTest]\<rparr>)"

definition set_conn :: "nat \<Rightarrow> connection \<Rightarrow> 'd tcpControlServer \<Rightarrow> 'd tcpControlServer" where
  "set_conn k c t = t\<lparr>t_conns := (t_conns t)[k := c]\<rparr>"

text \<open>One read of a client's reader; a panic of the decoder is one of the process.\<close>

definition conn_read :: "nat \<Rightarrow> read_result \<Rightarrow> connection \<Rightarrow> 'd tcpControlServer \<Rightarrow> 'd tcpControlServer" where
  "conn_read k r c t = (case r of
     ReadError errClosed \<Rightarrow> set_conn k (c\<lparr>cn_reading := False,
       cn_client := if isClosed (cn_client c) \<and> errClosed then cn_client c else Close (cn_client c)\<rparr>) t
   | ReadChunk bs \<Rightarrow> (case loop_chunk bs (cn_client c) of
       None \<Rightarrow> t\<lparr>t_panicked := True\<rparr>
     | Some (go, client) \<Rightarrow> set_conn k (c\<lparr>cn_reading := go, cn_client := client\<rparr>) t))"

text \<open>\<open>serve\<close> returns once the client is closed; \<open>Done\<close> panics where the counter would be negative.\<close>

definition serve_return :: "nat \<Rightarrow> connection \<Rightarrow> 'd tcpControlServer \<Rightarrow> 'd tcpControlServer" where
  "serve_return k c t = (set_conn k (c\<lparr>cn_serving := False\<rparr>) t)\<lparr>t_clients := t_clients t - 1, t_panicked := t_clients t - 1 < 0\<rparr>"

definition serve_message :: "(TCPPacket \<Rightarrow> tcpControlClient \<Rightarrow> 'd \<Rightarrow> (tcpControlClient \<times> 'd) option) \<Rightarrow> nat \<Rightarrow> connection
    \<Rightarrow> 'd tcpControlServer \<Rightarrow> 'd tcpControlServer option" where
  "serve_message onPacket k c t = (case tc_message (cn_client c) of [] \<Rightarrow> None
     | msg # rest \<Rightarrow> (case onPacket msg ((cn_client c)\<lparr>tc_message := rest\<rparr>) (t_delegate t) of
         None \<Rightarrow> Some (t\<lparr>t_panicked := True\<rparr>)
       | Some (client, d) \<Rightarrow> Some ((set_conn k (c\<lparr>cn_client := client\<rparr>) t)\<lparr>t_delegate := d\<rparr>)))"

definition TCP_Shutdown_close :: "nat \<Rightarrow> 'd tcpControlServer \<Rightarrow> 'd tcpControlServer" where
  "TCP_Shutdown_close j t = t\<lparr>t_listening := False, t_shuts := (t_shuts t)[j := if t_listening t then TcpWaiting else TcpReturned]\<rparr>"

abbreviation at :: "'a list \<Rightarrow> nat \<Rightarrow> 'a \<Rightarrow> bool" where
  "at xs k x \<equiv> k < length xs \<and> xs ! k = x"

fun tcp_move :: "(TCPPacket \<Rightarrow> tcpControlClient \<Rightarrow> 'd \<Rightarrow> (tcpControlClient \<times> 'd) option) \<Rightarrow> tcp_label
    \<Rightarrow> 'd tcpControlServer \<Rightarrow> 'd tcpControlServer option" where
  "tcp_move onPacket T_start t = Some (TCP_Start t)"
| "tcp_move onPacket (T_test k) t = (if at (t_loops t) k TcpTest
     then Some (t\<lparr>t_loops := (t_loops t)[k := if t_running t then TcpAccept else TcpEnded]\<rparr>) else None)"
| "tcp_move onPacket (T_accept k r) t = (if at (t_loops t) k TcpAccept then loop_accept k r t else None)"
| "tcp_move onPacket (T_make k) t = (if at (t_loops t) k (TcpMake True) then Some (loop_make k True t)
     else if at (t_loops t) k (TcpMake False) then Some (loop_make k False t) else None)"
| "tcp_move onPacket T_dial t = Some (server_makeClient t)"
| "tcp_move onPacket (T_read k r) t = (if k < length (t_conns t) \<and> cn_reading (t_conns t ! k)
     then Some (conn_read k r (t_conns t ! k) t) else None)"
| "tcp_move onPacket (T_serve k) t = (if k < length (t_conns t) \<and> cn_serving (t_conns t ! k) \<and> isClosed (cn_client (t_conns t ! k))
     then Some (serve_return k (t_conns t ! k) t) else None)"
| "tcp_move onPacket (T_message k) t = (if k < length (t_conns t) \<and> cn_serving (t_conns t ! k)
     then serve_message onPacket k (t_conns t ! k) t else None)"
| "tcp_move onPacket (T_closeClient k) t = (if k < length (t_conns t)
     then Some (set_conn k ((t_conns t ! k)\<lparr>cn_client := Close (cn_client (t_conns t ! k))\<rparr>) t) else None)"
| "tcp_move onPacket T_swap t = Some (if t_running t then t\<lparr>t_running := False, t_shuts := t_shuts t @ [TcpClosing]\<rparr> else t)"
| "tcp_move onPacket (T_close j) t = (if at (t_shuts t) j TcpClosing then Some (TCP_Shutdown_close j t) else None)"
| "tcp_move onPacket (T_wait j) t = (if at (t_shuts t) j TcpWaiting \<and> t_clients t = 0
     then Some (t\<lparr>t_shuts := (t_shuts t)[j := TcpReturned]\<rparr>) else None)"

definition tcp_step :: "(TCPPacket \<Rightarrow> tcpControlClient \<Rightarrow> 'd \<Rightarrow> (tcpControlClient \<times> 'd) option) \<Rightarrow> tcp_label
    \<Rightarrow> 'd tcpControlServer \<Rightarrow> 'd tcpControlServer option" where
  "tcp_step onPacket l t = (if t_panicked t then None else tcp_move onPacket l t)"

subsection \<open>The wait group counts the clients\<close>

definition serving :: "'d tcpControlServer \<Rightarrow> nat" where
  "serving t = length (filter cn_serving (t_conns t))"

definition tcp_inv :: "'d tcpControlServer \<Rightarrow> bool" where
  "tcp_inv t \<longleftrightarrow> t_clients t = int (serving t)"

lemma filter_update_same: "k < length xs \<Longrightarrow> P x = P (xs ! k) \<Longrightarrow> length (filter P (xs[k := x])) = length (filter P xs)"
  by (induction xs arbitrary: k) (auto simp: nth_Cons split: nat.split)

lemma filter_update_less: "k < length xs \<Longrightarrow> P (xs ! k) \<Longrightarrow> \<not> P x \<Longrightarrow> Suc (length (filter P (xs[k := x]))) = length (filter P xs)"
  by (induction xs arbitrary: k) (auto simp: nth_Cons split: nat.split)

lemmas tcp_moves = TCP_Start_def loop_accept_def loop_make_def server_makeClient_def set_conn_def conn_read_def serve_return_def
  serve_message_def TCP_Shutdown_close_def

lemmas tcp_splits = if_splits option.splits prod.splits read_result.splits list.splits accept_result.splits

lemma tcp_move_inv:
  assumes "tcp_inv t" and "tcp_move onPacket l t = Some u"
  shows "tcp_inv u"
proof (cases "\<exists>k. l = T_serve k")
  case True
  then obtain k where k: "l = T_serve k" by blast
  let ?c = "(t_conns t ! k)\<lparr>cn_serving := False\<rparr>"
  have "k < length (t_conns t)" "cn_serving (t_conns t ! k)" and u: "u = serve_return k (t_conns t ! k) t"
    using assms(2) k by (simp_all split: if_splits)
  then have "Suc (length (filter cn_serving ((t_conns t)[k := ?c]))) = length (filter cn_serving (t_conns t))"
    by (intro filter_update_less) simp_all
  with assms(1) show ?thesis by (simp add: u tcp_inv_def serving_def serve_return_def set_conn_def)
next
  case False
  with assms show ?thesis
    by (cases l) (auto simp: tcp_inv_def serving_def tcp_moves filter_update_same split: tcp_splits)
qed

lemma tcp_step_inv: "tcp_inv t \<Longrightarrow> tcp_step onPacket l t = Some u \<Longrightarrow> tcp_inv u"
  by (auto simp: tcp_step_def tcp_move_inv split: if_splits)

definition tcp_new :: "'d tcpControlServer \<Rightarrow> bool" where
  "tcp_new t \<longleftrightarrow> t_conns t = [] \<and> t_clients t = 0 \<and> t_loops t = [] \<and> t_shuts t = [] \<and> \<not> t_running t \<and> t_listening t \<and> \<not> t_panicked t"

lemma NewTCP_new: "NewTCPControlServer resolve listenTCP ipString address port d = Inr t \<Longrightarrow> tcp_new t"
  by (auto simp: NewTCPControlServer_def tcp_new_def Let_def split: sum.splits option.splits)

lemma tcp_inv_new: "tcp_new t \<Longrightarrow> tcp_inv t"
  by (simp add: tcp_new_def tcp_inv_def serving_def)

lemma Dial_step:
  "Dial netDial ipString addr port t = Inr u \<Longrightarrow> \<not> t_panicked t \<Longrightarrow> tcp_step onPacket T_dial t = Some u"
  by (auto simp: Dial_def tcp_step_def split: option.splits)

interpretation tcp: invariant "fires (tcp_step onPacket)" tcp_inv for onPacket
  by unfold_locales (rule tcp_step_inv)

subsection \<open>Every loop ends after Shutdown\<close>

text \<open>The steps of the accepting loops, and how many each has left when the server is neither running nor
  listening.\<close>

fun accepts :: "tcp_label \<Rightarrow> bool" where
  "accepts (T_test k) = True"
| "accepts (T_accept k r) = True"
| "accepts (T_make k) = True"
| "accepts _ = False"

fun accept_rank :: "accept_pc \<Rightarrow> nat" where
  "accept_rank TcpEnded = 0"
| "accept_rank TcpTest = 1"
| "accept_rank TcpAccept = 2"
| "accept_rank (TcpMake conn) = 2"

definition tcp_rank :: "'d tcpControlServer \<Rightarrow> nat" where
  "tcp_rank t = (if t_panicked t then 0 else sum_list (map accept_rank (t_loops t)))"

lemma rank_update:
  "k < length xs \<Longrightarrow> accept_rank x < accept_rank (xs ! k)
    \<Longrightarrow> sum_list (map accept_rank (xs[k := x])) < sum_list (map accept_rank xs)"
proof (induction xs arbitrary: k)
  case (Cons y ys)
  then show ?case by (cases k) auto
qed simp

lemma rank_positive: "at xs k x \<Longrightarrow> 0 < accept_rank x \<Longrightarrow> 0 < sum_list (map accept_rank xs)"
  using rank_update [of k xs TcpEnded] by auto

interpretation tcp_loops: stoppable "\<lambda>l t u. l \<noteq> T_start \<and> tcp_step onPacket l t = Some u" tcp_inv accepts
  "\<lambda>t. \<not> t_running t \<and> \<not> t_listening t" "\<lambda>t. t_panicked t \<or> set (t_loops t) \<subseteq> {TcpEnded}" tcp_rank for onPacket
proof
  fix t u :: "'a tcpControlServer" and l
  let ?C = "\<lambda>l t u. l \<noteq> T_start \<and> tcp_step onPacket l t = Some u"
  assume inv: "tcp_inv t"
  show "tcp_inv u" if "?C l t u"
    using inv that tcp_step_inv by blast
  assume down: "\<not> t_running t \<and> \<not> t_listening t"
  show "\<not> t_running u \<and> \<not> t_listening u" if "?C l t u"
    using that down by (cases l) (auto simp: tcp_step_def tcp_moves split: tcp_splits)
  show "tcp_rank u < tcp_rank t" if "accepts l" "?C l t u"
  proof (cases "\<exists>k. l = T_make k \<and> at (t_loops t) k (TcpMake False)")
    case True
    with that down show ?thesis by (auto simp: tcp_step_def tcp_rank_def loop_make_def intro: rank_positive split: if_splits)
  next
    case False
    with that down show ?thesis
      by (cases l) (auto simp: tcp_step_def tcp_rank_def loop_accept_def loop_make_def server_makeClient_def intro!: rank_update split: if_splits)
  qed
  show "tcp_rank u \<le> tcp_rank t" if "\<not> accepts l" "?C l t u"
    using that down by (cases l) (auto simp: tcp_step_def tcp_rank_def tcp_moves split: tcp_splits)
  show "\<exists>l u. accepts l \<and> ?C l t u" if run: "\<not> (t_panicked t \<or> set (t_loops t) \<subseteq> {TcpEnded})"
  proof -
    from run obtain x where "x \<in> set (t_loops t)" "x \<noteq> TcpEnded" by auto
    then obtain k where k: "k < length (t_loops t)" "t_loops t ! k \<noteq> TcpEnded" by (metis in_set_conv_nth)
    let ?l = "case t_loops t ! k of TcpTest \<Rightarrow> T_test k | TcpAccept \<Rightarrow> T_accept k AcceptErrClosed | _ \<Rightarrow> T_make k"
    have "tcp_step onPacket ?l t \<noteq> None"
      using k run down by (cases "t_loops t ! k") (auto simp: tcp_step_def loop_accept_def)
    moreover have "accepts ?l" "?l \<noteq> T_start" by (simp_all split: accept_pc.split)
    ultimately show ?thesis by blast
  qed
qed

lemma rank_bound: "tcp_rank t \<le> 2 * length (t_loops t)"
proof -
  have "sum_list (map accept_rank xs) \<le> 2 * length xs" for xs
  proof (induction xs)
    case (Cons x xs)
    then show ?case by (cases x) auto
  qed simp
  then show ?thesis by (simp add: tcp_rank_def)
qed

text \<open>A server that was shut down and is started again never accepts a connection.\<close>

lemma closed_never_accepts:
  assumes "tcp_step onPacket l t = Some u" and "\<not> t_listening t"
  shows "\<not> t_listening u \<and> l \<noteq> T_accept k AcceptConn"
  using assms by (cases l) (auto simp: tcp_step_def tcp_moves split: tcp_splits)

subsection \<open>Properties\<close>

lemma serving_0: "serving t = 0 \<longleftrightarrow> (\<forall>c \<in> set (t_conns t). \<not> cn_serving c)"
  by (simp add: serving_def filter_empty_conv)

text \<open>C28: \<open>Shutdown\<close> waits for the clients and for nothing else. In every reachable state the wait group counts exactly
  the clients that are served, so that \<open>Done\<close> never makes it negative; a caller of \<open>Shutdown\<close> that waits can
  return if and only if no client is served. Once the server has stopped running and listening, and
  until it is started again, each accepting loop takes at most two more steps, and none is blocked before all have ended.\<close>

theorem tcp_Shutdown_waits_for_clients:
  assumes "NewTCPControlServer resolve listenTCP ipString address port d = Inr t0"
    and "trace (fires (tcp_step onPacket)) t0 ls t" and "\<not> t_panicked t"
  shows "t_clients t = int (length (filter cn_serving (t_conns t)))
    \<and> (at (t_shuts t) j TcpWaiting \<longrightarrow> (tcp_step onPacket (T_wait j) t \<noteq> None \<longleftrightarrow> (\<forall>c \<in> set (t_conns t). \<not> cn_serving c)))
    \<and> (\<not> t_running t \<and> \<not> t_listening t \<longrightarrow> trace (\<lambda>l t u. l \<noteq> T_start \<and> tcp_step onPacket l t = Some u) t ms u \<longrightarrow>
         length (filter accepts ms) \<le> 2 * length (t_loops t)
         \<and> ((t_panicked u \<or> set (t_loops u) \<subseteq> {TcpEnded}) \<or> (\<exists>l v. accepts l \<and> l \<noteq> T_start \<and> tcp_step onPacket l u = Some v)))"
proof -
  have inv: "tcp_inv t" using tcp.trace_inv [OF assms(2)] tcp_inv_new NewTCP_new [OF assms(1)] by blast
  then have "tcp_step onPacket (T_wait j) t \<noteq> None \<longleftrightarrow> (\<forall>c \<in> set (t_conns t). \<not> cn_serving c)" if "at (t_shuts t) j TcpWaiting"
    using that assms(3) by (simp add: tcp_step_def tcp_inv_def flip: serving_0)
  moreover note tcp_loops.returns [OF inv, of onPacket ms u] rank_bound [of t]
  ultimately show ?thesis using inv by (fastforce simp: tcp_inv_def serving_def)
qed

text \<open>The delegate leaves the decoder of its client alone, and the decoders decode.\<close>

definition keeps_decoder :: "(TCPPacket \<Rightarrow> tcpControlClient \<Rightarrow> 'd \<Rightarrow> (tcpControlClient \<times> 'd) option) \<Rightarrow> bool" where
  "keeps_decoder onPacket \<longleftrightarrow> (\<forall>msg c d c' d'. onPacket msg c d = Some (c', d') \<longrightarrow> tc_decoder c' = tc_decoder c)"

definition decoding :: "'d tcpControlServer \<Rightarrow> bool" where
  "decoding t \<longleftrightarrow> (\<forall>c \<in> set (t_conns t). tcp_decoding (tc_decoder (cn_client c)))"

lemma decoding_nth: "decoding t \<Longrightarrow> k < length (t_conns t) \<Longrightarrow> tcp_decoding (tc_decoder (cn_client (t_conns t ! k)))"
  by (simp add: decoding_def)

lemma decoding_set_conn: "decoding t \<Longrightarrow> tcp_decoding (tc_decoder (cn_client c)) \<Longrightarrow> decoding (set_conn k c t)"
  using set_update_subset_insert [of "t_conns t" k c] by (auto simp: decoding_def set_conn_def)

lemma decoding_cong: "t_conns u = t_conns t \<Longrightarrow> decoding u = decoding t"
  by (simp add: decoding_def)

lemma read_move:
  assumes "decoding t" and "tcp_move onPacket (T_read k r) t = Some u"
  shows "\<exists>c. u = set_conn k c t \<and> tcp_decoding (tc_decoder (cn_client c))"
proof -
  have k: "k < length (t_conns t)" and u: "u = conn_read k r (t_conns t ! k) t" using assms(2) by (simp_all split: if_splits)
  show ?thesis
  proof (cases r)
    case (ReadChunk bs)
    obtain c' where "loop_chunk bs (cn_client (t_conns t ! k)) = Some (True, c')" "tcp_decoding (tc_decoder c')"
      using loop_chunk_total decoding_nth [OF assms(1) k] by blast
    with ReadChunk u show ?thesis by (intro exI [of _ "(t_conns t ! k)\<lparr>cn_reading := True, cn_client := c'\<rparr>"]) (simp add: conn_read_def)
  next
    case (ReadError errClosed)
    let ?c = "cn_client (t_conns t ! k)"
    from ReadError u decoding_nth [OF assms(1) k] show ?thesis
      by (intro exI [of _ "(t_conns t ! k)\<lparr>cn_reading := False, cn_client := if isClosed ?c \<and> errClosed then ?c else Close ?c\<rparr>"])
        (simp add: conn_read_def Close_def)
  qed
qed

lemma decoding_step:
  assumes "keeps_decoder onPacket" and dec: "decoding t" and step: "tcp_step onPacket l t = Some u"
  shows "decoding u"
proof -
  have move: "tcp_move onPacket l t = Some u" using step by (simp add: tcp_step_def split: if_splits)
  have new: "decoding (server_makeClient t)" using dec by (auto simp: decoding_def server_makeClient_def makeClient_def)
  note nth = decoding_nth [OF dec]
  show ?thesis
  proof (cases l)
    case (T_read k r)
    with move read_move [OF dec, of onPacket k r u] decoding_set_conn [OF dec] show ?thesis by auto
  next
    case (T_message k)
    have keeps: "tcp_decoding (tc_decoder c)"
      if "onPacket msg ((cn_client (t_conns t ! k))\<lparr>tc_message := rest\<rparr>) d = Some (c, d')" "k < length (t_conns t)" for msg rest c d d'
    proof -
      have "tc_decoder c = tc_decoder ((cn_client (t_conns t ! k))\<lparr>tc_message := rest\<rparr>)"
        using assms(1) that(1) unfolding keeps_decoder_def by blast
      with nth [OF that(2)] show ?thesis by simp
    qed
    from T_message move dec keeps show ?thesis
      by (fastforce simp: serve_message_def decoding_cong [of "t_delegate_update _ _"] decoding_cong [of "t_panicked_update _ _"]
          intro!: decoding_set_conn split: if_splits list.splits option.splits)
  next
    case (T_serve k)
    with move nth [of k] decoding_set_conn [OF dec, of "(t_conns t ! k)\<lparr>cn_serving := False\<rparr>" k] show ?thesis
      by (auto simp: serve_return_def decoding_def split: if_splits)
  next
    case (T_closeClient k)
    with move nth [of k] show ?thesis by (auto simp: Close_def intro!: decoding_set_conn dec split: if_splits)
  qed (use move dec new in \<open>auto simp: tcp_moves decoding_def split: if_splits\<close>)
qed

lemma decoding_trace:
  "trace (fires (tcp_step onPacket)) t0 ls t \<Longrightarrow> keeps_decoder onPacket \<Longrightarrow> decoding t0 \<Longrightarrow> decoding t"
  by (induction rule: trace.induct) (auto intro: decoding_step)

text \<open>Which steps of this layer panic. With the wait group as a counter, a step from a reachable state ends in a panic exactly if it is \<open>makeClient\<close> on
  the nil connection of a failed \<open>Accept\<close>, or the handler of a packet panics; the decoder of a client does not, and the counter does not become negative.
  (The handler of the server does panic on some packets of a peer, as \<open>Server_Properties\<close> shows, and so may the wait group when it is
  used again while \<open>Shutdown\<close> waits for it.) An \<open>Accept\<close> that fails with an error other than \<open>net.ErrClosed\<close> always
  leads to a panic, in the next step of its loop.\<close>

lemma tcp_panics_iff:
  assumes "NewTCPControlServer resolve listenTCP ipString address port d = Inr t0" and "keeps_decoder onPacket"
    and "trace (fires (tcp_step onPacket)) t0 ls t" and "tcp_step onPacket l t = Some u"
  shows "(t_panicked u \<longleftrightarrow> (\<exists>k. l = T_make k \<and> t_loops t ! k = TcpMake False)
      \<or> (\<exists>k msg rest. l = T_message k \<and> tc_message (cn_client (t_conns t ! k)) = msg # rest
           \<and> onPacket msg ((cn_client (t_conns t ! k))\<lparr>tc_message := rest\<rparr>) (t_delegate t) = None))
    \<and> (\<forall>k. l = T_accept k AcceptErrOther \<longrightarrow> (\<exists>v. tcp_step onPacket (T_make k) u = Some v \<and> t_panicked v))"
proof -
  note new = NewTCP_new [OF assms(1)]
  have dec: "decoding t" using decoding_trace [OF assms(3, 2)] new by (simp add: decoding_def tcp_new_def)
  have inv: "tcp_inv t" using tcp.trace_inv [OF assms(3)] tcp_inv_new [OF new] by blast
  have run: "\<not> t_panicked t" "tcp_move onPacket l t = Some u" using assms(4) by (simp_all add: tcp_step_def split: if_splits)
  show ?thesis
  proof (cases l)
    case (T_read k r)
    with run read_move [OF dec, of onPacket k r u] show ?thesis by (auto simp: set_conn_def simp del: tcp_move.simps)
  next
    case (T_serve k)
    with run have k: "k < length (t_conns t)" "cn_serving (t_conns t ! k)" and u: "u = serve_return k (t_conns t ! k) t"
      by (simp_all split: if_splits)
    have "0 < serving t" using k serving_0 [of t] nth_mem [of k "t_conns t"] by (metis gr0I)
    with inv T_serve show ?thesis by (simp add: u serve_return_def tcp_inv_def)
  qed (use run in \<open>auto simp: tcp_step_def tcp_moves split: tcp_splits\<close>)
qed

abbreviation exampleTCP :: "unit tcpControlServer" where
  "exampleTCP \<equiv> \<lparr>t_network = ''tcp4'', t_address = ([10, 0, 0, 1], 7946), t_listening = True, t_running = False, t_clients = 0, t_conns = [],
     t_loops = [], t_shuts = [], t_delegate = (), t_panicked = False\<rparr>"

lemma exampleTCP_new:
  "NewTCPControlServer (\<lambda>_ _. Inr ([10, 0, 0, 1], 7946)) (\<lambda>_ _. None) (\<lambda>_. ''10.0.0.1'') zeroIP 7946 () = Inr exampleTCP"
  by (simp add: NewTCPControlServer_def networkName_def)

abbreviation closing :: "TCPPacket \<Rightarrow> tcpControlClient \<Rightarrow> unit \<Rightarrow> (tcpControlClient \<times> unit) option" where
  "closing \<equiv> (\<lambda>msg c d. Some (Close c, d))"

lemma tcp_panics_iff_witness:
  "\<exists>u v. run (tcp_step closing) [T_start, T_test 0, T_accept 0 AcceptErrOther] exampleTCP = Some u \<and> \<not> t_panicked u
    \<and> tcp_step closing (T_make 0) u = Some v \<and> t_panicked v"
proof -
  let ?t = "exampleTCP\<lparr>t_running := True, t_loops := [TcpAccept]\<rparr>"
  let ?u = "exampleTCP\<lparr>t_running := True, t_loops := [TcpMake False]\<rparr>"
  have "keeps_decoder closing" by (simp add: keeps_decoder_def Close_def)
  moreover have "trace (fires (tcp_step closing)) exampleTCP [T_start, T_test 0] ?t"
    by (simp add: run_trace [symmetric] tcp_step_def TCP_Start_def)
  moreover have "tcp_step closing (T_accept 0 AcceptErrOther) ?t = Some ?u"
    by (simp add: tcp_step_def loop_accept_def)
  ultimately have "\<exists>v. tcp_step closing (T_make 0) ?u = Some v \<and> t_panicked v"
    using tcp_panics_iff [OF exampleTCP_new, of closing "[T_start, T_test 0]" ?t "T_accept 0 AcceptErrOther" ?u] by blast
  moreover have "run (tcp_step closing) [T_start, T_test 0, T_accept 0 AcceptErrOther] exampleTCP = Some ?u"
    by (simp add: tcp_step_def TCP_Start_def loop_accept_def)
  moreover have "\<not> t_panicked ?u" by simp
  ultimately show ?thesis by blast
qed

theorem tcp_Shutdown_waits_for_clients_witness:
  "\<exists>t u. run (tcp_step closing) [T_start, T_test 0, T_accept 0 AcceptConn, T_make 0, T_swap, T_close 0] exampleTCP = Some t
    \<and> tcp_step closing (T_wait 0) t = None
    \<and> run (tcp_step closing) [T_closeClient 0, T_serve 0] t = Some u \<and> tcp_step closing (T_wait 0) u \<noteq> None"
proof -
  let ?c = "\<lparr>cn_client = makeClient, cn_serving = True, cn_reading = True\<rparr>"
  let ?t = "exampleTCP\<lparr>t_listening := False, t_clients := 1, t_conns := [?c], t_loops := [TcpTest], t_shuts := [TcpWaiting]\<rparr>"
  have t: "run (tcp_step closing) [T_start, T_test 0, T_accept 0 AcceptConn, T_make 0, T_swap, T_close 0] exampleTCP = Some ?t"
    by (simp add: tcp_step_def tcp_moves)
  have "tcp_step closing (T_wait 0) ?t = None"
    using tcp_Shutdown_waits_for_clients [OF exampleTCP_new t [unfolded run_trace], where j = 0 and ms = "[]"] by (auto simp del: tcp_move.simps)
  with t show ?thesis by (simp add: tcp_step_def serve_return_def set_conn_def Close_def)
qed

end
