(* ===== verification/Run_Loop_Control.thy ===== *)
theory Run_Loop_Control
  imports Goroutines Run_Loop
begin

text \<open>
  \<open>internal/core/runloop.go\<close>: \<open>Start\<close>, \<open>Shutdown\<close>, \<open>ReceiveMessage\<close> and the goroutine \<open>loop\<close>. The work of a period is a
  parameter \<open>act\<close> on the state \<open>'d\<close> of the loop and its delegate, \<open>None\<close> for a panic; \<open>period_act\<close> is what the code
  does, from \<open>Run_Loop\<close>. \<open>Start\<close> may be called again after \<open>Shutdown\<close>, so that there is a list of loops.
  The channel \<open>incomingMessages\<close> is a list of at most ten packets: a sender waits while it is full. The channel
  \<open>done\<close> is a flag, whether it is closed: a receive from it returns once it is, and closing it twice panics.
  Timers are labels: that of the period can always fire.
\<close>

subsection \<open>State\<close>

datatype loop_pc = LoopTest | LoopStart | LoopWait | LoopEnd | LoopClose | LoopEnded

datatype loop_act = ActStart nat int | ActEvent loop_event | ActEnd

definition period_act :: "'s RunLoopDelegate \<Rightarrow> loop_act \<Rightarrow> runLoop \<times> 's \<Rightarrow> (runLoop \<times> 's) option" where
  "period_act del a = (\<lambda>(r, s). case a of
     ActStart rnd now \<Rightarrow> startPeriod del rnd now r s
   | ActEvent ev \<Rightarrow> waitPeriod del [ev] r s
   | ActEnd \<Rightarrow> endPeriod del r s)"

record 'd runLoopControl =
  rc_running :: bool
  rc_done :: bool
  rc_incoming :: "Packet list"
  rc_loops :: "loop_pc list"
  rc_waiting :: nat
  rc_delegate :: 'd
  rc_panicked :: bool

datatype rc_label = RC_Start | RC_send Packet | RC_test nat | RC_start nat nat int | RC_message nat int | RC_timeout nat | RC_timer nat
  | RC_end nat | RC_close nat | RC_Shutdown | RC_receive

definition NewRunLoopControl :: "'d \<Rightarrow> 'd runLoopControl" where
  "NewRunLoopControl d = \<lparr>rc_running = False, rc_done = False, rc_incoming = [], rc_loops = [], rc_waiting = 0, rc_delegate = d, rc_panicked = False\<rparr>"

subsection \<open>Steps\<close>

definition RunLoop_Start :: "'d runLoopControl \<Rightarrow> 'd runLoopControl" where
  "RunLoop_Start c = (if rc_running c then c else c\<lparr>rc_running := True, rc_loops := rc_loops c @ [LoopTest]\<rparr>)"

definition ReceiveMessage :: "Packet \<Rightarrow> 'd runLoopControl \<Rightarrow> 'd runLoopControl option" where
  "ReceiveMessage message c = (if length (rc_incoming c) < 10 then Some (c\<lparr>rc_incoming := rc_incoming c @ [message]\<rparr>) else None)"

text \<open>A part of a period, after which the loop \<open>k\<close> goes on at \<open>pc\<close>.\<close>

definition perform :: "(loop_act \<Rightarrow> 'd \<Rightarrow> 'd option) \<Rightarrow> nat \<Rightarrow> loop_pc \<Rightarrow> loop_act \<Rightarrow> 'd runLoopControl \<Rightarrow> 'd runLoopControl" where
  "perform act k pc a c = (case act a (rc_delegate c) of
     None \<Rightarrow> c\<lparr>rc_panicked := True\<rparr>
   | Some d \<Rightarrow> c\<lparr>rc_delegate := d, rc_loops := (rc_loops c)[k := pc]\<rparr>)"

definition loop_close :: "nat \<Rightarrow> 'd runLoopControl \<Rightarrow> 'd runLoopControl" where
  "loop_close k c = (if rc_done c then c\<lparr>rc_panicked := True\<rparr> else c\<lparr>rc_done := True, rc_loops := (rc_loops c)[k := LoopEnded]\<rparr>)"

definition loop_at :: "nat \<Rightarrow> loop_pc \<Rightarrow> 'd runLoopControl \<Rightarrow> bool" where
  "loop_at k pc c \<longleftrightarrow> k < length (rc_loops c) \<and> rc_loops c ! k = pc"

fun rc_move :: "(loop_act \<Rightarrow> 'd \<Rightarrow> 'd option) \<Rightarrow> rc_label \<Rightarrow> 'd runLoopControl \<Rightarrow> 'd runLoopControl option" where
  "rc_move act RC_Start c = Some (RunLoop_Start c)"
| "rc_move act (RC_send message) c = ReceiveMessage message c"
| "rc_move act (RC_test k) c = (if loop_at k LoopTest c
     then Some (c\<lparr>rc_loops := (rc_loops c)[k := if rc_running c then LoopStart else LoopClose]\<rparr>) else None)"
| "rc_move act (RC_start k rnd now) c = (if loop_at k LoopStart c then Some (perform act k LoopWait (ActStart rnd now) c) else None)"
| "rc_move act (RC_message k now) c = (if loop_at k LoopWait c then (case rc_incoming c of [] \<Rightarrow> None
     | pkt # rest \<Rightarrow> Some (perform act k LoopWait (ActEvent (MessageReceived now pkt)) (c\<lparr>rc_incoming := rest\<rparr>))) else None)"
| "rc_move act (RC_timeout k) c = (if loop_at k LoopWait c then Some (perform act k LoopWait (ActEvent PingTimeoutFired) c) else None)"
| "rc_move act (RC_timer k) c = (if loop_at k LoopWait c then Some (c\<lparr>rc_loops := (rc_loops c)[k := LoopEnd]\<rparr>) else None)"
| "rc_move act (RC_end k) c = (if loop_at k LoopEnd c then Some (perform act k LoopTest ActEnd c) else None)"
| "rc_move act (RC_close k) c = (if loop_at k LoopClose c then Some (loop_close k c) else None)"
| "rc_move act RC_Shutdown c = Some (c\<lparr>rc_running := False, rc_waiting := rc_waiting c + 1\<rparr>)"
| "rc_move act RC_receive c = (if rc_done c \<and> 0 < rc_waiting c then Some (c\<lparr>rc_waiting := rc_waiting c - 1\<rparr>) else None)"

definition rc_step :: "(loop_act \<Rightarrow> 'd \<Rightarrow> 'd option) \<Rightarrow> rc_label \<Rightarrow> 'd runLoopControl \<Rightarrow> 'd runLoopControl option" where
  "rc_step act l c = (if rc_panicked c then None else rc_move act l c)"

subsection \<open>The invariant\<close>

text \<open>The channel is closed exactly when a loop has ended; while the loop is not running and was not started,
  nothing is; the channel of messages stays within its capacity.\<close>

definition rc_inv :: "'d runLoopControl \<Rightarrow> bool" where
  "rc_inv c \<longleftrightarrow> (rc_done c \<longleftrightarrow> LoopEnded \<in> set (rc_loops c)) \<and> (rc_running c \<longrightarrow> rc_loops c \<noteq> []) \<and> length (rc_incoming c) \<le> 10"

lemma rc_inv_new: "rc_inv (NewRunLoopControl d)"
  by (simp add: rc_inv_def NewRunLoopControl_def)

text \<open>An update of a loop that was not ended to a program counter that is not the end.\<close>

lemma ended_update:
  assumes "k < length xs" and "xs ! k \<noteq> LoopEnded" and "pc \<noteq> LoopEnded"
  shows "LoopEnded \<in> set (xs[k := pc]) \<longleftrightarrow> LoopEnded \<in> set xs"
proof
  assume "LoopEnded \<in> set (xs[k := pc])"
  then show "LoopEnded \<in> set xs" using set_update_subset_insert [of xs k pc] assms(3) by auto
next
  assume "LoopEnded \<in> set xs"
  then obtain j where "j < length xs" "xs ! j = LoopEnded" by (auto simp: in_set_conv_nth)
  moreover from this assms(2) have "j \<noteq> k" by auto
  ultimately show "LoopEnded \<in> set (xs[k := pc])" by (metis length_list_update nth_list_update_neq nth_mem)
qed

lemmas rc_moves = RunLoop_Start_def ReceiveMessage_def perform_def loop_close_def loop_at_def

lemma rc_step_inv: "rc_inv c \<Longrightarrow> rc_step act l c = Some c' \<Longrightarrow> rc_inv c'"
  by (cases l) (auto simp: rc_inv_def rc_step_def rc_moves ended_update set_update_memI split: if_splits option.splits list.splits)

subsection \<open>Every loop ends after Shutdown\<close>

fun turns :: "rc_label \<Rightarrow> bool" where
  "turns (RC_test k) = True"
| "turns (RC_start k rnd now) = True"
| "turns (RC_timer k) = True"
| "turns (RC_end k) = True"
| "turns (RC_close k) = True"
| "turns _ = False"

fun loop_rank :: "loop_pc \<Rightarrow> nat" where
  "loop_rank LoopStart = 5"
| "loop_rank LoopWait = 4"
| "loop_rank LoopEnd = 3"
| "loop_rank LoopTest = 2"
| "loop_rank LoopClose = 1"
| "loop_rank LoopEnded = 0"

definition rc_rank :: "'d runLoopControl \<Rightarrow> nat" where
  "rc_rank c = (if rc_panicked c then 0 else sum_list (map loop_rank (rc_loops c)))"

lemma loop_rank_update:
  "k < length xs \<Longrightarrow> loop_rank pc < loop_rank (xs ! k) \<Longrightarrow> sum_list (map loop_rank (xs[k := pc])) < sum_list (map loop_rank xs)"
proof (induction xs arbitrary: k)
  case (Cons y ys)
  then show ?case by (cases k) auto
qed simp

lemma update_same: "xs ! k = x \<Longrightarrow> xs[k := x] = xs"
  by auto

lemma loop_rank_positive: "k < length xs \<Longrightarrow> xs ! k \<noteq> LoopEnded \<Longrightarrow> 0 < sum_list (map loop_rank xs)"
  using loop_rank_update [of k xs LoopEnded] by (cases "xs ! k") auto

lemma loop_rank_bound: "rc_rank c \<le> 5 * length (rc_loops c)"
proof -
  have "sum_list (map loop_rank xs) \<le> 5 * length xs" for xs
  proof (induction xs)
    case (Cons x xs)
    then show ?case by (cases x) auto
  qed simp
  then show ?thesis by (simp add: rc_rank_def)
qed

interpretation rc: invariant "fires (rc_step act)" rc_inv for act
  by unfold_locales (rule rc_step_inv)

interpretation rc_loops: stoppable "\<lambda>l c c'. l \<noteq> RC_Start \<and> rc_step act l c = Some c'" rc_inv turns
  "\<lambda>c. \<not> rc_running c" "\<lambda>c. rc_panicked c \<or> set (rc_loops c) \<subseteq> {LoopEnded}" rc_rank for act
proof
  fix c c' :: "'a runLoopControl" and l
  let ?C = "\<lambda>l c c'. l \<noteq> RC_Start \<and> rc_step act l c = Some c'"
  assume inv: "rc_inv c"
  show "rc_inv c'" if "?C l c c'"
    using inv that rc_step_inv by blast
  assume down: "\<not> rc_running c"
  show "\<not> rc_running c'" if "?C l c c'"
    using that down by (cases l) (auto simp: rc_step_def rc_moves split: if_splits option.splits list.splits)
  show "rc_rank c' < rc_rank c" if "turns l" "?C l c c'"
    using that down by (cases l) (auto simp: rc_step_def rc_rank_def rc_moves intro!: loop_rank_update intro: loop_rank_positive split: if_splits option.splits)
  show "rc_rank c' \<le> rc_rank c" if "\<not> turns l" "?C l c c'"
    using that down by (cases l) (auto simp: rc_step_def rc_rank_def rc_moves update_same split: if_splits option.splits list.splits)
  show "\<exists>l c'. turns l \<and> ?C l c c'" if run: "\<not> (rc_panicked c \<or> set (rc_loops c) \<subseteq> {LoopEnded})"
  proof -
    from run obtain x where "x \<in> set (rc_loops c)" "x \<noteq> LoopEnded" by auto
    then obtain k where k: "k < length (rc_loops c)" "rc_loops c ! k \<noteq> LoopEnded" by (metis in_set_conv_nth)
    let ?l = "case rc_loops c ! k of LoopTest \<Rightarrow> RC_test k | LoopStart \<Rightarrow> RC_start k 0 0 | LoopWait \<Rightarrow> RC_timer k
      | LoopEnd \<Rightarrow> RC_end k | _ \<Rightarrow> RC_close k"
    have "rc_step act ?l c \<noteq> None"
      using k run by (cases "rc_loops c ! k") (auto simp: rc_step_def loop_at_def)
    moreover have "turns ?l" "?l \<noteq> RC_Start" by (simp_all split: loop_pc.split)
    ultimately show ?thesis by blast
  qed
qed

lemma loops_kept:
  "trace (\<lambda>l c c'. l \<noteq> RC_Start \<and> rc_step act l c = Some c') c ls c' \<Longrightarrow> length (rc_loops c') = length (rc_loops c)"
proof (induction rule: trace.induct)
  case (trace_Cons l c c' ls c'')
  then have "length (rc_loops c') = length (rc_loops c)"
    by (cases l) (auto simp: rc_step_def rc_moves split: if_splits option.splits list.splits)
  with trace_Cons show ?case by simp
qed simp

text \<open>C30: what \<open>Shutdown\<close> of the loop waits for. After \<open>running\<close> was cleared, and until \<open>Start\<close> is called again, each loop takes at
  most five more steps besides the messages and timeouts it handles, and none is blocked before all have ended,
  when \<open>done\<close> is closed and every caller of \<open>Shutdown\<close> can return (but for panics). If the loop was never started, however, a
  caller of \<open>Shutdown\<close> can never return.\<close>

theorem runloop_Shutdown_returns:
  assumes "trace (fires (rc_step act)) (NewRunLoopControl d) ls c" and "\<not> rc_running c"
    and "trace (\<lambda>l c c'. l \<noteq> RC_Start \<and> rc_step act l c = Some c') c ms c'"
  shows "length (filter turns ms) \<le> 5 * length (rc_loops c)
    \<and> ((\<exists>l c''. turns l \<and> l \<noteq> RC_Start \<and> rc_step act l c' = Some c'') \<or> rc_panicked c'
       \<or> rc_loops c = [] \<or> (set (rc_loops c') = {LoopEnded} \<and> (0 < rc_waiting c' \<longrightarrow> rc_step act RC_receive c' \<noteq> None)))
    \<and> (rc_loops c = [] \<longrightarrow> rc_step act RC_receive c' = None)"
proof -
  have inv: "rc_inv c" using rc.trace_inv [OF assms(1) rc_inv_new] .
  have inv': "rc_inv c'" using rc_loops.still_stopped [OF assms(3) inv assms(2)] by simp
  note len = loops_kept [OF assms(3)]
  have "rc_step act RC_receive c' \<noteq> None" if "set (rc_loops c') = {LoopEnded}" "0 < rc_waiting c'" "\<not> rc_panicked c'"
    using that inv' by (simp add: rc_step_def rc_inv_def)
  moreover have "rc_step act RC_receive c' = None" if "rc_loops c = []"
    using that len inv' by (simp add: rc_step_def rc_inv_def)
  moreover have "set (rc_loops c') = {LoopEnded}" if "set (rc_loops c') \<subseteq> {LoopEnded}" "rc_loops c \<noteq> []"
    using that len by (cases "rc_loops c'") auto
  ultimately show ?thesis
    using rc_loops.returns [OF inv assms(2, 3)] loop_rank_bound [of c] by fastforce
qed

theorem runloop_Shutdown_returns_witness:
  "\<exists>c c'. run (rc_step (\<lambda>a n. Some (n + 1))) [RC_Start, RC_test 0, RC_start 0 7 0, RC_Shutdown] (NewRunLoopControl (0 :: nat)) = Some c
    \<and> run (rc_step (\<lambda>a n. Some (n + 1))) [RC_timer 0, RC_end 0, RC_test 0, RC_close 0] c = Some c'
    \<and> rc_delegate c' = 2 \<and> rc_step (\<lambda>a n. Some (n + 1)) RC_receive c' \<noteq> None"
proof -
  let ?step = "rc_step (\<lambda>a n. Some (n + 1))"
  let ?c = "(NewRunLoopControl (1 :: nat))\<lparr>rc_waiting := 1, rc_loops := [LoopWait]\<rparr>"
  let ?d = "(NewRunLoopControl (2 :: nat))\<lparr>rc_waiting := 1, rc_loops := [LoopEnded], rc_done := True\<rparr>"
  note ev = rc_step_def rc_moves NewRunLoopControl_def
  have 1: "run ?step [RC_Start, RC_test 0, RC_start 0 7 0, RC_Shutdown] (NewRunLoopControl 0) = Some ?c" by (simp add: ev)
  have 2: "run ?step [RC_timer 0, RC_end 0, RC_test 0, RC_close 0] ?c = Some ?d" by (simp add: ev)
  have 3: "trace (\<lambda>l c c'. l \<noteq> RC_Start \<and> ?step l c = Some c') ?c [RC_timer 0, RC_end 0, RC_test 0, RC_close 0] ?d"
    by (simp add: trace_Cons_iff ev)
  have none: "\<not> (\<exists>l c''. turns l \<and> l \<noteq> RC_Start \<and> ?step l ?d = Some c'')"
  proof
    assume "\<exists>l c''. turns l \<and> l \<noteq> RC_Start \<and> ?step l ?d = Some c''"
    then obtain l c'' where "turns l" "?step l ?d = Some c''" by blast
    then show False by (cases l) (auto simp: ev split: if_splits)
  qed
  have "\<not> rc_running ?c" "rc_loops ?c \<noteq> []" "\<not> rc_panicked ?d" "0 < rc_waiting ?d" by (simp_all add: NewRunLoopControl_def)
  with runloop_Shutdown_returns [OF 1 [unfolded run_trace] _ 3] none have "?step RC_receive ?d \<noteq> None" by blast
  moreover have "rc_delegate ?d = 2" by (simp add: NewRunLoopControl_def)
  ultimately show ?thesis using 1 2 by blast
qed

subsection \<open>Starting once and starting twice\<close>

text \<open>If the work of a period never panics, a loop that is started at most once does not.\<close>

lemma started_once:
  assumes "\<And>a d. I d \<Longrightarrow> \<exists>d'. act a d = Some d' \<and> I d'"
  shows "trace (fires (rc_step act)) c ls c' \<Longrightarrow> rc_inv c \<Longrightarrow> I (rc_delegate c) \<Longrightarrow> \<not> rc_panicked c
    \<Longrightarrow> length (rc_loops c) + length (filter (\<lambda>l. l = RC_Start) ls) \<le> 1 \<Longrightarrow> \<not> rc_panicked c' \<and> I (rc_delegate c')"
proof (induction rule: trace.induct)
  case (trace_Cons l c c' ls c'')
  have work: "\<not> rc_panicked (perform act k pc a b) \<and> I (rc_delegate (perform act k pc a b))"
    if "rc_delegate b = rc_delegate c" "\<not> rc_panicked b" for k pc a b
    using assms [OF trace_Cons.prems(2), of a] that by (auto simp: perform_def)
  have "\<not> rc_done c" if "loop_at k LoopClose c" for k
  proof -
    have "rc_loops c = [LoopClose]"
      using that trace_Cons.prems(4) by (cases "rc_loops c") (auto simp: loop_at_def)
    with trace_Cons.prems(1) show ?thesis by (simp add: rc_inv_def)
  qed
  then have "\<not> rc_panicked c' \<and> I (rc_delegate c')"
    using trace_Cons.hyps(1) trace_Cons.prems(2, 3) work
    by (cases l) (auto simp: rc_step_def RunLoop_Start_def ReceiveMessage_def loop_close_def split: if_splits list.splits)
  moreover have "length (rc_loops c') + length (filter (\<lambda>l. l = RC_Start) ls) \<le> 1"
    using trace_Cons.hyps(1) trace_Cons.prems(4)
    by (cases l) (auto simp: rc_step_def rc_moves split: if_splits option.splits list.splits)
  ultimately show ?case using trace_Cons.IH rc_step_inv [OF trace_Cons.prems(1) trace_Cons.hyps(1)] by blast
qed simp

context run_loop_delegate begin

lemma period_act_total: "inv (snd d) \<Longrightarrow> \<exists>d'. period_act del a d = Some d' \<and> inv (snd d')"
  using startPeriod_total [of "snd d" _ _ "fst d"] waitPeriod_total [of "snd d" _ "fst d"] endPeriod_total [of "snd d" "fst d"]
  by (cases d; cases a) (fastforce simp: period_act_def)+

end

end
