(* ===== verification/Server_Lifecycle.thy ===== *)
theory Server_Lifecycle
  imports Udp_Listener Multicast_Listener Tcp_Listener Run_Loop_Control
begin

text \<open>
  \<open>swim_server.go\<close>: what \<open>newSwimServer\<close> puts together, \<open>Start\<close> and \<open>Shutdown\<close>. A state is the system of \<open>Server_System\<close>, the state all
  components share as the delegate they call, with its three listeners, its run loop and the goroutine that has called
  \<open>Shutdown\<close>. A label is a step of one of them, or a turn of another goroutine of the system. The UDP listener sends the packets that its handler
  has for the run loop to the loop's channel of capacity ten, as the last act of the handler, and is blocked while the channel is full. \<open>Start\<close> is called at most
  once and not after \<open>Shutdown\<close>, and one goroutine calls \<open>Shutdown\<close>. A panic ends the process: nothing happens after it.
\<close>

subsection \<open>The parts put together\<close>

datatype caller_pc = CallIdle | CallTcp nat | CallMulticast | CallMulticastWait | CallUdp | CallUdpWait | CallLoop | CallLoopWait | CallReturned

text \<open>The state of the server as the delegate of its UDP listener: the system, the channel of the run loop, and what the handler is
  sending to it.\<close>

type_synonym udp_state = "system \<times> Packet list \<times> Packet list"

record lifecycle =
  lc_started :: bool
  lc_system :: system
  lc_sending :: "Packet list"
  lc_multicast :: "system multicastCommunicator"
  lc_udp :: "udp_state udpControlServer"
  lc_tcp :: "system tcpControlServer"
  lc_loop :: "system runLoopControl"
  lc_caller :: caller_pc

definition newLifecycle :: "(string \<Rightarrow> string \<Rightarrow> string + endpoint) \<Rightarrow> (string \<Rightarrow> endpoint \<Rightarrow> string option) \<Rightarrow> (IP \<Rightarrow> string)
    \<Rightarrow> string \<Rightarrow> u16 \<Rightarrow> u16 \<Rightarrow> system \<Rightarrow> string + lifecycle" where
  "newLifecycle resolve listenTCP ipString multicastAddr multicastPort swimPort y =
     (let host = hostAddress (sy_server y);
          kind = (if AddressKind host = AddressIPv6 then AddressIPv6 else AddressIPv4)
      in case NewMulticastCommunicator resolve multicastAddr multicastPort kind y of
        Inl err \<Rightarrow> Inl (''failed initializing multicast handler: '' @ err)
      | Inr mc \<Rightarrow> (case NewUDPControlServer resolve ipString host swimPort (y, [], []) of Inl err \<Rightarrow> Inl err
      | Inr udp \<Rightarrow> (case NewTCPControlServer resolve listenTCP ipString host swimPort y of Inl err \<Rightarrow> Inl err
      | Inr tcp \<Rightarrow> Inr \<lparr>lc_started = False, lc_system = y, lc_sending = [], lc_multicast = mc, lc_udp = udp, lc_tcp = tcp,
          lc_loop = NewRunLoopControl y, lc_caller = CallIdle\<rparr>)))"

subsection \<open>The system as the delegate of its parts\<close>

text \<open>The packets a handler has for the run loop, and \<open>ReceiveMessage\<close> for each of them, which waits while the channel is full.\<close>

definition loopMessages :: "swimServer \<Rightarrow> swimServer \<Rightarrow> Packet list" where
  "loopMessages s s' = List.map_filter (\<lambda>x. case x of LoopMessage pkt \<Rightarrow> Some pkt | _ \<Rightarrow> None) (drop (length (sw_effects s)) (sw_effects s'))"

fun sendAll :: "Packet list \<Rightarrow> Packet list \<Rightarrow> Packet list option" where
  "sendAll chan [] = Some chan"
| "sendAll chan (pkt # pkts) = (if length chan < 10 then sendAll (chan @ [pkt]) pkts else None)"

definition udp_delegate :: "env \<Rightarrow> byte list \<Rightarrow> NetIP \<Rightarrow> udp_state \<Rightarrow> udp_state option" where
  "udp_delegate e data source = (\<lambda>(y, chan, sending).
     map_option (\<lambda>y'. (y', chan, loopMessages (sy_server y) (sy_server y'))) (handle e (Datagram data source) y))"

definition udp_deliver :: "udp_state \<Rightarrow> udp_state option" where
  "udp_deliver = (\<lambda>(y, chan, sending). map_option (\<lambda>chan. (y, chan, [])) (sendAll chan sending))"

definition multicast_delegate :: "env \<Rightarrow> nat \<Rightarrow> byte list \<Rightarrow> NetIP \<Rightarrow> system \<Rightarrow> system option" where
  "multicast_delegate e rnd data source = handle e (Multicast rnd data source)"

definition tcp_delegate :: "env \<Rightarrow> NetIP \<Rightarrow> TCPPacket \<Rightarrow> tcpControlClient \<Rightarrow> system \<Rightarrow> (tcpControlClient \<times> system) option" where
  "tcp_delegate e source pkt c y =
     map_option (\<lambda>(ops, m, s). (if ClientClose \<in> set ops then Close c else c, y\<lparr>sy_manager := m, sy_server := s\<rparr>))
       (HandleTCPPacket e (CurrentPeriod (sy_loop y)) source pkt (sy_manager y) (sy_server y))"

fun loop_delegate :: "env \<Rightarrow> loop_act \<Rightarrow> system \<Rightarrow> system option" where
  "loop_delegate e (ActStart rnd now) y = handle e (PeriodStart rnd now) y"
| "loop_delegate e (ActEvent ev) y = handle e (PeriodEvent ev) y"
| "loop_delegate e ActEnd y = handle e PeriodEnd y"

lemma tcp_delegate_keeps: "keeps_decoder (tcp_delegate e source)"
  by (auto simp: keeps_decoder_def tcp_delegate_def Close_def)

subsection \<open>Steps\<close>

datatype lc_label = L_Start | L_multicast nat mc_label | L_udp udp_label | L_tcp NetIP tcp_label | L_loop rc_label | L_turn input | L_Shutdown

definition lc_panicked :: "lifecycle \<Rightarrow> bool" where
  "lc_panicked n \<longleftrightarrow> m_pc (lc_multicast n) = McPanicked \<or> u_pc (lc_udp n) = UPanicked \<or> t_panicked (lc_tcp n) \<or> rc_panicked (lc_loop n)"

definition swim_Start :: "lifecycle \<Rightarrow> lifecycle" where
  "swim_Start n = n\<lparr>lc_started := True, lc_tcp := TCP_Start (lc_tcp n), lc_loop := RunLoop_Start (lc_loop n)\<rparr>"

text \<open>One step of the caller of \<open>Shutdown\<close>: it enters the next of the four calls, or goes on when one has
  returned.\<close>

definition swim_Shutdown :: "env \<Rightarrow> (string \<Rightarrow> NetIP) \<Rightarrow> Addr list \<Rightarrow> lifecycle \<Rightarrow> lifecycle option" where
  "swim_Shutdown e parseIP localIPs n = (case lc_caller n of
     CallIdle \<Rightarrow> do {
       t \<leftarrow> tcp_step (tcp_delegate e []) T_swap (lc_tcp n);
       Some (n\<lparr>lc_tcp := t, lc_caller := if t_running (lc_tcp n) then CallTcp (length (t_shuts (lc_tcp n))) else CallMulticast\<rparr>) }
   | CallTcp j \<Rightarrow> if t_shuts (lc_tcp n) ! j = TcpReturned then Some (n\<lparr>lc_caller := CallMulticast\<rparr>) else None
   | CallMulticast \<Rightarrow> do {
       m \<leftarrow> mc_step parseIP localIPs (multicast_delegate e 0) Mc_swap (lc_multicast n);
       Some (n\<lparr>lc_multicast := m, lc_caller := CallMulticastWait\<rparr>) }
   | CallMulticastWait \<Rightarrow> if m_shut (lc_multicast n) = ShutReturned then Some (n\<lparr>lc_caller := CallUdp\<rparr>) else None
   | CallUdp \<Rightarrow> do {
       u \<leftarrow> udp_step (udp_delegate e) udp_deliver Shut_swap (lc_udp n);
       Some (n\<lparr>lc_udp := u, lc_caller := CallUdpWait\<rparr>) }
   | CallUdpWait \<Rightarrow> if u_shut (lc_udp n) = ShutReturned then Some (n\<lparr>lc_caller := CallLoop\<rparr>) else None
   | CallLoop \<Rightarrow> do {
       c \<leftarrow> rc_step (loop_delegate e) RC_Shutdown (lc_loop n);
       Some (n\<lparr>lc_loop := c, lc_caller := CallLoopWait\<rparr>) }
   | CallLoopWait \<Rightarrow> do {
       c \<leftarrow> rc_step (loop_delegate e) RC_receive (lc_loop n);
       Some (n\<lparr>lc_loop := c, lc_caller := CallReturned\<rparr>) }
   | CallReturned \<Rightarrow> None)"

text \<open>A part steps on the state that all share.\<close>

definition step_multicast :: "env \<Rightarrow> (string \<Rightarrow> NetIP) \<Rightarrow> Addr list \<Rightarrow> nat \<Rightarrow> mc_label \<Rightarrow> lifecycle \<Rightarrow> lifecycle option" where
  "step_multicast e parseIP localIPs rnd l n = map_option (\<lambda>m. n\<lparr>lc_multicast := m, lc_system := m_delegate m\<rparr>)
     (mc_step parseIP localIPs (multicast_delegate e rnd) l ((lc_multicast n)\<lparr>m_delegate := lc_system n\<rparr>))"

definition step_udp :: "env \<Rightarrow> udp_label \<Rightarrow> lifecycle \<Rightarrow> lifecycle option" where
  "step_udp e l n = map_option (\<lambda>u. case u_delegate u of (y, chan, sending) \<Rightarrow>
       n\<lparr>lc_udp := u, lc_system := y, lc_loop := (lc_loop n)\<lparr>rc_incoming := chan\<rparr>, lc_sending := sending\<rparr>)
     (udp_step (udp_delegate e) udp_deliver l ((lc_udp n)\<lparr>u_delegate := (lc_system n, rc_incoming (lc_loop n), lc_sending n)\<rparr>))"

definition step_tcp :: "env \<Rightarrow> NetIP \<Rightarrow> tcp_label \<Rightarrow> lifecycle \<Rightarrow> lifecycle option" where
  "step_tcp e source l n = map_option (\<lambda>t. n\<lparr>lc_tcp := t, lc_system := t_delegate t\<rparr>)
     (tcp_step (tcp_delegate e source) l ((lc_tcp n)\<lparr>t_delegate := lc_system n\<rparr>))"

definition step_loop :: "env \<Rightarrow> rc_label \<Rightarrow> lifecycle \<Rightarrow> lifecycle option" where
  "step_loop e l n = map_option (\<lambda>c. n\<lparr>lc_loop := c, lc_system := rc_delegate c\<rparr>)
     (rc_step (loop_delegate e) l ((lc_loop n)\<lparr>rc_delegate := lc_system n\<rparr>))"

text \<open>The listeners run once the server is started; the calls of \<open>Start\<close> and \<open>Shutdown\<close> of the parts are the
  server's own, and only the UDP listener sends to the run loop. The other goroutines are those of indirect pings, timers, exchanges and the bootstrap.\<close>

fun background :: "input \<Rightarrow> bool" where
  "background (IndirectPingJob rnd msg pkt) \<longleftrightarrow> True"
| "background (CallbackTimer tag) \<longleftrightarrow> True"
| "background (SyncRequestJob msg) \<longleftrightarrow> True"
| "background (ExchangeStart mode established written) \<longleftrightarrow> True"
| "background (SyncReply source reply) \<longleftrightarrow> True"
| "background (BootstrapReply target source reply) \<longleftrightarrow> True"
| "background (BootEvent ev) \<longleftrightarrow> True"
| "background _ \<longleftrightarrow> False"

fun callers_only :: "rc_label \<Rightarrow> bool" where
  "callers_only RC_Start \<longleftrightarrow> True"
| "callers_only RC_Shutdown \<longleftrightarrow> True"
| "callers_only RC_receive \<longleftrightarrow> True"
| "callers_only (RC_send pkt) \<longleftrightarrow> True"
| "callers_only _ \<longleftrightarrow> False"

fun lc_move :: "env \<Rightarrow> (string \<Rightarrow> NetIP) \<Rightarrow> Addr list \<Rightarrow> lc_label \<Rightarrow> lifecycle \<Rightarrow> lifecycle option" where
  "lc_move e parseIP localIPs L_Start n = (if lc_started n \<or> lc_caller n \<noteq> CallIdle then None else Some (swim_Start n))"
| "lc_move e parseIP localIPs (L_multicast rnd l) n = (if l = Mc_swap \<or> (mc_listens l \<and> \<not> lc_started n) then None
     else step_multicast e parseIP localIPs rnd l n)"
| "lc_move e parseIP localIPs (L_udp l) n = (if l = Shut_swap \<or> (listens l \<and> \<not> lc_started n) then None else step_udp e l n)"
| "lc_move e parseIP localIPs (L_tcp source l) n = (if l \<in> {T_start, T_swap} then None else step_tcp e source l n)"
| "lc_move e parseIP localIPs (L_loop l) n = (if callers_only l then None else step_loop e l n)"
| "lc_move e parseIP localIPs (L_turn i) n = (if lc_started n \<and> background i then map_option (\<lambda>y. n\<lparr>lc_system := y\<rparr>) (handle e i (lc_system n)) else None)"
| "lc_move e parseIP localIPs L_Shutdown n = swim_Shutdown e parseIP localIPs n"

definition lc_step :: "env \<Rightarrow> (string \<Rightarrow> NetIP) \<Rightarrow> Addr list \<Rightarrow> lc_label \<Rightarrow> lifecycle \<Rightarrow> lifecycle option" where
  "lc_step e parseIP localIPs l n = (if lc_panicked n then None else lc_move e parseIP localIPs l n)"

subsection \<open>What the parts keep\<close>

lemma mc_kept:
  "mc_step parseIP localIPs onData l m = Some n \<Longrightarrow> l \<noteq> Mc_swap \<Longrightarrow>
     m_stopping n = m_stopping m \<and> (m_shut m = ShutReturned \<longrightarrow> m_shut n = ShutReturned)"
  by (cases l) (auto simp: mc_steps split: mc_splits)

lemma udp_kept:
  "udp_step enter leave l u = Some v \<Longrightarrow> l \<noteq> Shut_swap \<Longrightarrow>
     u_stopping v = u_stopping u \<and> (u_shut u = ShutReturned \<longrightarrow> u_shut v = ShutReturned)"
  by (cases l) (auto simp: makeListener_def readLoop_read_def split: if_splits option.splits udp_pc.splits read_udp.splits shutdown_pc.splits)

lemma sendAll_length: "sendAll chan pkts = Some chan' \<Longrightarrow> length chan \<le> 10 \<Longrightarrow> length chan' \<le> 10"
  by (induction chan pkts rule: sendAll.induct) (auto split: if_splits)

lemma udp_channel:
  assumes "udp_step (udp_delegate e) udp_deliver l u = Some v" and "length (fst (snd (u_delegate u))) \<le> 10"
  shows "length (fst (snd (u_delegate v))) \<le> 10"
  using assms
  by (cases l) (auto simp: makeListener_def readLoop_read_def udp_delegate_def udp_deliver_def dest: sendAll_length
      split: if_splits option.splits udp_pc.splits read_udp.splits shutdown_pc.splits prod.splits)

text \<open>A caller that has closed the listener of the TCP server has closed it for good.\<close>

definition tcp_closed :: "'d tcpControlServer \<Rightarrow> bool" where
  "tcp_closed t \<longleftrightarrow> (\<forall>j < length (t_shuts t). t_shuts t ! j \<noteq> TcpClosing \<longrightarrow> \<not> t_listening t)"

lemma tcp_kept:
  "tcp_step onPacket l t = Some u \<Longrightarrow> l \<notin> {T_start, T_swap} \<Longrightarrow> tcp_closed t \<Longrightarrow>
     t_running u = t_running t \<and> length (t_shuts u) = length (t_shuts t) \<and> tcp_closed u \<and> (\<not> t_listening t \<longrightarrow> \<not> t_listening u)"
  by (cases l) (auto simp: tcp_step_def tcp_moves tcp_closed_def nth_list_update split: tcp_splits)

lemma rc_kept:
  "rc_step act l c = Some c' \<Longrightarrow> \<not> callers_only l \<Longrightarrow>
     rc_running c' = rc_running c \<and> length (rc_loops c') = length (rc_loops c) \<and> (rc_done c \<longrightarrow> rc_done c')"
  by (cases l) (auto simp: rc_step_def rc_moves split: if_splits option.splits list.splits)

subsection \<open>The order of Shutdown\<close>

fun stage :: "caller_pc \<Rightarrow> nat" where
  "stage CallIdle = 0"
| "stage (CallTcp j) = 1"
| "stage CallMulticast = 2"
| "stage CallMulticastWait = 3"
| "stage CallUdp = 4"
| "stage CallUdpWait = 5"
| "stage CallLoop = 6"
| "stage CallLoopWait = 7"
| "stage CallReturned = 8"

definition lc_inv :: "lifecycle \<Rightarrow> bool" where
  "lc_inv n \<longleftrightarrow>
     (m_stopping (lc_multicast n) \<longleftrightarrow> 3 \<le> stage (lc_caller n))
   \<and> (4 \<le> stage (lc_caller n) \<longrightarrow> m_shut (lc_multicast n) = ShutReturned)
   \<and> (u_stopping (lc_udp n) \<longleftrightarrow> 5 \<le> stage (lc_caller n))
   \<and> (6 \<le> stage (lc_caller n) \<longrightarrow> u_shut (lc_udp n) = ShutReturned)
   \<and> (rc_running (lc_loop n) \<longleftrightarrow> lc_started n \<and> stage (lc_caller n) < 7)
   \<and> length (rc_loops (lc_loop n)) = (if lc_started n then 1 else 0)
   \<and> (stage (lc_caller n) = 8 \<longrightarrow> rc_done (lc_loop n))
   \<and> rc_inv (lc_loop n)
   \<and> (t_running (lc_tcp n) \<longleftrightarrow> lc_started n \<and> stage (lc_caller n) = 0)
   \<and> tcp_closed (lc_tcp n)
   \<and> (\<forall>j. lc_caller n = CallTcp j \<longrightarrow> j < length (t_shuts (lc_tcp n)) \<and> lc_started n)
   \<and> (lc_started n \<and> 2 \<le> stage (lc_caller n) \<longrightarrow> \<not> t_listening (lc_tcp n))"

lemma step_udpE:
  assumes "step_udp e k n = Some n'"
  obtains u y chan sending where "udp_step (udp_delegate e) udp_deliver k ((lc_udp n)\<lparr>u_delegate := (lc_system n, rc_incoming (lc_loop n), lc_sending n)\<rparr>) = Some u"
    "u_delegate u = (y, chan, sending)" "n' = n\<lparr>lc_udp := u, lc_system := y, lc_loop := (lc_loop n)\<lparr>rc_incoming := chan\<rparr>, lc_sending := sending\<rparr>"
proof -
  obtain u where u: "udp_step (udp_delegate e) udp_deliver k ((lc_udp n)\<lparr>u_delegate := (lc_system n, rc_incoming (lc_loop n), lc_sending n)\<rparr>) = Some u"
    "n' = (case u_delegate u of (y, chan, sending) \<Rightarrow> n\<lparr>lc_udp := u, lc_system := y, lc_loop := (lc_loop n)\<lparr>rc_incoming := chan\<rparr>, lc_sending := sending\<rparr>)"
    using assms by (auto simp: step_udp_def)
  obtain y chan sending where "u_delegate u = (y, chan, sending)" by (cases "u_delegate u")
  with u that show thesis by simp
qed

lemma rc_inv_delegate: "rc_inv (c\<lparr>rc_delegate := d\<rparr>) = rc_inv c"
  by (simp add: rc_inv_def)

lemma lc_inv_part:
  assumes "lc_inv n" and "lc_move e parseIP localIPs l n = Some n'" and "l \<noteq> L_Start" and "l \<noteq> L_Shutdown"
  shows "lc_inv n'"
proof (cases l)
  case (L_multicast rnd k)
  then obtain m where m: "mc_step parseIP localIPs (multicast_delegate e rnd) k ((lc_multicast n)\<lparr>m_delegate := lc_system n\<rparr>) = Some m"
      "k \<noteq> Mc_swap" "n' = n\<lparr>lc_multicast := m, lc_system := m_delegate m\<rparr>"
    using assms(2) by (auto simp: step_multicast_def split: if_splits)
  from mc_kept [OF m(1, 2)] m(3) assms(1) show ?thesis by (simp add: lc_inv_def)
next
  case (L_udp k)
  let ?u = "(lc_udp n)\<lparr>u_delegate := (lc_system n, rc_incoming (lc_loop n), lc_sending n)\<rparr>"
  from L_udp obtain u y chan sending where u: "udp_step (udp_delegate e) udp_deliver k ?u = Some u" "k \<noteq> Shut_swap" "u_delegate u = (y, chan, sending)"
      "n' = n\<lparr>lc_udp := u, lc_system := y, lc_loop := (lc_loop n)\<lparr>rc_incoming := chan\<rparr>, lc_sending := sending\<rparr>"
    using assms(2) by (auto split: if_splits elim: step_udpE)
  have "length (fst (snd (u_delegate ?u))) \<le> 10" using assms(1) by (simp add: lc_inv_def rc_inv_def)
  with udp_channel [OF u(1)] u(3) have "length chan \<le> 10" by simp
  then have "rc_inv ((lc_loop n)\<lparr>rc_incoming := chan\<rparr>)" using assms(1) by (auto simp: lc_inv_def rc_inv_def)
  with udp_kept [OF u(1, 2)] u(4) assms(1) show ?thesis by (simp add: lc_inv_def)
next
  case (L_tcp source k)
  then obtain t where t: "tcp_step (tcp_delegate e source) k ((lc_tcp n)\<lparr>t_delegate := lc_system n\<rparr>) = Some t" "k \<notin> {T_start, T_swap}"
      "n' = n\<lparr>lc_tcp := t, lc_system := t_delegate t\<rparr>"
    using assms(2) by (auto simp: step_tcp_def split: if_splits)
  have "tcp_closed ((lc_tcp n)\<lparr>t_delegate := lc_system n\<rparr>)" using assms(1) by (simp add: lc_inv_def tcp_closed_def)
  from tcp_kept [OF t(1, 2) this] t(3) assms(1) show ?thesis by (simp add: lc_inv_def)
next
  case (L_loop k)
  then obtain c where c: "rc_step (loop_delegate e) k ((lc_loop n)\<lparr>rc_delegate := lc_system n\<rparr>) = Some c" "\<not> callers_only k"
      "n' = n\<lparr>lc_loop := c, lc_system := rc_delegate c\<rparr>"
    using assms(2) by (auto simp: step_loop_def split: if_splits)
  have "rc_inv c" using rc_step_inv [OF _ c(1)] assms(1) by (simp add: lc_inv_def rc_inv_delegate)
  with rc_kept [OF c(1, 2)] c(3) assms(1) show ?thesis by (simp add: lc_inv_def)
next
  case (L_turn i)
  then obtain y where "n' = n\<lparr>lc_system := y\<rparr>" using assms(2) by (auto split: if_splits)
  with assms(1) show ?thesis by (simp add: lc_inv_def)
qed (use assms in simp_all)

lemma lc_inv_Start:
  assumes "lc_inv n" and "lc_move e parseIP localIPs L_Start n = Some n'"
  shows "lc_inv n'"
proof -
  have n: "\<not> lc_started n" "lc_caller n = CallIdle" "n' = swim_Start n" using assms(2) by (auto split: if_splits)
  have "rc_inv (RunLoop_Start (lc_loop n))"
    using assms(1) n(1) by (auto simp: lc_inv_def rc_inv_def RunLoop_Start_def)
  with assms(1) n show ?thesis
    by (auto simp: lc_inv_def swim_Start_def TCP_Start_def RunLoop_Start_def tcp_closed_def)
qed

lemma lc_inv_Shutdown:
  assumes "lc_inv n" and "swim_Shutdown e parseIP localIPs n = Some n'"
  shows "lc_inv n'"
proof (cases "lc_caller n")
  case CallIdle
  with assms show ?thesis
    by (auto simp: lc_inv_def swim_Shutdown_def tcp_step_def tcp_closed_def nth_append split: if_splits)
next
  case (CallTcp j)
  with assms have "t_shuts (lc_tcp n) ! j = TcpReturned" "n' = n\<lparr>lc_caller := CallMulticast\<rparr>"
    by (simp_all add: swim_Shutdown_def split: if_splits)
  with assms(1) CallTcp show ?thesis by (auto simp: lc_inv_def tcp_closed_def)
next
  case CallLoop
  with assms show ?thesis by (auto simp: lc_inv_def swim_Shutdown_def rc_step_def rc_inv_def split: if_splits)
next
  case CallLoopWait
  with assms show ?thesis by (auto simp: lc_inv_def swim_Shutdown_def rc_step_def rc_inv_def split: if_splits)
qed (use assms in \<open>auto simp: lc_inv_def swim_Shutdown_def split: if_splits\<close>)

interpretation lc: invariant "fires (lc_step e parseIP localIPs)" lc_inv for e parseIP localIPs
proof
  fix n n' l
  assume inv: "lc_inv n" and step: "lc_step e parseIP localIPs l n = Some n'"
  then have move: "lc_move e parseIP localIPs l n = Some n'" by (simp add: lc_step_def split: if_splits)
  show "lc_inv n'"
    using lc_inv_part [OF inv move] lc_inv_Start [OF inv, of e parseIP localIPs n'] lc_inv_Shutdown [OF inv, of e parseIP localIPs n'] move
    by (cases "l = L_Start"; cases "l = L_Shutdown") auto
qed

lemma lc_inv_new:
  assumes "newLifecycle resolve listenTCP ipString addr mport sport y = Inr n"
  shows "lc_inv n \<and> \<not> lc_started n \<and> lc_caller n = CallIdle"
  using assms
  by (auto simp: newLifecycle_def lc_inv_def NewRunLoopControl_def rc_inv_def tcp_closed_def Let_def
      dest!: NewMulticast_new NewUDP_new NewTCP_new simp: mc_new_def udp_new_def tcp_new_def split: sum.splits)

text \<open>C27: the order of \<open>Shutdown\<close>. In every reachable state: while the caller waits for the TCP clients, the multicast and UDP
  listeners have not been told to stop and the run loop is running, so that a client that does not disconnect keeps the
  node in the cluster; when \<open>Shutdown\<close> has returned, the TCP server does not listen, the calls of \<open>Shutdown\<close> of the multicast and UDP listeners have returned
  and the run loop has ended (a multicast listener that was just created may have missed it, and the UDP listener may still be inside its handler);
  and on a server that was not started \<open>Shutdown\<close> never returns.\<close>

theorem swim_Shutdown_order:
  assumes "newLifecycle resolve listenTCP ipString addr mport sport y = Inr n0"
    and "trace (fires (lc_step e parseIP localIPs)) n0 ls n"
  shows "(lc_caller n = CallTcp j \<longrightarrow> \<not> m_stopping (lc_multicast n) \<and> \<not> u_stopping (lc_udp n) \<and> rc_running (lc_loop n))
    \<and> (lc_caller n = CallReturned \<longrightarrow> \<not> t_listening (lc_tcp n) \<and> m_shut (lc_multicast n) = ShutReturned
         \<and> u_shut (lc_udp n) = ShutReturned \<and> rc_loops (lc_loop n) = [LoopEnded])
    \<and> (\<not> lc_started n \<longrightarrow> lc_caller n \<noteq> CallReturned)"
proof -
  have inv: "lc_inv n" using lc.trace_inv [OF assms(2)] lc_inv_new [OF assms(1)] by blast
  have ended: "lc_started n \<and> rc_loops (lc_loop n) = [LoopEnded]" if "lc_caller n = CallReturned"
    using inv that by (cases "rc_loops (lc_loop n)") (auto simp: lc_inv_def rc_inv_def split: if_splits)
  show ?thesis using inv ended by (auto simp: lc_inv_def)
qed

abbreviation exampleServer :: swimServer where
  "exampleServer \<equiv> newSwimServer zeroIP xorWrapper 20 2 1000"

abbreviation exampleSystem :: system where
  "exampleSystem \<equiv> newSystem exampleServer (NewRunLoop 2000 1200 False 300)"

abbreviation exampleCalls :: "lc_label list" where
  "exampleCalls \<equiv> [L_Start, L_Shutdown, L_tcp [] (T_close 0), L_tcp [] (T_wait 0), L_Shutdown, L_Shutdown, L_multicast 0 Mc_close,
     L_Shutdown, L_Shutdown, L_udp Shut_listener, L_Shutdown, L_Shutdown, L_loop (RC_test 0), L_loop (RC_close 0), L_Shutdown]"

text \<open>A server is started and shut down, and everything goes well.\<close>

lemma orderly_Shutdown:
  assumes "newLifecycle resolve listenTCP ipString addr mport sport y = Inr n0"
  shows "\<exists>n. run (lc_step e parseIP localIPs) exampleCalls n0 = Some n \<and> lc_caller n = CallReturned"
proof -
  obtain mc udp tcp where n0: "n0 = \<lparr>lc_started = False, lc_system = y, lc_sending = [], lc_multicast = mc, lc_udp = udp, lc_tcp = tcp,
      lc_loop = NewRunLoopControl y, lc_caller = CallIdle\<rparr>"
    and new: "mc_new mc" "udp_new udp" "tcp_new tcp"
    using assms by (auto simp: newLifecycle_def Let_def dest!: NewMulticast_new NewUDP_new NewTCP_new split: sum.splits)
  note parts = lc_step_def lc_panicked_def tcp_step_def rc_step_def NewRunLoopControl_def
  let ?step = "lc_step e parseIP localIPs"
  let ?tcp = "tcp\<lparr>t_listening := False, t_shuts := [TcpReturned], t_loops := [TcpTest], t_delegate := y, t_running := False\<rparr>"
  let ?loop = "(NewRunLoopControl y)\<lparr>rc_running := True, rc_loops := [LoopTest]\<rparr>"
  let ?n1 = "n0\<lparr>lc_started := True, lc_tcp := ?tcp, lc_loop := ?loop, lc_caller := CallMulticast\<rparr>"
  let ?mc = "mc\<lparr>m_stopping := True, m_shut := ShutReturned, m_delegate := y\<rparr>"
  let ?udp = "udp\<lparr>u_stopping := True, u_shut := ShutReturned, u_delegate := (y, [], [])\<rparr>"
  let ?n2 = "?n1\<lparr>lc_multicast := ?mc, lc_udp := ?udp, lc_caller := CallLoop\<rparr>"
  have 1: "run ?step [L_Start, L_Shutdown, L_tcp [] (T_close 0), L_tcp [] (T_wait 0), L_Shutdown] n0 = Some ?n1"
    using new by (simp add: n0 parts mc_new_def udp_new_def tcp_new_def swim_Start_def swim_Shutdown_def step_tcp_def TCP_Start_def
      TCP_Shutdown_close_def RunLoop_Start_def)
  have 2: "run ?step [L_Shutdown, L_multicast 0 Mc_close, L_Shutdown, L_Shutdown, L_udp Shut_listener, L_Shutdown] ?n1 = Some ?n2"
    using new by (simp add: n0 parts mc_new_def udp_new_def tcp_new_def swim_Shutdown_def step_multicast_def step_udp_def
      multicast_close_def mc_listens_def listens_def)
  have 3: "\<exists>n. run ?step [L_Shutdown, L_loop (RC_test 0), L_loop (RC_close 0), L_Shutdown] ?n2 = Some n \<and> lc_caller n = CallReturned"
    using new by (simp add: n0 parts mc_new_def udp_new_def tcp_new_def swim_Shutdown_def step_loop_def loop_at_def loop_close_def)
  have "exampleCalls = [L_Start, L_Shutdown, L_tcp [] (T_close 0), L_tcp [] (T_wait 0), L_Shutdown]
      @ [L_Shutdown, L_multicast 0 Mc_close, L_Shutdown, L_Shutdown, L_udp Shut_listener, L_Shutdown]
      @ [L_Shutdown, L_loop (RC_test 0), L_loop (RC_close 0), L_Shutdown]" by simp
  with 1 2 3 show ?thesis by (simp only: run_append option.case)
qed

theorem swim_Shutdown_order_witness:
  "\<exists>n0 n. newLifecycle (\<lambda>_ _. Inr ([10, 0, 0, 1], 7946)) (\<lambda>_ _. None) (\<lambda>_. ''10.0.0.1'') ''239.0.0.1'' 7947 7946 exampleSystem = Inr n0
    \<and> run (lc_step (sortedEnv (\<lambda>_. None)) (\<lambda>_. [239, 0, 0, 1]) []) exampleCalls n0 = Some n
    \<and> lc_caller n = CallReturned \<and> rc_loops (lc_loop n) = [LoopEnded] \<and> \<not> t_listening (lc_tcp n)"
proof -
  obtain n0 where n0: "newLifecycle (\<lambda>_ _. Inr ([10, 0, 0, 1], 7946)) (\<lambda>_ _. None) (\<lambda>_. ''10.0.0.1'') ''239.0.0.1'' 7947 7946 exampleSystem = Inr n0"
    by (simp add: newLifecycle_def NewMulticastCommunicator_def NewUDPControlServer_def NewTCPControlServer_def Let_def)
  obtain n where n: "run (lc_step (sortedEnv (\<lambda>_. None)) (\<lambda>_. [239, 0, 0, 1]) []) exampleCalls n0 = Some n" "lc_caller n = CallReturned"
    using orderly_Shutdown [OF n0] by blast
  from swim_Shutdown_order [OF n0 n(1) [unfolded run_trace]] n n0 show ?thesis by blast
qed

text \<open>Once \<open>Shutdown\<close> has returned nobody receives from the channel of the run loop. A UDP listener that finds it full by then is inside
  its handler for ever.\<close>

definition stuck :: "lifecycle \<Rightarrow> bool" where
  "stuck n \<longleftrightarrow> lc_caller n = CallReturned \<and> rc_loops (lc_loop n) = [LoopEnded] \<and> length (rc_incoming (lc_loop n)) = 10
     \<and> lc_sending n \<noteq> [] \<and> u_pc (lc_udp n) = UInside"

lemma stuck_blocked: "stuck n \<Longrightarrow> udp_blocked udp_deliver ((lc_udp n)\<lparr>u_delegate := (lc_system n, rc_incoming (lc_loop n), lc_sending n)\<rparr>)"
  by (cases "lc_sending n") (simp_all add: stuck_def udp_blocked_def udp_deliver_def)

lemma stuck_udp:
  assumes "stuck n" and "step_udp e k n = Some n'" and "k \<noteq> Shut_swap"
  shows "stuck n'"
  using assms(2)
proof (rule step_udpE)
  fix u y chan sending
  let ?d = "(lc_system n, rc_incoming (lc_loop n), lc_sending n)"
  assume u: "udp_step (udp_delegate e) udp_deliver k ((lc_udp n)\<lparr>u_delegate := ?d\<rparr>) = Some u" "u_delegate u = (y, chan, sending)"
    "n' = n\<lparr>lc_udp := u, lc_system := y, lc_loop := (lc_loop n)\<lparr>rc_incoming := chan\<rparr>, lc_sending := sending\<rparr>"
  have "u_pc u = UInside \<and> u_delegate u = ?d"
    using u(1) assms(1, 3) stuck_blocked [OF assms(1)]
    by (cases k) (auto simp: stuck_def udp_blocked_def split: if_splits shutdown_pc.splits option.splits)
  with u(2, 3) assms(1) show "stuck n'" by (simp add: stuck_def)
qed

lemma stuck_step: "stuck n \<Longrightarrow> lc_step e parseIP localIPs l n = Some n' \<Longrightarrow> stuck n'"
proof (cases l)
  case (L_loop k)
  assume "stuck n" "lc_step e parseIP localIPs l n = Some n'"
  with L_loop show ?thesis
    by (cases k) (auto simp: lc_step_def step_loop_def rc_step_def loop_at_def stuck_def split: if_splits list.splits)
qed (auto simp: lc_step_def swim_Shutdown_def step_multicast_def step_tcp_def stuck_def split: if_splits dest: stuck_udp [unfolded stuck_def, rotated])

lemma full_channel_keeps_Listen:
  "trace (fires (lc_step e parseIP localIPs)) n ls n' \<Longrightarrow> stuck n \<Longrightarrow> u_pc (lc_udp n') = UInside"
proof -
  assume "trace (fires (lc_step e parseIP localIPs)) n ls n'" and "stuck n"
  then have "stuck n'" by (induction rule: trace.induct) (auto intro: stuck_step)
  then show ?thesis by (simp add: stuck_def)
qed

text \<open>The run loop of a server can be started once. With the server as its delegate, a loop for which \<open>Start\<close> is called at
  most once never panics, whatever is sent to it and whoever shuts it down; but when it is shut down, started and shut down again, the
  second loop closes \<open>done\<close> again, and panics.\<close>

lemma runloop_restart_panics:
  assumes "valid_env e" and "srv_inv s"
  shows "(trace (fires (rc_step (period_act (server_delegate e)))) (NewRunLoopControl (r, s)) ls c
      \<longrightarrow> length (filter (\<lambda>l. l = RC_Start) ls) \<le> 1 \<longrightarrow> \<not> rc_panicked c \<and> srv_inv (snd (rc_delegate c)))
    \<and> (\<exists>c. run (rc_step (period_act (server_delegate e)))
        [RC_Start, RC_Shutdown, RC_test 0, RC_close 0, RC_receive, RC_Start, RC_Shutdown, RC_test 1, RC_close 1] (NewRunLoopControl (r, s)) = Some c
        \<and> rc_panicked c)"
proof (intro conjI impI)
  assume tr: "trace (fires (rc_step (period_act (server_delegate e)))) (NewRunLoopControl (r, s)) ls c"
    and one: "length (filter (\<lambda>l. l = RC_Start) ls) \<le> 1"
  have "\<exists>d'. period_act (server_delegate e) a d = Some d' \<and> srv_inv (snd d')" if "srv_inv (snd d)" for a d
    using run_loop_delegate.period_act_total [OF server_delegate_ok [OF assms(1)] that] .
  note once = started_once [where I = "\<lambda>d. srv_inv (snd d)", OF this tr rc_inv_new]
  show "\<not> rc_panicked c" and "srv_inv (snd (rc_delegate c))"
    using once assms(2) one by (simp_all add: NewRunLoopControl_def)
qed (simp add: rc_step_def RunLoop_Start_def loop_at_def loop_close_def NewRunLoopControl_def)

lemma runloop_restart_panics_witness:
  "\<exists>c. run (rc_step (period_act (server_delegate (sortedEnv (\<lambda>_. None)))))
      [RC_Start, RC_Shutdown, RC_test 0, RC_close 0, RC_receive, RC_Start, RC_Shutdown, RC_test 1, RC_close 1]
      (NewRunLoopControl (NewRunLoop 2000 1200 False 300, exampleServer)) = Some c \<and> rc_panicked c"
proof -
  have "srv_inv exampleServer" by (rule srv_inv_new) (simp_all add: typedIP_def)
  from runloop_restart_panics [OF sortedEnv_valid this] show ?thesis by blast
qed

subsection \<open>Both families\<close>

text \<open>\<open>server.go\<close>: \<open>Start\<close> and \<open>Shutdown\<close> of the two servers, one after the other; a step of the caller of \<open>Shutdown\<close>.\<close>

definition server_Start :: "lifecycle option \<times> lifecycle option \<Rightarrow> lifecycle option \<times> lifecycle option" where
  "server_Start s = (map_option swim_Start (fst s), map_option swim_Start (snd s))"

definition server_Shutdown :: "env \<Rightarrow> (string \<Rightarrow> NetIP) \<Rightarrow> Addr list \<Rightarrow> lifecycle option \<times> lifecycle option
    \<Rightarrow> (lifecycle option \<times> lifecycle option) option" where
  "server_Shutdown e parseIP localIPs s = (case s of
     (Some v4, v6) \<Rightarrow> if lc_caller v4 \<noteq> CallReturned then map_option (\<lambda>n. (Some n, v6)) (lc_step e parseIP localIPs L_Shutdown v4)
       else (case v6 of None \<Rightarrow> None | Some v6 \<Rightarrow> map_option (\<lambda>n. (Some v4, Some n)) (lc_step e parseIP localIPs L_Shutdown v6))
   | (None, Some v6) \<Rightarrow> map_option (\<lambda>n. (None, Some n)) (lc_step e parseIP localIPs L_Shutdown v6)
   | (None, None) \<Rightarrow> None)"

text \<open>The second server is not touched before the first has shut down.\<close>

lemma server_Shutdown_sequential:
  "server_Shutdown e parseIP localIPs (Some v4, v6) = Some (w4, w6) \<Longrightarrow> lc_caller v4 \<noteq> CallReturned \<Longrightarrow> w6 = v6"
  by (auto simp: server_Shutdown_def)

end
