(* ===== verification/Failure_Detection.thy ===== *)
theory Failure_Detection
  imports Server_Properties
begin

text \<open>
  The failure detector of one server: its run loop, its member list and its ping list. \<open>period_effect\<close> is what one period without other
  input does to the members and to the ping list. \<open>runPeriods\<close> is the loop alone, turn after turn, with what it receives in each of them; the runs of the
  whole server, in which other goroutines change it between and within the turns, are in \<open>Membership_Runs\<close>.
\<close>

subsection \<open>What one period changes\<close>

abbreviation known :: "swimServer \<Rightarrow> member_map" where
  "known s \<equiv> members (nm_list (sw_nodes s))"

abbreviation pings :: "swimServer \<Rightarrow> NodeHash list" where
  "pings s \<equiv> nodesToPing (sw_nodes s)"

text \<open>Most of a period leaves the members alone.\<close>

definition same_nodes :: "swimServer \<Rightarrow> swimServer \<Rightarrow> bool" where
  "same_nodes s s' \<longleftrightarrow> sw_nodes s' = sw_nodes s \<and> opt_SuspectPeriods s' = opt_SuspectPeriods s"

lemma same_nodes_refl [simp]: "same_nodes s s"
  by (simp add: same_nodes_def)

lemma same_nodes_trans: "same_nodes a b \<Longrightarrow> same_nodes b c \<Longrightarrow> same_nodes a c"
  by (simp add: same_nodes_def)

lemma gossipAdd_same: "gossipAdd e ev s = Some s' \<Longrightarrow> same_nodes s s'"
  by (auto simp: gossipAdd_def same_nodes_def split: Option.bind_splits)

lemma Dispatch_same: "server_DispatchMessage e dst m s = Some s' \<Longrightarrow> same_nodes s s'"
  by (auto simp: server_DispatchMessage_def same_nodes_def emit_def Let_def split: Option.bind_splits option.splits prod.splits if_splits)

lemma dispatchAll_same: "dispatchAll (server_delegate e) vs m s = Some s' \<Longrightarrow> same_nodes s s'"
proof (induction vs arbitrary: s)
  case (Cons v vs)
  then show ?case
    by (auto simp: server_delegate_def split: Option.bind_splits intro: same_nodes_trans dest: Dispatch_same)
qed simp

lemma pingIndirect_same: "pingIndirect (server_delegate e) r s = Some (r', s') \<Longrightarrow> same_nodes s s'"
  by (auto simp: pingIndirect_def Let_def dest: dispatchAll_same split: if_splits option.splits Option.bind_splits)

lemma waitPeriod_same: "waitPeriod (server_delegate e) evs r s = Some (r', s') \<Longrightarrow> same_nodes s s'"
proof (induction evs arbitrary: r s)
  case (Cons ev evs)
  then show ?case
    by (cases ev) (auto intro: same_nodes_trans dest: pingIndirect_same split: if_splits Option.bind_splits)
qed simp

lemma FullSync_same: "server_PerformFullSync e s = Some s' \<Longrightarrow> same_nodes s s'"
  by (auto simp: server_PerformFullSync_def same_nodes_def emit_def Let_def split: prod.splits option.splits)

text \<open>The node a period probes, and the state after it was chosen.\<close>

definition probed :: "env \<Rightarrow> swimServer \<Rightarrow> Node option" where
  "probed e s = fst (NextPing (mapChoices e (sw_nodes s)) (sw_nodes s))"

definition advanced :: "env \<Rightarrow> swimServer \<Rightarrow> nodeManager" where
  "advanced e s = snd (NextPing (mapChoices e (sw_nodes s)) (sw_nodes s))"

lemma startPeriod_nodes:
  assumes "startPeriod (server_delegate e) rnd now r s = Some (r1, s1)"
  shows "same_nodes (s\<lparr>sw_nodes := advanced e s\<rparr>) s1"
  using assms
  by (auto simp: startPeriod_def server_delegate_def server_NextProbeSubject_def server_GossipEvents_def advanced_def same_nodes_def Let_def
      dest!: Dispatch_same split: prod.splits option.splits Option.bind_splits)

subsection \<open>Expiry\<close>

lemma srv_nodes:
  assumes "srv_inv s"
  shows "nm_inv (sw_nodes s)" and "nl_inv (nm_list (sw_nodes s))" and "nl_cons (nm_list (sw_nodes s))"
  using assms by (auto simp: srv_inv_def nodes_ok_def nm_inv_def nl_inv_def)

lemma known_hash: "srv_inv s \<Longrightarrow> known s h = Some v \<Longrightarrow> Hash (node_of v) = h"
  using srv_nodes(2) [of s] by (auto simp: nl_inv_def m_inv_def sound_def)

lemma known_typed: "srv_inv s \<Longrightarrow> known s h = Some v \<Longrightarrow> typedNode (node_of v)"
  by (auto simp: srv_inv_def nodes_ok_def typed_members_def)

text \<open>Members without the suspects whose time is over.\<close>

definition sweep :: "u16 \<Rightarrow> u16 \<Rightarrow> member_map \<Rightarrow> member_map" where
  "sweep c k m = (\<lambda>h. case m h of Some (MSuspect s) \<Rightarrow> if expired c k s then None else m h | v \<Rightarrow> v)"

lemma expireAll_nodes:
  assumes "valid_env e"
  shows "expireAll e ns s = Some s' \<Longrightarrow> srv_inv s \<Longrightarrow> list_all typedNode ns \<Longrightarrow>
    known s' = (\<lambda>h. if h \<in> Hash ` set ns then None else known s h)
    \<and> pings s' = filter (\<lambda>h. h \<notin> Hash ` set ns) (pings s) \<and> opt_SuspectPeriods s' = opt_SuspectPeriods s"
proof (induction ns arbitrary: s)
  case (Cons n ns)
  obtain m where m: "nodeManager_MarkFaulty (Hash n) (sw_nodes s) = Some m"
      "known (s\<lparr>sw_nodes := m\<rparr>) = (known s)(Hash n := None)" "nodesToPing m = filter (\<lambda>k. k \<noteq> Hash n) (pings s)"
    using MarkFaulty_forgets [OF srv_nodes(1) [OF Cons.prems(2)], of "Hash n"] by auto
  have inv: "srv_inv (s\<lparr>sw_nodes := m\<rparr>)" using srv_inv_step [OF Cons.prems(2) nm_MarkFaulty [OF m(1)]] by simp
  let ?ev = "\<lparr>ev_Payload = PFaulty \<lparr>e_Source = hostAddress s, e_Subject = n_Address n, e_Incarnation = n_Incarnation n\<rparr>\<rparr>"
  have "typedEvent ?ev" using Cons.prems by (simp add: typedEvent_def typedPayload_def srv_inv_def typedNode_def)
  from gossipAdd_ok [OF assms inv this] obtain s1 where s1: "gossipAdd e ?ev (s\<lparr>sw_nodes := m\<rparr>) = Some s1" "srv_inv s1" by blast
  from gossipAdd_same [OF s1(1)] have same: "sw_nodes s1 = m" "opt_SuspectPeriods s1 = opt_SuspectPeriods s" by (simp_all add: same_nodes_def)
  have "expireAll e ns s1 = Some s'" using Cons.prems(1) m(1) s1(1) by simp
  from Cons.IH [OF this s1(2)] Cons.prems(3) same m(2, 3) show ?case
    by (auto simp: fun_eq_iff conj_commute)
qed (simp add: fun_eq_iff)

lemma Expired_nodes:
  assumes "valid_env e" and "srv_inv s" and "server_ProcessExpiredSuspects e c s = Some s'"
  shows "known s' = sweep c (opt_SuspectPeriods s) (known s)
    \<and> pings s' = filter (\<lambda>h. local_expired c (opt_SuspectPeriods s) (known s) h = None) (pings s)
    \<and> opt_SuspectPeriods s' = opt_SuspectPeriods s"
proof -
  let ?l = "nm_list (sw_nodes s)" and ?k = "opt_SuspectPeriods s"
  let ?x = "ExpiredSuspects c ?k (env_suspects e ?l) ?l"
  let ?s = "s\<lparr>sw_nodes := (sw_nodes s)\<lparr>nm_list := snd ?x\<rparr>\<rparr>"
  have ord: "distinct (env_suspects e ?l)" "set (env_suspects e ?l) = dom (suspects ?l)"
    using assms(1) srv_nodes(2) [OF assms(2)] by (auto simp: valid_env_def)
  note spec = ExpiredSuspects_spec [OF srv_nodes(3) [OF assms(2)] ord, of c ?k]
  have inv: "srv_inv ?s" using srv_inv_step [OF assms(2) nm_Expire [of "env_suspects e ?l"]] ord by simp
  have loc: "Hash v = h \<and> typedNode v \<and> h \<in> dom (suspects ?l)" if "local_expired c ?k (known s) h = Some v" for h v
    using that known_hash [OF assms(2), of h] known_typed [OF assms(2), of h] nl_cons_cases [OF srv_nodes(3) [OF assms(2)], of h]
    by (fastforce simp: local_expired_def split: option.splits member.splits if_splits)
  have set: "Hash ` set (fst ?x) = {h. local_expired c ?k (known s) h \<noteq> None}"
    unfolding spec(1) set_map_filter_eq using loc ord(2) by (force simp: image_iff)
  have typed: "list_all typedNode (fst ?x)"
    unfolding spec(1) list_all_iff set_map_filter_eq using loc by blast
  have "expireAll e (fst ?x) ?s = Some s'"
    using assms(3) by (simp add: server_ProcessExpiredSuspects_def split_beta Let_def)
  from expireAll_nodes [OF assms(1) this inv typed]
  show ?thesis unfolding set
    by (auto simp: spec(4) fun_eq_iff sweep_def m_expire_def local_expired_def split: option.splits member.splits)
qed

subsection \<open>One period\<close>

lemma Hash_not_zero: "typedNode v \<Longrightarrow> Hash v \<noteq> NodeHashZero"
  by (auto simp: typedNode_def Hash_def IntoHash_def AddrFromSlice_def IP_Size_def AddressKind_Size_def)

text \<open>What the verdict does to the members.\<close>

definition judged :: "u16 \<Rightarrow> bool \<Rightarrow> Node option \<Rightarrow> member_map \<Rightarrow> member_map" where
  "judged c ack node m = (case node of None \<Rightarrow> m | Some v \<Rightarrow> if ack then m_stable (Hash v) m else m_suspect c False (Hash v) m)"

lemma Healthy_nodes:
  assumes "srv_inv s" and "server_SignalHealthyNode h s = Some s'"
  shows "known s' = m_stable h (known s) \<and> pings s' = pings s \<and> opt_SuspectPeriods s' = opt_SuspectPeriods s"
  using assms(2) nm_step_members [OF srv_nodes(1) [OF assms(1)] nm_MarkStable, of h] by (auto simp: server_SignalHealthyNode_def)

lemma Suspect_nodes:
  assumes "srv_inv s" and "server_SignalSuspectNode e c h s = Some s'"
  shows "known s' = m_suspect c False h (known s) \<and> pings s' = pings s \<and> opt_SuspectPeriods s' = opt_SuspectPeriods s"
proof -
  let ?s = "s\<lparr>sw_nodes := (sw_nodes s)\<lparr>nm_list := MarkSuspect c False h (nm_list (sw_nodes s))\<rparr>\<rparr>"
  have "same_nodes ?s s'"
    using assms(2) by (auto simp: server_SignalSuspectNode_def Let_def dest: gossipAdd_same split: option.splits)
  moreover have "known ?s = m_suspect c False h (known s)"
    using nm_step_members [OF srv_nodes(1) [OF assms(1)] nm_MarkSuspect, of c False h] by simp
  ultimately show ?thesis by (simp add: same_nodes_def)
qed

lemma period_effect:
  assumes "valid_env e" and "srv_inv s"
    and "startPeriod (server_delegate e) rnd now r s = Some (r1, s1)" and "runPeriod (server_delegate e) rnd now evs r s = Some (r', s')"
  defines "c \<equiv> rp_id (rl_period r)"
  defines "m \<equiv> judged c (answered c (rp_cookie (rl_period r1)) evs) (probed e s) (known s)"
  shows "known s' = sweep c (opt_SuspectPeriods s) m
    \<and> pings s' = filter (\<lambda>h. local_expired c (opt_SuspectPeriods s) m h = None) (nodesToPing (advanced e s))
    \<and> opt_SuspectPeriods s' = opt_SuspectPeriods s \<and> srv_inv s'
    \<and> unat (rp_id (rl_period r')) = (if unat c \<ge> 65534 then 0 else unat c + 1)"
proof -
  let ?D = "server_delegate e" and ?ack = "answered c (rp_cookie (rl_period r1)) evs"
  note D = server_delegate_ok [OF assms(1)]
  have s1: "srv_inv s1" using run_loop_delegate.startPeriod_total [OF D assms(2), of rnd now r] assms(3) by simp
  obtain r2 s2 where w: "waitPeriod ?D evs r1 s1 = Some (r2, s2)" "srv_inv s2"
    using run_loop_delegate.waitPeriod_total [OF D s1] by blast
  have "same_nodes (s\<lparr>sw_nodes := advanced e s\<rparr>) s2"
    using startPeriod_nodes [OF assms(3)] waitPeriod_same [OF w(1)] same_nodes_trans by blast
  then have s2: "known s2 = known s" "pings s2 = nodesToPing (advanced e s)" "opt_SuspectPeriods s2 = opt_SuspectPeriods s"
    by (simp_all add: same_nodes_def advanced_def)
  have probe: "fst (NextProbeSubject ?D s) = probed e s"
    by (simp add: server_delegate_def server_NextProbeSubject_def probed_def split_beta Let_def)
  have typed: "typedNode v" if "probed e s = Some v" for v
    using that probe D assms(2) by (simp add: run_loop_delegate_def)
  have ended: "endPeriod ?D r2 s2 = Some (r', s')" using assms(3, 4) w(1) by (simp add: runPeriod_def)
  obtain s3 where s3: "(case probed e s of Some v \<Rightarrow> if ?ack then server_SignalHealthyNode (Hash v) s2 else server_SignalSuspectNode e c (Hash v) s2
      | None \<Rightarrow> Some s2) = Some s3" "server_ProcessExpiredSuspects e c s3 \<noteq> None"
    and rest: "\<And>s4. server_ProcessExpiredSuspects e c s3 = Some s4 \<Longrightarrow> same_nodes s4 s'"
    and r': "rl_period r' = unsafeIncrementID ((rl_period r2)\<lparr>rp_node := NodeHashZero\<rparr>)"
    using ended [unfolded period_verdict [OF assms(3) w(1)] probe] Hash_not_zero typed
    by (fastforce simp: server_delegate_def c_def Let_def dest: FullSync_same split: option.splits if_splits Option.bind_splits)
  have m3: "known s3 = m \<and> pings s3 = pings s2 \<and> opt_SuspectPeriods s3 = opt_SuspectPeriods s2"
    using s3(1) Healthy_nodes [OF w(2)] Suspect_nodes [OF w(2)] s2(1) by (auto simp: m_def judged_def split: option.splits if_splits)
  have inv3: "srv_inv s3"
  proof (cases "probed e s")
    case (Some v)
    show ?thesis
    proof (cases ?ack)
      case True
      with s3(1) Some srv_inv_step [OF w(2) nm_MarkStable] show ?thesis by (auto simp: server_SignalHealthyNode_def)
    next
      case False
      with s3(1) Some SignalSuspectNode_ok [OF assms(1) w(2), of c "Hash v"] show ?thesis by auto
    qed
  qed (use s3(1) w(2) in simp)
  obtain s4 where s4: "server_ProcessExpiredSuspects e c s3 = Some s4" using s3(2) by blast
  have "srv_inv s'" using run_loop_delegate.endPeriod_total [OF D w(2), of r2] ended by simp
  moreover have "unat (rp_id (rl_period r')) = (if unat c \<ge> 65534 then 0 else unat c + 1)"
    using r' waitPeriod_period [OF w(1)] startPeriod_period [OF assms(3)] by (simp add: unat_unsafeIncrementID c_def)
  ultimately show ?thesis
    using Expired_nodes [OF assms(1) inv3 s4] rest [OF s4] m3 s2 by (simp add: same_nodes_def)
qed

subsection \<open>A run of periods\<close>

text \<open>What a turn of the loop receives: its random cookie, the clock, and the events of its wait.\<close>

type_synonym turn = "nat \<times> int \<times> loop_event list"

text \<open>Turns of \<open>loop\<close>, one after the other. The first component of the result is the record of the probes: the
  node a turn asked and whether it was answered.\<close>

fun runPeriods :: "'d RunLoopDelegate \<Rightarrow> turn list \<Rightarrow> runLoop \<Rightarrow> 'd \<Rightarrow> ((NodeHash \<times> bool) list \<times> runLoop \<times> 'd) option" where
  "runPeriods del [] r s = Some ([], r, s)"
| "runPeriods del ((rnd, now, evs) # ts) r s = do {
     (r1, s1) \<leftarrow> startPeriod del rnd now r s;
     (r2, s2) \<leftarrow> waitPeriod del evs r1 s1;
     (r3, s3) \<leftarrow> endPeriod del r2 s2;
     (probes, r', s') \<leftarrow> runPeriods del ts r3 s3;
     Some ((rp_node (rl_period r2), rp_acked (rl_period r2)) # probes, r', s')
   }"

lemma runPeriods_total:
  assumes "valid_env e"
  shows "srv_inv s \<Longrightarrow> \<exists>probes r' s'. runPeriods (server_delegate e) ts r s = Some (probes, r', s') \<and> srv_inv s'"
proof (induction ts arbitrary: r s)
  case (Cons t ts)
  obtain rnd now evs where t: "t = (rnd, now, evs)" by (cases t)
  note D = server_delegate_ok [OF assms]
  from run_loop_delegate.startPeriod_total [OF D Cons.prems, of rnd now r] obtain r1 s1 where
    1: "startPeriod (server_delegate e) rnd now r s = Some (r1, s1)" "srv_inv s1" by blast
  from run_loop_delegate.waitPeriod_total [OF D 1(2)] obtain r2 s2 where
    2: "waitPeriod (server_delegate e) evs r1 s1 = Some (r2, s2)" "srv_inv s2" by blast
  from run_loop_delegate.endPeriod_total [OF D 2(2)] obtain r3 s3 where
    3: "endPeriod (server_delegate e) r2 s2 = Some (r3, s3)" "srv_inv s3" by blast
  from Cons.IH [OF 3(2), of r3] 1 2 3 t show ?case by auto
qed simp

lemma runPeriods_ConsE:
  assumes "runPeriods del ((rnd, now, evs) # ts) r s = Some (probes, r', s')"
  obtains r1 s1 r2 s2 r3 s3 ps where "startPeriod del rnd now r s = Some (r1, s1)" and "waitPeriod del evs r1 s1 = Some (r2, s2)"
    and "endPeriod del r2 s2 = Some (r3, s3)" and "runPeriods del ts r3 s3 = Some (ps, r', s')"
    and "probes = (rp_node (rl_period r2), rp_acked (rl_period r2)) # ps"
  using assms by (auto split: Option.bind_splits)

subsection \<open>One member through a turn\<close>

lemma take_filter: "h \<in> set (take k xs) \<Longrightarrow> Q h \<Longrightarrow> h \<in> set (take k (filter Q xs))"
proof (induction xs arbitrary: k)
  case (Cons x xs)
  have "set (take (k - 1) ys) \<subseteq> set (take k ys)" for ys :: "'a list" by (simp add: set_take_subset_set_take)
  with Cons show ?case by (cases k) auto
qed simp

lemma probed_eq:
  assumes "srv_inv s"
  shows "probed e s = (case pings s of [] \<Rightarrow> None | h # _ \<Rightarrow> map_option node_of (known s h))"
  using NodeByHash_members [OF srv_nodes(3) [OF assms]] by (auto simp: probed_def NextPing_def Let_def split: list.split)

lemma advanced_tail: "pings s = x # xs \<Longrightarrow> xs \<noteq> [] \<Longrightarrow> nodesToPing (advanced e s) = xs"
  by (simp add: advanced_def NextPing_def Let_def)

lemma expired_since:
  assumes "SuspectAtPeriod v \<le> c" and "unat c < 65535"
  shows "expired c k v \<longleftrightarrow> unat k + unat (SuspectAtPeriod v) \<le> unat c"
proof -
  have "suspectRounds c v = unat c - unat (SuspectAtPeriod v)"
    unfolding suspectRounds_def using assms [unfolded word_le_nat_alt] by linarith
  with assms show ?thesis by (auto simp: expired_def word_le_nat_alt)
qed

text \<open>A server that bootstrapped with one peer, 10.0.0.2.\<close>

definition pairServer :: swimServer where
  "pairServer = (exampleServer 1)\<lparr>sw_nodes := nodeManager_Bootstrap (\<lambda>_. 0, [hostHash 2], []) 1 [host False 4 2]
     (NewNodeManager (hostIP 1))\<rparr>"

lemma pair_list: "nm_list (sw_nodes pairServer) = Add 1 (host False 4 2) (NewNodeList (hostIP 1))"
  by (simp add: pairServer_def nodeManager_Bootstrap_def NewNodeManager_def Bootstrap_def Add_def)

lemma pair_maps [simp]:
  "stable (nm_list (sw_nodes pairServer)) = [hostHash 2 \<mapsto> host False 4 2]" "suspects (nm_list (sw_nodes pairServer)) = Map.empty"
  "nodesToPing (sw_nodes pairServer) = [hostHash 2]" "opt_SuspectPeriods pairServer = 3"
  unfolding pair_list
  by (simp_all add: pairServer_def nodeManager_Bootstrap_def unsafePreparePingList_def Range_all_collect NewNodeManager_def Bootstrap_def
      unsafeAdd_def Add_def NewNodeList_def Let_def Shuffle_def exampleServer_def newSwimServer_def)

lemma pair_inv: "srv_inv pairServer"
proof -
  have "sw_nodes (exampleServer 1) = NewNodeManager (hostIP 1)" by (simp add: exampleServer_def newSwimServer_def)
  moreover have "valid_choices (\<lambda>_. 0, [hostHash 2], []) (Bootstrap 1 [host False 4 2] (nm_list (NewNodeManager (hostIP 1))))"
    by (simp add: valid_choices_def Bootstrap_def unsafeAdd_def NewNodeManager_def NewNodeList_def Let_def)
  ultimately show ?thesis
    unfolding pairServer_def using srv_inv_step [OF example_srv [of 1] nm_Bootstrap] by (simp add: typedNode_def)
qed

end
