(* ===== verification/Refutation.thy ===== *)
theory Refutation
  imports Exchange
begin

text \<open>
  A suspicion and its refutation, from server to server: an accusation in the gossip queue of one server rides on
  its next ping to the accused, which answers with an Alive of a later incarnation on its own next
  ping. The events about other members that ride along are arbitrary.
\<close>

subsection \<open>Pings that carry the whole queue\<close>

definition gossip_fits :: "int \<Rightarrow> gossipManager \<Rightarrow> bool" where
  "gossip_fits L g \<longleftrightarrow> (\<Sum>v\<leftarrow>gm_queue g. int (Event_RequiredSize (First v))) \<le> L \<and> length (gm_queue g) < 256"

lemma taken_all: "c + (\<Sum>v\<leftarrow>q. int (Event_RequiredSize (First v))) \<le> L \<Longrightarrow> taken L c q = length q"
proof (induction L c q rule: taken.induct)
  case (2 L c v q)
  have "0 \<le> (\<Sum>v\<leftarrow>q. int (Event_RequiredSize (First v)))" by (rule sum_list_nonneg) auto
  with 2 show ?case by (simp add: add.assoc)
qed simp

lemma Next_all:
  assumes "gossip_fits L g" and "gossipManager_Next srt L g = Some (es, g')"
  shows "es = map First (gm_queue g)"
  using assms taken_all [of 0 "gm_queue g" L] by (auto simp: Next_result gossip_fits_def)

text \<open>The datagram that starts a period of \<open>A\<close>, and what \<open>B\<close> makes of it.\<close>

lemma ping_carries_queue:
  assumes "valid_env eA" and "srv_inv A" and "nonces eA" and "shares_key (sw_ascon A) (sw_ascon B)"
    and "\<forall>item \<in> set (gm_queue (sw_gossip A)). wfEvent (First item)" and "gossip_fits (rl_udpMaxLen r - 7) (sw_gossip A)"
    and "NextPing (mapChoices eA (sw_nodes A)) (sw_nodes A) = (Some v, n)"
  shows "\<exists>r1 A1 ping. startPeriod (server_delegate eA) rnd now r A = Some (r1, A1)
    \<and> last (sw_effects A1) = UDPOut (IP_Bytes (n_Address v)) ping
    \<and> HandleUDPControlMessage eB pB ping addrA B
      = handlePing eB pB ((Pkt (incarnation A) (MPing (probe r1 v (map First (gm_queue (sw_gossip A))))))\<lparr>p_Source := addrA\<rparr>)
          (probe r1 v (map First (gm_queue (sw_gossip A)))) B"
proof -
  let ?es = "map First (gm_queue (sw_gossip A))"
  obtain es g r1 where start: "startPeriod (server_delegate eA) rnd now r A = Some (r1,
        emit (UDPOut (IP_Bytes (n_Address v)) (sealed eA A (packet_wire (incarnation A) (MPing (probe r1 v es)))))
          (A\<lparr>sw_nodes := n, sw_gossip := g\<rparr>))" "gossipManager_Next (env_sort eA) (rl_udpMaxLen r - 7) (sw_gossip A) = Some (es, g)"
    using startPeriod_sends [OF assms(1-3, 7), of rnd now r] by blast
  have es: "es = ?es" using Next_all [OF assms(6) start(2)] .
  have "wfMessage (MPing (probe r1 v ?es))" using assms(5, 6) by (auto simp: gossip_fits_def list_all_iff)
  from delivered_whole [OF assms(3, 4) this, of eB pB "incarnation A" addrA] start(1) es show ?thesis
    by (auto simp: handlePacket_def Pkt_def emit_def)
qed

subsection \<open>A batch of events\<close>

abbreviation about :: "Event \<Rightarrow> IP" where
  "about ev \<equiv> GetSubject (ev_Payload ev)"

lemma loop_append:
  "processPingEvents_loop e period (xs @ ys) v s = do { (v, s) \<leftarrow> processPingEvents_loop e period xs v s; processPingEvents_loop e period ys v s }"
  by (induction e period xs v s rule: processPingEvents_loop.induct) (auto split: Option.bind_split)

lemma gossipAdd_about:
  assumes "valid_env e" and "srv_inv s" and "typedEvent ev"
  shows "\<exists>g. gossipAdd e ev s = Some (s\<lparr>sw_gossip := g\<rparr>) \<and> srv_inv (s\<lparr>sw_gossip := g\<rparr>)
    \<and> (\<forall>ip. ip \<noteq> about ev \<longrightarrow> LastGossipAbout ip g = LastGossipAbout ip (sw_gossip s))
    \<and> LastGossipAbout (about ev) g = (case LastGossipAbout (about ev) (sw_gossip s) of
        None \<Rightarrow> Some ev | Some old \<Rightarrow> Some (if beats (ev_Payload ev) (ev_Payload old) then ev else old))"
proof -
  have g: "gm_inv (sw_gossip s)" using assms(2) by (simp add: srv_inv_def gossip_ok_def)
  show ?thesis
    using Add_spec [OF valid_env_sorts [OF assms(1)] g, of ev] gossipAdd_ok [OF assms]
    by (auto simp: gossipAdd_def Invalidates_beats split: option.split)
qed

text \<open>The events of a batch leave the member under \<open>h\<close> alone if none of them is about it. An event about the server itself changes no member.\<close>

lemma applyEvent_other:
  assumes "nodes_ok self n" and "applyEvent period p n = Some n'" and "IntoHash (GetSubject p) \<noteq> h"
  shows "members (nm_list n') h = members (nm_list n) h"
proof -
  have inv: "nm_inv n" and cons: "nl_cons (nm_list n)" using assms(1) by (auto simp: nodes_ok_def nm_inv_def nl_inv_def)
  have hash: "Hash \<lparr>n_Suspect = b, n_Incarnation = i, n_Address = a\<rparr> = IntoHash a" for b i a by (simp add: Hash_def)
  have upd: "members (nm_list (UpdateOrCreate period \<lparr>n_Suspect = b, n_Incarnation = i, n_Address = a\<rparr> n)) h = members (nm_list n) h"
    if "IntoHash a \<noteq> h" for b i a
    using that by (simp add: UpdateOrCreate_members [OF inv] m_update_other hash)
  have wrap: "members (nm_list (WrapIncarnation period \<lparr>n_Suspect = b, n_Incarnation = i, n_Address = a\<rparr> n)) h = members (nm_list n) h"
    if "IntoHash a \<noteq> h" for b i a
    using that nm_step_members [OF inv nm_WrapIncarnation, of period "\<lparr>n_Suspect = b, n_Incarnation = i, n_Address = a\<rparr>"]
    by (auto simp: hash m_op_defs split: option.splits member.splits)
  have del: "members (Delete k (nm_list n)) h = members (nm_list n) h" if "k \<noteq> h" for k
    using that nm_step_members [OF inv nm_Delete, of k] by (simp add: m_remove_def)
  have faulty: "nodeManager_MarkFaulty k n = Some n' \<Longrightarrow> members (nm_list n') h = members (nm_list n) h" if "k \<noteq> h" for k
    using that nm_step_members [OF inv nm_MarkFaulty, of k n'] by (simp add: m_remove_def)
  have known: "NodeByHash (IntoHash ip) (nm_list n) = Some v \<Longrightarrow> Hash v = IntoHash ip" for ip v
    using nodes_ok_lookup [OF assms(1)] by blast
  show ?thesis
    using assms(2, 3) upd wrap del faulty known
    by (cases p) (auto simp: applyEvent_def NodeByIP_def Let_def split: option.splits if_splits)
qed

lemma loop_other:
  assumes "valid_env e"
  shows "srv_inv s \<Longrightarrow> list_all typedEvent evs \<Longrightarrow> processPingEvents_loop e period evs v s = Some (v', s') \<Longrightarrow>
    srv_inv s' \<and> hostAddress s' = hostAddress s \<and> incarnation s' = incarnation s
    \<and> ((\<forall>x \<in> set evs. about x \<noteq> hostAddress s) \<longrightarrow>
         v' = v \<and> LastGossipAbout (hostAddress s) (sw_gossip s') = LastGossipAbout (hostAddress s) (sw_gossip s))
    \<and> ((\<forall>x \<in> set evs. about x = hostAddress s \<or> IntoHash (about x) \<noteq> h) \<longrightarrow>
         members (nm_list (sw_nodes s')) h = members (nm_list (sw_nodes s)) h)"
proof (induction evs arbitrary: v s)
  case (Cons ev evs)
  obtain g where g: "gossipAdd e ev s = Some (s\<lparr>sw_gossip := g\<rparr>)" "srv_inv (s\<lparr>sw_gossip := g\<rparr>)"
    "\<And>ip. ip \<noteq> about ev \<Longrightarrow> LastGossipAbout ip g = LastGossipAbout ip (sw_gossip s)"
    using gossipAdd_about [OF assms Cons.prems(1), of ev] Cons.prems(2) by auto
  let ?s = "s\<lparr>sw_gossip := g\<rparr>"
  have evs: "list_all typedEvent evs" "typedPayload (ev_Payload ev)" using Cons.prems(2) by (auto simp: typedEvent_def list_all_iff)
  show ?case
  proof (cases "isEventLocal ev ?s")
    case True
    then have "about ev = hostAddress s" by (simp add: isEventLocal_def)
    moreover have "processPingEvents_loop e period evs (localEvent (incarnation s) ev v) ?s = Some (v', s')"
      using Cons.prems(3) g(1) True by simp
    ultimately show ?thesis using Cons.IH [OF g(2) evs(1)] by auto
  next
    case False
    then have other: "about ev \<noteq> hostAddress s" by (simp add: isEventLocal_def)
    obtain n where n: "applyEvent period (ev_Payload ev) (sw_nodes s) = Some n" "nodes_ok (hostAddress s) n"
      using applyEvent_ok [of "hostAddress s" "sw_nodes s" "ev_Payload ev" period] Cons.prems(1) evs(2) by (auto simp: srv_inv_def)
    have rest: "processPingEvents_loop e period evs v (?s\<lparr>sw_nodes := n\<rparr>) = Some (v', s')"
      using Cons.prems(3) g(1) False n(1) by simp
    have inv: "srv_inv (?s\<lparr>sw_nodes := n\<rparr>)" using srv_inv_nodes [OF g(2)] n(2) by simp
    have "IntoHash (about ev) \<noteq> h \<Longrightarrow> members (nm_list n) h = members (nm_list (sw_nodes s)) h"
      using applyEvent_other [OF _ n(1)] Cons.prems(1) by (auto simp: srv_inv_def)
    then show ?thesis using Cons.IH [OF inv evs(1) rest] other g(3) [of "hostAddress s"] by auto
  qed
qed simp

subsection \<open>The accused\<close>

text \<open>One accusation of the server itself among events about others: the loop finds the incarnation to surpass, and the queue holds
  the accusation or what is stronger.\<close>

lemma batch_accused:
  assumes "valid_env e" and "srv_inv s" and "list_all typedEvent es" and "distinct (map about es)" and "ev \<in> set es" and "accuses ev s"
  shows "\<exists>s'. processPingEvents_loop e period es (-1, False) s = Some ((int (unat (GetIncarnation (ev_Payload ev))), False), s')
    \<and> srv_inv s' \<and> hostAddress s' = hostAddress s
    \<and> LastGossipAbout (hostAddress s) (sw_gossip s') = (case LastGossipAbout (hostAddress s) (sw_gossip s) of
        None \<Rightarrow> Some ev | Some old \<Rightarrow> Some (if beats (ev_Payload ev) (ev_Payload old) then ev else old))"
proof -
  let ?v = "(int (unat (GetIncarnation (ev_Payload ev))), False)"
  obtain xs ys where es: "es = xs @ ev # ys" using split_list [OF assms(5)] by blast
  have host: "about ev = hostAddress s" using assms(6) by (simp add: accuses_def isEventLocal_def)
  have typed: "list_all typedEvent xs" "typedEvent ev" "list_all typedEvent ys" using assms(3) es by auto
  have others: "\<forall>x \<in> set xs. about x \<noteq> hostAddress s" "\<forall>x \<in> set ys. about x \<noteq> hostAddress s"
    using assms(4) es host by (auto simp: image_iff)
  obtain v1 s1 where l1: "processPingEvents_loop e period xs (-1, False) s = Some (v1, s1)"
    using loop_ok [OF assms(1, 2) typed(1), of period "(-1, False)"] by blast
  have s1: "srv_inv s1" "hostAddress s1 = hostAddress s" "incarnation s1 = incarnation s" "v1 = (-1, False)"
    "LastGossipAbout (hostAddress s) (sw_gossip s1) = LastGossipAbout (hostAddress s) (sw_gossip s)"
    using loop_other [OF assms(1, 2) typed(1) l1] others(1) by auto
  obtain g where g: "gossipAdd e ev s1 = Some (s1\<lparr>sw_gossip := g\<rparr>)" "srv_inv (s1\<lparr>sw_gossip := g\<rparr>)"
    "LastGossipAbout (about ev) g = (case LastGossipAbout (about ev) (sw_gossip s1) of
        None \<Rightarrow> Some ev | Some old \<Rightarrow> Some (if beats (ev_Payload ev) (ev_Payload old) then ev else old))"
    using gossipAdd_about [OF assms(1) s1(1) typed(2)] by blast
  let ?s2 = "s1\<lparr>sw_gossip := g\<rparr>"
  have "localEvent (incarnation s) ev (-1, False) = ?v" "isEventLocal ev ?s2"
    using assms(6) s1(2) by (auto simp: accuses_def localEvent_def isEventLocal_def Let_def)
  then have step: "processPingEvents_loop e period (ev # ys) v1 s1 = processPingEvents_loop e period ys ?v ?s2"
    using g(1) s1(3, 4) by simp
  obtain v3 s3 where l3: "processPingEvents_loop e period ys ?v ?s2 = Some (v3, s3)"
    using loop_ok [OF assms(1) g(2) typed(3), of period ?v] by blast
  have "srv_inv s3 \<and> hostAddress s3 = hostAddress s \<and> v3 = ?v \<and> LastGossipAbout (hostAddress s) (sw_gossip s3) = LastGossipAbout (hostAddress s) g"
    using loop_other [OF assms(1) g(2) typed(3) l3] others(2) s1(2) by auto
  with l1 step l3 g(3) s1(5) host show ?thesis by (simp add: es loop_append)
qed

lemma batch_refuted:
  assumes "valid_env e" and "srv_inv s" and "list_all typedEvent es" and "distinct (map about es)" and "ev \<in> set es" and "accuses ev s"
    and "GetIncarnation (ev_Payload ev) \<noteq> 65535"
    and "\<And>old. LastGossipAbout (hostAddress s) (sw_gossip s) = Some old \<Longrightarrow> GetIncarnation (ev_Payload old) \<le> GetIncarnation (ev_Payload ev)"
  defines "i \<equiv> GetIncarnation (ev_Payload ev)"
  shows "\<exists>s'. processPingEvents e period es s = Some s' \<and> incarnation s' = i + 1
    \<and> LastGossipAbout (hostAddress s) (sw_gossip s') = Some (aliveAt s (i + 1))"
proof -
  obtain s3 where s3: "processPingEvents_loop e period es (-1, False) s = Some ((int (unat i), False), s3)" "srv_inv s3" "hostAddress s3 = hostAddress s"
    "LastGossipAbout (hostAddress s) (sw_gossip s3) = (case LastGossipAbout (hostAddress s) (sw_gossip s) of
        None \<Rightarrow> Some ev | Some old \<Rightarrow> Some (if beats (ev_Payload ev) (ev_Payload old) then ev else old))"
    using batch_accused [OF assms(1-6), of period] unfolding i_def by blast
  have "-1 < uint i" using uint_ge_0 [of i] by linarith
  then have run: "processPingEvents e period es s = gossipAdd e (aliveAt s3 (i + 1)) (s3\<lparr>incarnation := i + 1\<rparr>)"
    using s3(1) by (simp add: processPingEvents_def increment_eq)
  have alive: "typedEvent (aliveAt s3 (i + 1))" using s3(2) by (simp add: aliveAt_def typedEvent_def typedPayload_def srv_inv_def)
  have lt: "j \<le> i \<Longrightarrow> j < i + 1" for j
    using u16_Suc [OF assms(7)] by (simp add: i_def word_less_nat_alt word_le_nat_alt)
  have known: "\<exists>old. LastGossipAbout (hostAddress s) (sw_gossip s3) = Some old \<and> GetIncarnation (ev_Payload old) < i + 1"
    using s3(4) assms(8) lt by (auto simp: i_def split: option.splits)
  obtain g' where "gossipAdd e (aliveAt s3 (i + 1)) (s3\<lparr>incarnation := i + 1\<rparr>) = Some (s3\<lparr>incarnation := i + 1, sw_gossip := g'\<rparr>)"
    "LastGossipAbout (hostAddress s) g' = Some (aliveAt s (i + 1))"
    using gossipAdd_about [OF assms(1) _ alive, of "s3\<lparr>incarnation := i + 1\<rparr>"] s3(2, 3) known
    by (auto simp: aliveAt_def beats_def table_def)
  with run show ?thesis by simp
qed

subsection \<open>From ping to ping\<close>

abbreviation pinger :: "Packet \<Rightarrow> Node" where
  "pinger pkt \<equiv> \<lparr>n_Suspect = False, n_Incarnation = h_Incarnation (p_Header pkt), n_Address = IPFromNetIP (p_Source pkt)\<rparr>"

lemma handlePing_processes:
  assumes "nonces e" and "srv_inv s" and "peer_address (p_Source pkt)"
  shows "\<exists>s1. handlePing e period pkt msg s = processPingEvents e period (ping_Events msg) s1 \<and> srv_inv s1
    \<and> hostAddress s1 = hostAddress s \<and> incarnation s1 = incarnation s \<and> sw_gossip s1 = sw_gossip s
    \<and> members (nm_list (sw_nodes s1)) = m_stable (Hash (pinger pkt)) (m_add (hostAddress s) period (pinger pkt) (members (nm_list (sw_nodes s))))"
proof -
  let ?v = "pinger pkt" and ?n = "sw_nodes s"
  let ?add = "nodeManager_Add period ?v ?n"
  let ?mark = "?add\<lparr>nm_list := MarkStable (Hash ?v) (nm_list ?add)\<rparr>"
  let ?s0 = "emit (UDPOut (p_Source pkt) (sealed e s (packet_wire (incarnation s) (MPong (pingReply pkt msg s))))) s"
  have typed: "typedNode ?v" by (simp add: typedNode_def)
  have ok: "nodes_ok (hostAddress s) ?n" using assms(2) by (simp add: srv_inv_def)
  have add: "nodes_ok (hostAddress s) ?add" using nodes_ok_step [OF ok nm_Add] typed by simp
  have mark: "nodes_ok (hostAddress s) ?mark" using nodes_ok_step [OF add nm_MarkStable] by simp
  have "members (nm_list ?add) = m_add (hostAddress s) period ?v (members (nm_list ?n))"
    using nm_step_members [OF _ nm_Add, of ?n period ?v] ok by (simp add: nodes_ok_def)
  moreover have "members (nm_list ?mark) = m_stable (Hash ?v) (members (nm_list ?add))"
    using nm_step_members [OF _ nm_MarkStable, of ?add "Hash ?v"] add by (simp add: nodes_ok_def)
  moreover have "handlePing e period pkt msg s = processPingEvents e period (ping_Events msg) (?s0\<lparr>sw_nodes := ?mark\<rparr>)"
    using Dispatch_sealed [OF assms(1) wfMessage_typed [OF wf_pingReply] assms(3), of pkt msg s s] by (simp add: handlePing_def Let_def emit_def)
  moreover have "srv_inv (?s0\<lparr>sw_nodes := ?mark\<rparr>)" using assms(2) mark by (auto simp: srv_inv_def emit_def)
  ultimately show ?thesis by (intro exI [of _ "?s0\<lparr>sw_nodes := ?mark\<rparr>"]) (simp add: emit_def)
qed

text \<open>The comment of \<open>Pong\<close> says that a ping whose target incarnation is not the server's is ignored. The answer to such a ping says so, but its
  events are processed like those of any other, which both theorems below rest on.\<close>

lemma unaccepted_ping_processed:
  assumes "nonces e" and "srv_inv s" and "peer_address (p_Source pkt)" and "ping_TargetIncarnation msg \<noteq> incarnation s"
  shows "\<not> pong_Ack (pingReply pkt msg s) \<and> (\<exists>s1. handlePing e period pkt msg s = processPingEvents e period (ping_Events msg) s1
    \<and> srv_inv s1 \<and> sw_gossip s1 = sw_gossip s \<and> incarnation s1 = incarnation s)"
  using handlePing_processes [OF assms(1-3), of period msg] assms(4) by (auto simp: pingReply_def Let_def)

lemma queue_events:
  assumes "srv_inv s"
  shows "distinct (map about (map First (gm_queue (sw_gossip s))))" and "list_all typedEvent (map First (gm_queue (sw_gossip s)))"
    and "LastGossipAbout ip (sw_gossip s) = Some ev \<Longrightarrow> ev \<in> set (map First (gm_queue (sw_gossip s))) \<and> about ev = ip"
proof -
  have inv: "distinct (map subject (gm_queue (sw_gossip s)))" "\<forall>v \<in> set (gm_queue (sw_gossip s)). typedEvent (First v)"
    using assms by (auto simp: srv_inv_def gossip_ok_def gm_inv_def)
  then show "distinct (map about (map First (gm_queue (sw_gossip s))))" "list_all typedEvent (map First (gm_queue (sw_gossip s)))"
    by (simp_all add: subject_def [abs_def] comp_def list_all_iff)
  show "LastGossipAbout ip (sw_gossip s) = Some ev \<Longrightarrow> ev \<in> set (map First (gm_queue (sw_gossip s))) \<and> about ev = ip"
    using LastGossipAbout_iff [OF inv(1), of ip ev] by (auto simp: LastGossipAbout_def subject_def)
qed

text \<open>Two concrete servers: the first knows the second, and has one event to pass on.\<close>

definition gossiping :: "Event \<Rightarrow> swimServer" where
  "gossiping ev = (let s = introduced 1 2 in s\<lparr>sw_gossip := (sw_gossip s)\<lparr>gm_queue := [\<lparr>First = ev, Second = maxTx (sw_gossip s)\<rparr>]\<rparr>\<rparr>)"

lemma wfIP_host: "wfIP (hostIP b)"
  by (simp add: wfIP_def typedIP_def numeral_eq_Suc)

lemma gossiping_added: "gossipAdd nonceEnv ev (introduced 1 2) = Some (gossiping ev)"
proof -
  have "mset (env_sort nonceEnv [x]) = {#x#}" for x using valid_env_sorts [OF nonceEnv_valid] by (simp add: sorts_def)
  then have "env_sort nonceEnv [x] = [x]" for x by (simp add: mset_single_iff)
  then show ?thesis by (simp add: gossipAdd_def gossiping_def gossipManager_Add_def reorder_def Let_def)
qed

lemma gossiping_inv: "typedEvent ev \<Longrightarrow> srv_inv (gossiping ev)"
  using gossipAdd_about [OF nonceEnv_valid introduced_inv, of ev 1 2] gossiping_added [of ev] by auto

lemma gossiping_fields [simp]:
  "hostAddress (gossiping ev) = hostIP 1" "sw_ascon (gossiping ev) = xorWrapper" "incarnation (gossiping ev) = 0"
  "sw_nodes (gossiping ev) = sw_nodes (introduced 1 2)" "map First (gm_queue (sw_gossip (gossiping ev))) = [ev]"
  "LastGossipAbout (about ev) (sw_gossip (gossiping ev)) = Some ev"
  by (simp_all add: gossiping_def Let_def LastGossipAbout_def)

text \<open>C15: an accusation reaches the accused and is refuted. The queue of server \<open>A\<close> says that \<open>B\<close> is suspect or faulty, at an incarnation not
  behind that of \<open>B\<close> and below 65535, and \<open>B\<close> has no gossip about itself of a later incarnation; all the gossip of \<open>A\<close> fits in one ping and is of fewer
  than 256 events. When the loop of \<open>A\<close> starts a period, \<open>B\<close> handles the datagram that \<open>A\<close> sends
  without a panic, whatever other events ride along and whatever incarnation of the target the ping names: it takes the next incarnation,
  and its own gossip about itself becomes an Alive of it. (A comment in the code says a ping with another target incarnation is ignored; it is not.)\<close>

theorem accusation_refuted_by_accused:
  assumes "valid_env eA" and "srv_inv A" and "nonces eA" and "valid_env eB" and "srv_inv B" and "nonces eB"
    and "shares_key (sw_ascon A) (sw_ascon B)" and "peer_address addrA"
    and "\<forall>item \<in> set (gm_queue (sw_gossip A)). wfEvent (First item)" and "gossip_fits (rl_udpMaxLen r - 7) (sw_gossip A)"
    and "NextPing (mapChoices eA (sw_nodes A)) (sw_nodes A) = (Some v, n)"
    and "LastGossipAbout (hostAddress B) (sw_gossip A) = Some ev" and "Event_EventKind ev \<in> {EventSuspect, EventFaulty}"
    and "incarnation B \<le> GetIncarnation (ev_Payload ev)" and "GetIncarnation (ev_Payload ev) \<noteq> 65535"
    and "\<forall>old. LastGossipAbout (hostAddress B) (sw_gossip B) = Some old \<longrightarrow> GetIncarnation (ev_Payload old) \<le> GetIncarnation (ev_Payload ev)"
  shows "\<exists>r1 A1 ping B1. startPeriod (server_delegate eA) rnd now r A = Some (r1, A1)
    \<and> last (sw_effects A1) = UDPOut (IP_Bytes (n_Address v)) ping
    \<and> HandleUDPControlMessage eB pB ping addrA B = Some B1
    \<and> incarnation B1 = GetIncarnation (ev_Payload ev) + 1
    \<and> LastGossipAbout (hostAddress B) (sw_gossip B1) = Some (aliveAt B (GetIncarnation (ev_Payload ev) + 1))"
proof -
  let ?es = "map First (gm_queue (sw_gossip A))"
  obtain r1 A1 ping where p: "startPeriod (server_delegate eA) rnd now r A = Some (r1, A1)"
    "last (sw_effects A1) = UDPOut (IP_Bytes (n_Address v)) ping"
    "HandleUDPControlMessage eB pB ping addrA B = handlePing eB pB ((Pkt (incarnation A) (MPing (probe r1 v ?es)))\<lparr>p_Source := addrA\<rparr>) (probe r1 v ?es) B"
    using ping_carries_queue [OF assms(1-3, 7, 9-11), of rnd now eB pB addrA] by blast
  obtain s1 where s1: "HandleUDPControlMessage eB pB ping addrA B = processPingEvents eB pB ?es s1" "srv_inv s1"
    "hostAddress s1 = hostAddress B" "incarnation s1 = incarnation B" "sw_gossip s1 = sw_gossip B"
    using handlePing_processes [OF assms(6, 5), of "(Pkt (incarnation A) (MPing (probe r1 v ?es)))\<lparr>p_Source := addrA\<rparr>" pB "probe r1 v ?es"] p(3) assms(8) by auto
  have "accuses ev s1" using queue_events(3) [OF assms(2, 12)] assms(13, 14) s1(3, 4) by (simp add: accuses_def isEventLocal_def)
  from batch_refuted [OF assms(4) s1(2) queue_events(2, 1) [OF assms(2)] _ this assms(15), of pB] queue_events(3) [OF assms(2, 12)] assms(16) s1 p
  show ?thesis by (auto simp: aliveAt_def)
qed

theorem accusation_refuted_by_accused_witness:
  "\<exists>r1 A1 ping B1. startPeriod (server_delegate nonceEnv) 7 0 (NewRunLoop 1000 1400 False 0) (gossiping (accusation 2 4)) = Some (r1, A1)
    \<and> last (sw_effects A1) = UDPOut (IP_Bytes (hostIP 2)) ping
    \<and> HandleUDPControlMessage nonceEnv 9 ping [10, 0, 0, 1] (sealingServer 2) = Some B1
    \<and> incarnation B1 = 5 \<and> LastGossipAbout (hostIP 2) (sw_gossip B1) = Some (aliveAt (sealingServer 2) 5)"
proof -
  let ?ev = "accusation 2 4"
  have ev: "wfEvent ?ev" "about ?ev = hostIP 2" "GetIncarnation (ev_Payload ?ev) = 4" "Event_EventKind ?ev = EventSuspect" "Event_RequiredSize ?ev = 11"
    by (simp_all add: accusation_def wfEvent_def wfPayload_def wfIP_host Event_EventKind_def Event_RequiredSize_def Suspect_RequiredSize_def
        IP_Size_def AddressKind_Size_def)
  obtain n where n: "NextPing (mapChoices nonceEnv (sw_nodes (gossiping ?ev))) (sw_nodes (gossiping ?ev)) = (Some (host False 0 2), n)"
    using introduced_next by auto
  have q: "\<forall>item \<in> set (gm_queue (sw_gossip (gossiping ?ev))). wfEvent (First item)" "gossip_fits 1393 (sw_gossip (gossiping ?ev))"
    using ev by (simp_all add: gossiping_def gossip_fits_def Let_def)
  have "LastGossipAbout (hostIP 2) (sw_gossip (gossiping ?ev)) = Some ?ev" using gossiping_fields(6) [of ?ev] ev(2) by simp
  with accusation_refuted_by_accused [OF nonceEnv_valid gossiping_inv nonceEnv_nonces nonceEnv_valid sealing_inv nonceEnv_nonces _ _ q(1) _ n,
      of 2 "[10, 0, 0, 1]" "NewRunLoop 1000 1400 False 0" ?ev 7 0 9] q(2) ev xor_shares
  show ?thesis by (simp add: NewRunLoop_def LastGossipAbout_def)
qed

subsection \<open>The refutation is heard\<close>

lemma processPingEvents_nodes:
  "processPingEvents e period es s = Some s' \<Longrightarrow> \<exists>v s1. processPingEvents_loop e period es (-1, False) s = Some (v, s1) \<and> sw_nodes s' = sw_nodes s1"
  by (auto simp: processPingEvents_def increment_eq gossipAdd_def split: Option.bind_splits if_splits)

text \<open>An Alive at a server that knows its subject as stable.\<close>

lemma alive_step:
  assumes "valid_env e" and "srv_inv s" and "typedIP ip" and "ip \<noteq> hostAddress s"
    and "members (nm_list (sw_nodes s)) (IntoHash ip) = Some (MStable w)" and "n_Incarnation w \<le> j"
  shows "\<exists>s1. (\<forall>ys v. processPingEvents_loop e period (\<lparr>ev_Payload = PAlive \<lparr>s_Subject = ip, s_Incarnation = j\<rparr>\<rparr> # ys) v s
        = processPingEvents_loop e period ys v s1) \<and> srv_inv s1
    \<and> members (nm_list (sw_nodes s1)) (IntoHash ip) = Some (MStable (w\<lparr>n_Incarnation := j\<rparr>))"
proof -
  let ?ev = "\<lparr>ev_Payload = PAlive \<lparr>s_Subject = ip, s_Incarnation = j\<rparr>\<rparr>"
  let ?v = "\<lparr>n_Suspect = False, n_Incarnation = j, n_Address = ip\<rparr>"
  have "typedEvent ?ev" using assms(3) by (simp add: typedEvent_def typedPayload_def)
  then obtain g where g: "gossipAdd e ?ev s = Some (s\<lparr>sw_gossip := g\<rparr>)" "srv_inv (s\<lparr>sw_gossip := g\<rparr>)"
    using gossipAdd_about [OF assms(1, 2)] by blast
  let ?s1 = "s\<lparr>sw_gossip := g, sw_nodes := UpdateOrCreate period ?v (sw_nodes s)\<rparr>"
  have "\<not> isEventLocal ?ev (s\<lparr>sw_gossip := g\<rparr>)" using assms(4) by (simp add: isEventLocal_def)
  then have "processPingEvents_loop e period (?ev # ys) v s = processPingEvents_loop e period ys v ?s1" for ys v
    using g(1) by (simp add: applyEvent_def)
  moreover have "srv_inv ?s1"
    using srv_inv_step [OF g(2) nm_UpdateOrCreate, of period ?v] assms(3) by (simp add: typedNode_def)
  moreover have "nm_inv (sw_nodes s)" using assms(2) by (simp add: srv_inv_def nodes_ok_def)
  then have "members (nm_list (sw_nodes ?s1)) (IntoHash ip) = Some (MStable (w\<lparr>n_Incarnation := j\<rparr>))"
    using assms(5, 6) by (simp add: UpdateOrCreate_members m_update_def Hash_def m_write_def m_stable_def not_less)
  ultimately show ?thesis by blast
qed

text \<open>The same among events about others.\<close>

lemma batch_alive:
  assumes "valid_env e" and "srv_inv s" and "list_all wfEvent es" and "distinct (map about es)"
    and "\<lparr>ev_Payload = PAlive \<lparr>s_Subject = ip, s_Incarnation = j\<rparr>\<rparr> \<in> set es" and "ip \<noteq> hostAddress s"
    and "members (nm_list (sw_nodes s)) (IntoHash ip) = Some (MStable w)" and "n_Incarnation w \<le> j"
  shows "\<exists>s'. processPingEvents e period es s = Some s' \<and> srv_inv s'
    \<and> members (nm_list (sw_nodes s')) (IntoHash ip) = Some (MStable (w\<lparr>n_Incarnation := j\<rparr>))"
proof -
  let ?ev = "\<lparr>ev_Payload = PAlive \<lparr>s_Subject = ip, s_Incarnation = j\<rparr>\<rparr>" and ?h = "IntoHash ip"
  obtain xs ys where es: "es = xs @ ?ev # ys" using split_list [OF assms(5)] by blast
  have typed: "list_all typedEvent xs" "list_all typedEvent ys" "list_all typedEvent es" using assms(3) es by (auto simp: list_all_iff)
  have wf: "wfIP (about x)" if "x \<in> set es" for x
    using that assms(3) by (cases "ev_Payload x") (auto simp: list_all_iff wfEvent_def wfPayload_def)
  have ip: "wfIP ip" using wf [of ?ev] es by simp
  have others: "IntoHash (about x) \<noteq> ?h" if "x \<in> set xs \<union> set ys" for x
  proof -
    have "about x \<noteq> ip" using that assms(4) es by (auto simp: image_iff)
    then show ?thesis using IntoHash_inj [OF wf ip, of x] that es by auto
  qed
  obtain v1 s1 where l1: "processPingEvents_loop e period xs (-1, False) s = Some (v1, s1)"
    using loop_ok [OF assms(1, 2) typed(1), of period "(-1, False)"] by blast
  have s1: "srv_inv s1" "hostAddress s1 = hostAddress s" "members (nm_list (sw_nodes s1)) ?h = Some (MStable w)"
    using loop_other [OF assms(1, 2) typed(1) l1, of ?h] others assms(7) by auto
  obtain s2 where s2: "processPingEvents_loop e period (?ev # ys) v1 s1 = processPingEvents_loop e period ys v1 s2" "srv_inv s2"
    "members (nm_list (sw_nodes s2)) ?h = Some (MStable (w\<lparr>n_Incarnation := j\<rparr>))"
    using alive_step [OF assms(1) s1(1) wfIP_typed [OF ip] _ s1(3) assms(8), of period] assms(6) s1(2) by metis
  obtain v3 s3 where l3: "processPingEvents_loop e period ys v1 s2 = Some (v3, s3)"
    using loop_ok [OF assms(1) s2(2) typed(2), of period v1] by blast
  have "members (nm_list (sw_nodes s3)) ?h = Some (MStable (w\<lparr>n_Incarnation := j\<rparr>))"
    using loop_other [OF assms(1) s2(2) typed(2) l3, of ?h] others s2(3) by auto
  moreover have "processPingEvents_loop e period es (-1, False) s = Some (v3, s3)" using l1 s2(1) l3 by (simp add: es loop_append)
  ultimately show ?thesis
    using processPingEvents_ok [OF assms(1, 2) typed(3), of period] processPingEvents_nodes [of e period es s] by fastforce
qed

text \<open>C16: the refutation is heard. Server \<open>B\<close> has an Alive of its incarnation in its queue, and all its gossip fits in one ping and is of fewer than 256 events. When
  its loop starts a period, \<open>A\<close> handles the datagram that \<open>B\<close> sends without a panic, and then lists \<open>B\<close> as stable at that incarnation, whatever
  it held of \<open>B\<close> before, suspect or nothing, provided it was not of a later incarnation, whatever other events ride along and whatever incarnation
  of the target the ping names.\<close>

theorem refutation_heard:
  assumes "valid_env eB" and "srv_inv B" and "nonces eB" and "valid_env eA" and "srv_inv A" and "nonces eA"
    and "shares_key (sw_ascon B) (sw_ascon A)" and "peer_address addrB" and "IPFromNetIP addrB = hostAddress B" and "hostAddress B \<noteq> hostAddress A"
    and "\<forall>item \<in> set (gm_queue (sw_gossip B)). wfEvent (First item)" and "gossip_fits (rl_udpMaxLen r - 7) (sw_gossip B)"
    and "NextPing (mapChoices eB (sw_nodes B)) (sw_nodes B) = (Some v, n)"
    and "LastGossipAbout (hostAddress B) (sw_gossip B) = Some (aliveAt B (incarnation B))"
    and "\<forall>w. NodeByIP (hostAddress B) (nm_list (sw_nodes A)) = Some w \<longrightarrow> n_Incarnation w \<le> incarnation B"
  shows "\<exists>r1 B1 ping A1 w. startPeriod (server_delegate eB) rnd now r B = Some (r1, B1)
    \<and> last (sw_effects B1) = UDPOut (IP_Bytes (n_Address v)) ping
    \<and> HandleUDPControlMessage eA pA ping addrB A = Some A1
    \<and> stable (nm_list (sw_nodes A1)) (IntoHash (hostAddress B)) = Some w \<and> n_Incarnation w = incarnation B \<and> \<not> n_Suspect w"
proof -
  let ?es = "map First (gm_queue (sw_gossip B))" and ?h = "IntoHash (hostAddress B)"
  let ?pkt = "\<lambda>r1. (Pkt (incarnation B) (MPing (probe r1 v ?es)))\<lparr>p_Source := addrB\<rparr>"
  obtain r1 B1 ping where p: "startPeriod (server_delegate eB) rnd now r B = Some (r1, B1)"
    "last (sw_effects B1) = UDPOut (IP_Bytes (n_Address v)) ping"
    "HandleUDPControlMessage eA pA ping addrB A = handlePing eA pA (?pkt r1) (probe r1 v ?es) A"
    using ping_carries_queue [OF assms(1-3, 7, 11-13), of rnd now eA pA addrB] by blast
  let ?v = "pinger (?pkt r1)" and ?m = "members (nm_list (sw_nodes A))"
  have v: "Hash ?v = ?h" "n_Incarnation ?v = incarnation B" "n_Address ?v = hostAddress B" using assms(9) by (simp_all add: Hash_def Pkt_def)
  obtain s1 where s1: "HandleUDPControlMessage eA pA ping addrB A = processPingEvents eA pA ?es s1" "srv_inv s1"
    "hostAddress s1 = hostAddress A" "members (nm_list (sw_nodes s1)) = m_stable ?h (m_add (hostAddress A) pA ?v ?m)"
    using handlePing_processes [OF assms(6, 5), of "?pkt r1" pA "probe r1 v ?es"] p(3) v(1) assms(8) by auto
  have cons: "nl_cons (nm_list (sw_nodes A))" using assms(5) by (simp add: srv_inv_def nodes_ok_def nm_inv_def nl_inv_def)
  obtain w where w: "members (nm_list (sw_nodes s1)) ?h = Some (MStable w)" "n_Incarnation w \<le> incarnation B"
  proof (cases "?m ?h")
    case None
    then show thesis using that v assms(10) by (auto simp: s1(4) m_add_def new_member_def m_stable_def)
  next
    case (Some x)
    then have "n_Incarnation (node_of x) \<le> incarnation B" using assms(15) by (simp add: NodeByIP_def NodeByHash_members [OF cons])
    with Some v show thesis using that by (cases x) (auto simp: s1(4) m_add_def m_stable_def)
  qed
  have "aliveAt B (incarnation B) \<in> set ?es" using queue_events(3) [OF assms(2, 14)] by simp
  with batch_alive [OF assms(4) s1(2) _ queue_events(1) [OF assms(2)], of "hostAddress B" "incarnation B" w pA] assms(10, 11) s1(3) w
  obtain A1 where A1: "processPingEvents eA pA ?es s1 = Some A1" "srv_inv A1"
    "members (nm_list (sw_nodes A1)) ?h = Some (MStable (w\<lparr>n_Incarnation := incarnation B\<rparr>))"
    by (auto simp: aliveAt_def list_all_iff)
  have "nl_inv (nm_list (sw_nodes A1))" using A1(2) nodes_ok_inv by (auto simp: srv_inv_def)
  then have "sound (selfAddr (nm_list (sw_nodes A1))) ?h (MStable (w\<lparr>n_Incarnation := incarnation B\<rparr>))"
    using A1(3) by (simp add: nl_inv_def m_inv_def)
  moreover have "stable (nm_list (sw_nodes A1)) ?h = Some (w\<lparr>n_Incarnation := incarnation B\<rparr>)"
    using A1(3) by (auto simp: members_def split: option.splits)
  ultimately show ?thesis using p(1, 2) s1(1) A1(1) by (auto simp: sound_def)
qed

theorem refutation_heard_witness:
  "\<exists>r1 B1 ping A1 w. startPeriod (server_delegate nonceEnv) 7 0 (NewRunLoop 1000 1400 False 0) (gossiping (aliveAt (introduced 1 2) 0)) = Some (r1, B1)
    \<and> last (sw_effects B1) = UDPOut (IP_Bytes (hostIP 2)) ping
    \<and> HandleUDPControlMessage nonceEnv 9 ping [10, 0, 0, 1] (sealingServer 2) = Some A1
    \<and> stable (nm_list (sw_nodes A1)) (hostHash 1) = Some w \<and> n_Incarnation w = 0 \<and> \<not> n_Suspect w"
proof -
  let ?ev = "aliveAt (introduced 1 2) 0"
  have ev: "wfEvent ?ev" "about ?ev = hostIP 1" "Event_RequiredSize ?ev = 7" "aliveAt (gossiping ?ev) 0 = ?ev"
    by (simp_all add: aliveAt_def wfEvent_def wfPayload_def wfIP_host Event_RequiredSize_def Alive_RequiredSize_def IP_Size_def AddressKind_Size_def)
  obtain n where n: "NextPing (mapChoices nonceEnv (sw_nodes (gossiping ?ev))) (sw_nodes (gossiping ?ev)) = (Some (host False 0 2), n)"
    using introduced_next by auto
  have q: "\<forall>item \<in> set (gm_queue (sw_gossip (gossiping ?ev))). wfEvent (First item)" "gossip_fits 1393 (sw_gossip (gossiping ?ev))"
    using ev by (simp_all add: gossiping_def gossip_fits_def Let_def)
  have addr: "IPFromNetIP [10, 0, 0, 1] = hostIP 1" by (simp add: IPFromNetIP_def To4_def go_copy_def numeral_eq_Suc)
  have "LastGossipAbout (hostIP 1) (sw_gossip (gossiping ?ev)) = Some ?ev" using gossiping_fields(6) [of ?ev] ev(2) by simp
  with refutation_heard [OF nonceEnv_valid gossiping_inv nonceEnv_nonces nonceEnv_valid sealing_inv nonceEnv_nonces _ _ _ _ q(1) _ n,
      of 2 "[10, 0, 0, 1]" "NewRunLoop 1000 1400 False 0" 7 0 9] q(2) ev xor_shares
    addr Hash_host [of False 0 1]
  show ?thesis by (simp add: NewRunLoop_def NodeByIP_def NewNodeList_def NodeByHash_def Hash_def)
qed

end
