(* ===== verification/Membership_Runs.thy ===== *)
theory Membership_Runs
  imports Failure_Detection Refutation
begin

text \<open>
  One member in a run of the whole server. The inputs are those of \<open>Server_System\<close>: the steps of the run loop, interleaved with
  datagrams, multicasts, TCP packets, replies, timers and the bootstrap. The first part says what each input does to a member and to the
  ping list; the theorems say when a member stays stable and when it is removed, whatever other inputs arrive in between.
\<close>

subsection \<open>What a datagram changes\<close>

text \<open>The events of the ping a datagram holds, if it holds one, and whether it does.\<close>

definition ping_in :: "byte list \<Rightarrow> swimServer \<Rightarrow> Ping option" where
  "ping_in data s = (case Open (sw_ascon s) data of Some (Some d) \<Rightarrow> (case ParsePacket d of Some (Inr pkt) \<Rightarrow>
     (case p_Message pkt of Some (MPing msg) \<Rightarrow> Some msg | _ \<Rightarrow> None) | _ \<Rightarrow> None) | _ \<Rightarrow> None)"

definition carried :: "byte list \<Rightarrow> swimServer \<Rightarrow> Event list" where
  "carried data s = (case ping_in data s of Some msg \<Rightarrow> ping_Events msg | None \<Rightarrow> [])"

abbreviation sender :: "NetIP \<Rightarrow> NodeHash" where
  "sender source \<equiv> IntoHash (IPFromNetIP source)"

text \<open>A property of the node manager that every event of a batch keeps.\<close>

lemma loop_keeps:
  assumes "valid_env e"
    and step: "\<And>ev n n'. ev \<in> set evs \<Longrightarrow> about ev \<noteq> self \<Longrightarrow> nodes_ok self n \<Longrightarrow> I n \<Longrightarrow> applyEvent period (ev_Payload ev) n = Some n' \<Longrightarrow> I n'"
  shows "processPingEvents_loop e period evs v s = Some (v', s') \<Longrightarrow> srv_inv s \<Longrightarrow> hostAddress s = self \<Longrightarrow> list_all typedEvent evs \<Longrightarrow>
    I (sw_nodes s) \<Longrightarrow> I (sw_nodes s') \<and> opt_SuspectPeriods s' = opt_SuspectPeriods s"
  using step
proof (induction evs arbitrary: v s)
  case (Cons ev evs)
  obtain g where g: "gossipAdd e ev s = Some (s\<lparr>sw_gossip := g\<rparr>)" "srv_inv (s\<lparr>sw_gossip := g\<rparr>)"
    using gossipAdd_about [OF assms(1) Cons.prems(2), of ev] Cons.prems(4) by auto
  let ?s = "s\<lparr>sw_gossip := g\<rparr>"
  have evs: "list_all typedEvent evs" "typedPayload (ev_Payload ev)" using Cons.prems(4) by (auto simp: typedEvent_def list_all_iff)
  show ?case
  proof (cases "isEventLocal ev ?s")
    case True
    then have "processPingEvents_loop e period evs (localEvent (incarnation s) ev v) ?s = Some (v', s')"
      using Cons.prems(1) g(1) by simp
    from Cons.IH [OF this g(2) _ evs(1)] Cons.prems(3, 5, 6) show ?thesis by auto
  next
    case False
    then have other: "about ev \<noteq> self" using Cons.prems(3) by (simp add: isEventLocal_def)
    have ok: "nodes_ok self (sw_nodes s)" using Cons.prems(2, 3) by (auto simp: srv_inv_def)
    obtain n where n: "applyEvent period (ev_Payload ev) (sw_nodes s) = Some n" "nodes_ok self n"
      using applyEvent_ok [OF ok evs(2)] by blast
    have rest: "processPingEvents_loop e period evs v (?s\<lparr>sw_nodes := n\<rparr>) = Some (v', s')"
      using Cons.prems(1) g(1) False n(1) by simp
    have "I n" using Cons.prems(6) [of ev "sw_nodes s" n] other ok Cons.prems(5) n(1) by simp
    with Cons.IH [OF rest _ _ evs(1)] srv_inv_nodes [OF g(2)] n(2) Cons.prems(3, 6) show ?thesis by auto
  qed
qed simp

lemma increment_same: "incrementIncarnationToSurpass e i s = Some s' \<Longrightarrow> same_nodes s s'"
  by (auto simp: increment_eq same_nodes_def dest!: gossipAdd_same)

lemma processPingEvents_same:
  assumes "processPingEvents e period evs s = Some s'"
  shows "\<exists>v s1. processPingEvents_loop e period evs (-1, False) s = Some (v, s1) \<and> same_nodes s1 s'"
  using assms by (auto simp: processPingEvents_def dest: increment_same gossipAdd_same split: Option.bind_splits if_splits)

lemma handlePong_same: "handlePong e pkt msg s = Some s' \<Longrightarrow> same_nodes s s'"
  by (fastforce simp: handlePong_def same_nodes_def emit_def Let_def dest!: increment_same Dispatch_same
      split: if_splits option.splits Option.bind_splits prod.splits)

text \<open>The member list after \<open>handlePing\<close> has noted the sender.\<close>

definition greeted :: "u16 \<Rightarrow> Node \<Rightarrow> nodeManager \<Rightarrow> nodeManager" where
  "greeted period v n = (let n = nodeManager_Add period v n in n\<lparr>nm_list := MarkStable (Hash v) (nm_list n)\<rparr>)"

lemma greeted_ok:
  assumes "nodes_ok self n" and "typedNode v"
  shows "nodes_ok self (greeted period v n)"
    and "members (nm_list (greeted period v n)) = m_stable (Hash v) (m_add self period v (members (nm_list n)))"
    and "nodesToPing (greeted period v n) = nodesToPing n"
proof -
  let ?add = "nodeManager_Add period v n"
  have add: "nodes_ok self ?add" using nodes_ok_step [OF assms(1) nm_Add] assms(2) by simp
  then show "nodes_ok self (greeted period v n)" using nodes_ok_step [OF add nm_MarkStable] by (simp add: greeted_def Let_def)
  have "members (nm_list ?add) = m_add self period v (members (nm_list n))"
    using nm_step_members [OF _ nm_Add, of n period v] assms(1) by (simp add: nodes_ok_def)
  moreover have "members (nm_list (greeted period v n)) = m_stable (Hash v) (members (nm_list ?add))"
    using nm_step_members [OF _ nm_MarkStable, of ?add "Hash v"] add by (simp add: nodes_ok_def greeted_def Let_def)
  ultimately show "members (nm_list (greeted period v n)) = m_stable (Hash v) (m_add self period v (members (nm_list n)))" by simp
  show "nodesToPing (greeted period v n) = nodesToPing n" by (simp add: greeted_def nodeManager_Add_def Let_def)
qed

lemma Dispatch_cases: "server_DispatchMessage e dst m s = Some s' \<Longrightarrow> s' = s \<or> (\<exists>buf. s' = emit (UDPOut dst buf) s)"
  by (auto simp: server_DispatchMessage_def split: Option.bind_splits option.splits)

lemma handlePing_shape:
  assumes "handlePing e period pkt msg s = Some s'" and "srv_inv s"
  shows "\<exists>s1. same_nodes s s1 \<and> hostAddress s1 = hostAddress s \<and> srv_inv s1
    \<and> processPingEvents e period (ping_Events msg) (s1\<lparr>sw_nodes := greeted period (pinger pkt) (sw_nodes s1)\<rparr>) = Some s'"
proof -
  obtain s1 where s1: "server_DispatchMessage e (p_Source pkt) (MPong (pingReply pkt msg s)) s = Some s1"
    "processPingEvents e period (ping_Events msg) (s1\<lparr>sw_nodes := greeted period (pinger pkt) (sw_nodes s1)\<rparr>) = Some s'"
    using assms(1) by (auto simp: handlePing_def greeted_def Let_def split: Option.bind_splits)
  have "same_nodes s s1 \<and> hostAddress s1 = hostAddress s" using Dispatch_cases [OF s1(1)] by (auto simp: same_nodes_def emit_def)
  moreover have "srv_inv s1" using Dispatch_cases [OF s1(1)] assms(2) by auto
  ultimately show ?thesis using s1(2) by blast
qed

text \<open>What a datagram is handled as.\<close>

lemma datagram_cases:
  assumes "HandleUDPControlMessage e period data source s = Some s'"
  obtains "s' = s" | d pkt where "Open (sw_ascon s) data = Some (Some d)" "ParsePacket d = Some (Inr pkt)" "packet_ok pkt"
    "handlePacket e period (pkt\<lparr>p_Source := source\<rparr>) s = Some s'"
proof -
  obtain opened where o: "Open (sw_ascon s) data = Some opened" using assms by (auto simp: HandleUDPControlMessage_def split: Option.bind_splits)
  show thesis
  proof (cases opened)
    case None
    with o assms that(1) show thesis by (simp add: HandleUDPControlMessage_def)
  next
    case (Some d)
    with ParsePacket_sound [of d] o assms that show thesis by (auto simp: HandleUDPControlMessage_def)
  qed
qed

lemma datagram_keeps:
  assumes "valid_env e" and "srv_inv s" and "HandleUDPControlMessage e period data source s = Some s'" and "I (sw_nodes s)"
    and greet: "\<And>v n. ping_in data s \<noteq> None \<Longrightarrow> Hash v = sender source \<Longrightarrow> typedNode v \<Longrightarrow> nodes_ok (hostAddress s) n \<Longrightarrow> I n \<Longrightarrow> I (greeted period v n)"
    and event: "\<And>ev n n'. ev \<in> set (carried data s) \<Longrightarrow> about ev \<noteq> hostAddress s \<Longrightarrow> nodes_ok (hostAddress s) n \<Longrightarrow> I n \<Longrightarrow>
      applyEvent period (ev_Payload ev) n = Some n' \<Longrightarrow> I n'"
  shows "I (sw_nodes s') \<and> opt_SuspectPeriods s' = opt_SuspectPeriods s"
  using assms(3)
proof (cases rule: datagram_cases)
  case 1
  with assms(4) show ?thesis by simp
next
  case (2 d pkt)
  have same: "I (sw_nodes t) \<and> opt_SuspectPeriods t = opt_SuspectPeriods s" if "same_nodes s t" for t
    using that assms(4) by (simp add: same_nodes_def)
  obtain m where m: "p_Message pkt = Some m" "typedMessage m" using 2(3) by (auto simp: packet_ok_def)
  show ?thesis
  proof (cases m)
    case (MPing msg)
    then have ping: "ping_in data s = Some msg" "carried data s = ping_Events msg" using 2 m by (simp_all add: ping_in_def carried_def)
    let ?v = "pinger (pkt\<lparr>p_Source := source\<rparr>)"
    have v: "typedNode ?v" "Hash ?v = sender source" by (simp_all add: typedNode_def Hash_def)
    obtain s1 where s1: "same_nodes s s1" "hostAddress s1 = hostAddress s" "srv_inv s1"
      "processPingEvents e period (ping_Events msg) (s1\<lparr>sw_nodes := greeted period ?v (sw_nodes s1)\<rparr>) = Some s'"
      using handlePing_shape [OF _ assms(2), of e period "pkt\<lparr>p_Source := source\<rparr>" msg] 2(4) m MPing by (auto simp: handlePacket_def)
    let ?s2 = "s1\<lparr>sw_nodes := greeted period ?v (sw_nodes s1)\<rparr>"
    have ok: "nodes_ok (hostAddress s) (sw_nodes s1)" using s1(2, 3) by (simp add: srv_inv_def)
    have inv: "srv_inv ?s2" using srv_inv_nodes [OF s1(3)] greeted_ok(1) [OF ok v(1)] s1(2) by simp
    have I: "I (sw_nodes ?s2)" using greet [OF _ v(2, 1) ok] ping(1) s1(1) assms(4) by (simp add: same_nodes_def)
    obtain w s3 where s3: "processPingEvents_loop e period (ping_Events msg) (-1, False) ?s2 = Some (w, s3)" "same_nodes s3 s'"
      using processPingEvents_same [OF s1(4)] by blast
    have "list_all typedEvent (ping_Events msg)" using m MPing by simp
    from loop_keeps [where I = I and self = "hostAddress s", OF assms(1) _ s3(1) inv _ this I] event s1(1, 2) s3(2) ping(2)
    show ?thesis by (auto simp: same_nodes_def)
  qed (use 2(4) m same in \<open>auto simp: handlePacket_def same_nodes_def emit_def dest: handlePong_same split: if_splits\<close>)
qed

subsection \<open>What the other inputs change\<close>

text \<open>The inputs that merge a node list, after which the ping list is made anew.\<close>

fun merging :: "input \<Rightarrow> bool" where
  "merging (TCPArrival source t) \<longleftrightarrow> True"
| "merging (SyncRequestJob msg) \<longleftrightarrow> True"
| "merging (SyncReply source reply) \<longleftrightarrow> True"
| "merging _ \<longleftrightarrow> False"

text \<open>What the loop knows of its period, besides whether it was acknowledged.\<close>

definition same_period :: "runLoop \<Rightarrow> runLoop \<Rightarrow> bool" where
  "same_period r r' \<longleftrightarrow> rp_id (rl_period r') = rp_id (rl_period r) \<and> rp_node (rl_period r') = rp_node (rl_period r)"

definition same_member :: "NodeHash \<Rightarrow> swimServer \<Rightarrow> swimServer \<Rightarrow> bool" where
  "same_member h s s' \<longleftrightarrow> (known s h \<noteq> None \<longrightarrow> known s' h = known s h) \<and> opt_SuspectPeriods s' = opt_SuspectPeriods s"

lemma same_nodes_member: "same_nodes s s' \<Longrightarrow> same_member h s s'"
  by (simp add: same_nodes_def same_member_def)

lemma fold_m_add_known: "m h \<noteq> None \<Longrightarrow> fold (m_add self p) vs m h = m h"
  by (induction vs arbitrary: m) (auto simp: m_add_def)

lemma incoming_member: "srv_inv s \<Longrightarrow> same_member h s (server_HandleIncomingNodeList e p vs s)"
  unfolding same_member_def IncomingNodeList_members [of s]
  by (simp add: fold_m_add_known server_HandleIncomingNodeList_def Let_def)

lemma emit_same [simp]: "same_nodes s (emit x s)" "same_nodes (emit x s) s' = same_nodes s s'" "same_member h s (emit x s')= same_member h s s'"
  by (simp_all add: same_nodes_def same_member_def emit_def)

lemma joined_member:
  assumes "srv_inv s" and "server_PerformBootstrapComplete e p v s = Some s'"
  shows "same_member h s s' \<and> pings s' = pings s"
proof -
  let ?s = "s\<lparr>sw_nodes := nodeManager_Add p v (sw_nodes s)\<rparr>"
  have "same_nodes ?s s'" using assms(2) by (auto simp: server_PerformBootstrapComplete_def dest: gossipAdd_same)
  moreover have "known ?s = m_add (selfAddr (nm_list (sw_nodes s))) p v (known s)"
    using nm_step_members [OF srv_nodes(1) [OF assms(1)] nm_Add] by simp
  ultimately show ?thesis by (auto simp: same_nodes_def same_member_def m_add_def nodeManager_Add_def)
qed

lemma HandleTCP_member:
  assumes "srv_inv s" and "HandleTCPPacket e p source t m s = Some (ops, m', s')"
  shows "same_member h s s'"
  using assms incoming_member [OF assms(1)]
  by (auto simp: HandleTCPPacket_def HandleBootstrap_def sync_server_def same_nodes_member Let_def
      split: Option.bind_splits sum.splits option.splits Message.splits if_splits)

lemma other_input:
  assumes "handle e i y = Some y'" and "srv_inv (sy_server y)"
    and "\<And>data source. i \<noteq> Datagram data source" and "\<And>rnd now. i \<noteq> PeriodStart rnd now" and "i \<noteq> PeriodEnd"
  shows "same_member h (sy_server y) (sy_server y') \<and> same_period (sy_loop y) (sy_loop y')
    \<and> (\<not> merging i \<longrightarrow> pings (sy_server y') = pings (sy_server y))"
proof -
  let ?s = "sy_server y"
  have quiet: ?thesis if "same_nodes ?s (sy_server y')" "same_period (sy_loop y) (sy_loop y')"
    using that same_nodes_member [OF that(1)] by (simp add: same_nodes_def)
  have loop: "same_period r r" for r by (simp add: same_period_def)
  show ?thesis
  proof (cases i)
    case (Multicast rnd data source)
    with assms(1) quiet loop Dispatch_same show ?thesis
      by (auto simp: HandleMulticastMessage_def set_server_def split: Option.bind_splits option.splits sum.splits if_splits)
  next
    case (IndirectPingJob rnd msg pkt)
    with assms(1) quiet loop show ?thesis
      by (auto simp: performIndirectPing_def set_server_def same_nodes_def emit_def Let_def dest!: Dispatch_same split: Option.bind_splits)
  next
    case (CallbackTimer tag)
    with assms(1) quiet loop show ?thesis by (auto simp: set_server_def deleteCallback_def same_nodes_def)
  next
    case (PeriodEvent ev)
    then obtain r' s' where w: "waitPeriod (server_delegate e) [ev] (sy_loop y) ?s = Some (r', s')" "y' = set_loop y (r', s')"
      using assms(1) by auto
    with waitPeriod_same [OF w(1)] waitPeriod_period [OF w(1)] quiet show ?thesis by (simp add: set_loop_def same_period_def)
  next
    case (TCPArrival source t)
    with assms(1) HandleTCP_member [OF assms(2)] loop show ?thesis by auto
  next
    case (SyncRequestJob msg)
    with assms(1) incoming_member [OF assms(2)] loop show ?thesis
      by (auto simp: HandleSyncRequest_def sync_server_def set_server_def Let_def split: Option.bind_splits sum.splits)
  next
    case (ExchangeStart mode est wr)
    with assms(1) quiet loop show ?thesis by auto
  next
    case (SyncReply source reply)
    with assms(1) incoming_member [OF assms(2)] loop same_nodes_member show ?thesis
      by (auto simp: PerformSync_response_def sync_server_def set_server_def Let_def split: Option.bind_splits option.splits)
  next
    case (BootstrapReply target source reply)
    with assms(1) quiet loop joined_member [OF assms(2)] show ?thesis
      by (fastforce simp: PerformBootstrap_response_def sync_server_def set_server_def Let_def split: Option.bind_splits option.splits)
  next
    case (BootEvent ev)
    with assms(1) quiet loop show ?thesis
      by (cases ev; cases "sy_boot y")
        (auto simp: runBootstrap_start_def DispatchMulticast_def same_nodes_def emit_def Let_def dest!: Dispatch_same split: Option.bind_splits option.splits if_splits)
  qed (use assms in auto)
qed

subsection \<open>What the loop changes\<close>

lemma start_effect:
  assumes "valid_env e" and "srv_inv s" and "startPeriod (server_delegate e) rnd now r s = Some (r', s')"
  shows "known s' = known s" and "pings s' = nodesToPing (advanced e s)" and "opt_SuspectPeriods s' = opt_SuspectPeriods s"
    and "rp_id (rl_period r') = rp_id (rl_period r)"
    and "known s h \<noteq> None \<Longrightarrow> pings s = h # xs \<Longrightarrow> rp_node (rl_period r') = h"
proof -
  have "same_nodes (s\<lparr>sw_nodes := advanced e s\<rparr>) s'" using startPeriod_nodes [OF assms(3)] .
  then show "known s' = known s" "pings s' = nodesToPing (advanced e s)" "opt_SuspectPeriods s' = opt_SuspectPeriods s"
    by (simp_all add: same_nodes_def advanced_def)
  show "rp_id (rl_period r') = rp_id (rl_period r)" using startPeriod_period [OF assms(3)] by simp
  have "fst (NextProbeSubject (server_delegate e) s) = probed e s"
    by (simp add: server_delegate_def server_NextProbeSubject_def probed_def split_beta Let_def)
  then show "rp_node (rl_period r') = h" if "known s h \<noteq> None" "pings s = h # xs"
    using startPeriod_period [OF assms(3)] that known_hash [OF assms(2), of h] by (auto simp: probed_eq [OF assms(2)])
qed

text \<open>What the verdict of a period does to the members.\<close>

definition verdict :: "runLoop \<Rightarrow> member_map \<Rightarrow> member_map" where
  "verdict r m = (if rp_node (rl_period r) = NodeHashZero then m else if rp_acked (rl_period r) then m_stable (rp_node (rl_period r)) m
     else m_suspect (rp_id (rl_period r)) False (rp_node (rl_period r)) m)"

lemma end_effect:
  assumes "valid_env e" and "srv_inv s" and "endPeriod (server_delegate e) r s = Some (r', s')"
  defines "c \<equiv> rp_id (rl_period r)"
  shows "known s' = sweep c (opt_SuspectPeriods s) (verdict r (known s))
    \<and> pings s' = filter (\<lambda>h. local_expired c (opt_SuspectPeriods s) (verdict r (known s)) h = None) (pings s)
    \<and> opt_SuspectPeriods s' = opt_SuspectPeriods s
    \<and> unat (rp_id (rl_period r')) = (if unat c \<ge> 65534 then 0 else unat c + 1)"
proof -
  let ?h = "rp_node (rl_period r)"
  obtain s3 s4 where s3: "(if ?h \<noteq> NodeHashZero then (if rp_acked (rl_period r) then server_SignalHealthyNode ?h s else server_SignalSuspectNode e c ?h s)
      else Some s) = Some s3" "server_ProcessExpiredSuspects e c s3 = Some s4" "same_nodes s4 s'"
    and r': "rl_period r' = unsafeIncrementID ((rl_period r)\<lparr>rp_node := NodeHashZero\<rparr>)"
    using assms(3) FullSync_same
    by (auto simp: endPeriod_def server_delegate_def CurrentPeriod_def c_def Let_def split: Option.bind_splits if_splits)
  have m3: "known s3 = verdict r (known s) \<and> pings s3 = pings s \<and> opt_SuspectPeriods s3 = opt_SuspectPeriods s"
    using s3(1) Healthy_nodes [OF assms(2)] Suspect_nodes [OF assms(2)] by (auto simp: verdict_def c_def split: if_splits)
  have "srv_inv s3"
    using s3(1) SignalSuspectNode_ok [OF assms(1, 2), of c ?h] srv_inv_step [OF assms(2) nm_MarkStable] assms(2)
    by (auto simp: server_SignalHealthyNode_def split: if_splits)
  from Expired_nodes [OF assms(1) this s3(2)] m3 s3(3) r' show ?thesis by (simp add: same_nodes_def unat_unsafeIncrementID c_def)
qed

subsection \<open>Accuracy\<close>

text \<open>Events about a member that was known at the incarnation \<open>inc\<close> and cannot harm it.\<close>

definition harmless :: "u16 \<Rightarrow> Event \<Rightarrow> bool" where
  "harmless inc ev \<longleftrightarrow> (case ev_Payload ev of PSuspect msg \<Rightarrow> e_Incarnation msg < inc | PFaulty msg \<Rightarrow> e_Incarnation msg < inc
     | PLeft msg \<Rightarrow> s_Incarnation msg < inc | PWrap msg \<Rightarrow> False | _ \<Rightarrow> True)"

text \<open>Nobody accuses the member at that incarnation or a later one, and a period that probed it does not end without an answer.\<close>

fun undisputed :: "NodeHash \<Rightarrow> u16 \<Rightarrow> input \<Rightarrow> system \<Rightarrow> bool" where
  "undisputed h inc (Datagram data source) y \<longleftrightarrow> (\<forall>ev \<in> set (carried data (sy_server y)). IntoHash (about ev) = h \<longrightarrow> harmless inc ev)"
| "undisputed h inc PeriodEnd y \<longleftrightarrow> (rp_node (rl_period (sy_loop y)) = h \<longrightarrow> rp_acked (rl_period (sy_loop y)))"
| "undisputed h inc _ y \<longleftrightarrow> True"

definition holds_stable :: "NodeHash \<Rightarrow> u16 \<Rightarrow> nodeManager \<Rightarrow> bool" where
  "holds_stable h inc n \<longleftrightarrow> (\<exists>w. members (nm_list n) h = Some (MStable w) \<and> inc \<le> n_Incarnation w)"

lemma stable_event:
  assumes "nodes_ok self n" and "holds_stable h inc n" and "applyEvent period (ev_Payload ev) n = Some n'"
    and "IntoHash (about ev) = h \<longrightarrow> harmless inc ev"
  shows "holds_stable h inc n'"
proof (cases "IntoHash (about ev) = h")
  case False
  with applyEvent_other [OF assms(1, 3)] assms(2) show ?thesis by (simp add: holds_stable_def)
next
  case True
  have inv: "nm_inv n" and cons: "nl_cons (nm_list n)" using assms(1) by (auto simp: nodes_ok_def nm_inv_def nl_inv_def)
  obtain w where w: "members (nm_list n) h = Some (MStable w)" "inc \<le> n_Incarnation w" using assms(2) by (auto simp: holds_stable_def)
  have upd: "holds_stable h inc (UpdateOrCreate period \<lparr>n_Suspect = b, n_Incarnation = i, n_Address = a\<rparr> n)"
    if "IntoHash a = h" "b \<longrightarrow> i < inc" for b i a
    using that w by (auto simp: holds_stable_def UpdateOrCreate_members [OF inv] m_update_def m_write_def m_stable_def m_suspect_def Hash_def)
  have found: "NodeByHash h (nm_list n) = Some w" using w(1) by (simp add: NodeByHash_members [OF cons])
  show ?thesis
    using assms(2-4) True upd found w(2) by (cases "ev_Payload ev") (auto simp: harmless_def applyEvent_def NodeByIP_def Let_def split: if_splits)
qed

lemma stable_greeted:
  assumes "nodes_ok self n" and "typedNode v" and "holds_stable h inc n"
  shows "holds_stable h inc (greeted period v n)"
  using assms(3) unfolding holds_stable_def greeted_ok(2) [OF assms(1, 2)] by (auto simp: m_stable_def m_add_def split: option.split member.split)

lemma stable_turn:
  assumes "valid_env e" and "sys_inv y" and "turn e i y y'" and "undisputed h inc i y" and "holds_stable h inc (sw_nodes (sy_server y))"
  shows "holds_stable h inc (sw_nodes (sy_server y'))"
proof -
  let ?s = "sy_server y" and ?r = "sy_loop y"
  have s: "srv_inv ?s" using assms(2) by (simp add: sys_inv_def)
  have handled: "handle e i y = Some y'" using assms(3) by (simp add: turn_def)
  obtain w where w: "known ?s h = Some (MStable w)" "inc \<le> n_Incarnation w" using assms(5) by (auto simp: holds_stable_def)
  show ?thesis
  proof (cases i)
    case (Datagram data source)
    then obtain s' where s': "HandleUDPControlMessage e (CurrentPeriod ?r) data source ?s = Some s'" "y' = set_server y s'" using handled by auto
    have "holds_stable h inc (sw_nodes s') \<and> opt_SuspectPeriods s' = opt_SuspectPeriods ?s"
      using datagram_keeps [where I = "holds_stable h inc", OF assms(1) s s'(1) assms(5)] stable_greeted stable_event assms(4) Datagram by auto
    then show ?thesis by (simp add: s'(2) set_server_def)
  next
    case (PeriodStart rnd now)
    then obtain r' s' where p: "startPeriod (server_delegate e) rnd now ?r ?s = Some (r', s')" "y' = set_loop y (r', s')" using handled by auto
    from start_effect(1) [OF assms(1) s p(1)] w show ?thesis by (simp add: p(2) set_loop_def holds_stable_def)
  next
    case PeriodEnd
    then obtain r' s' where p: "endPeriod (server_delegate e) ?r ?s = Some (r', s')" "y' = set_loop y (r', s')" using handled by auto
    have "verdict ?r (known ?s) h = Some (MStable w)"
      using w(1) assms(4) PeriodEnd by (auto simp: verdict_def m_stable_def m_suspect_def split: option.split member.split)
    with end_effect [OF assms(1) s p(1)] w(2) show ?thesis by (simp add: p(2) set_loop_def holds_stable_def sweep_def)
  qed (use other_input [OF handled s, of h] w in \<open>auto simp: holds_stable_def same_member_def\<close>)
qed

text \<open>C14: the failure detector is accurate, in the whole server. Let a member be stable at the incarnation \<open>inc\<close>. In every run from there,
  with any interleaving of the steps of the loop, datagrams, multicasts, TCP packets, replies, node lists, timers and bootstrap, it stays stable at that
  incarnation or a later one, as long as every period that probed it ends with its answer and no datagram carries a Suspect,
  Faulty or Left about it of that incarnation or a later one, or a Wrap of it. Older accusations and all other gossip do not matter.\<close>

theorem answering_member_kept:
  assumes "valid_env e" and "sys_inv y" and "stable (nm_list (sw_nodes (sy_server y))) h = Some v"
    and "trace (\<lambda>i y y'. turn e i y y' \<and> undisputed h (n_Incarnation v) i y) y inputs y'"
  shows "\<exists>w. stable (nm_list (sw_nodes (sy_server y'))) h = Some w \<and> n_Incarnation v \<le> n_Incarnation w"
proof -
  let ?R = "\<lambda>i y y'. turn e i y y' \<and> undisputed h (n_Incarnation v) i y"
  let ?I = "\<lambda>y. sys_inv y \<and> holds_stable h (n_Incarnation v) (sw_nodes (sy_server y))"
  have "invariant ?R ?I"
    using stable_turn [OF assms(1)] invariant.step_inv [OF turn_invariant [OF assms(1)]] by unfold_locales blast
  from invariant.trace_inv [OF this assms(4)] assms(2, 3) show ?thesis
    by (auto simp: holds_stable_def members_def split: option.splits)
qed

subsection \<open>Completeness\<close>















lemma unrestricted: "trace (\<lambda>i y y'. turn e i y y' \<and> C i y) y ins y' \<Longrightarrow> trace (turn e) y ins y'"
  by (induction rule: trace.induct) (auto intro: trace.intros)



text \<open>Periods in which nothing arrives.\<close>

lemma turn_total: "valid_env e \<Longrightarrow> sys_inv y \<Longrightarrow> possible i \<Longrightarrow> \<not> crashing i (sy_server y) \<Longrightarrow> \<exists>y'. turn e i y y' \<and> sys_inv y'"
  using handle_total by (auto simp: turn_def)


definition pairSystem :: system where
  "pairSystem = \<lparr>sy_loop = NewRunLoop 1000 1400 False 0, sy_manager = NewSyncManager, sy_boot = Advertising, sy_server = pairServer\<rparr>"

lemma pair_sys: "sys_inv pairSystem"
  using pair_inv by (simp add: sys_inv_def pairSystem_def NewSyncManager_def)


text \<open>A period in which the only peer answers.\<close>

theorem answering_member_kept_witness:
  "\<exists>y'. trace (turn plainEnv) pairSystem [PeriodStart 7 0, PeriodEvent (answerOf 7), PeriodEnd] y'
    \<and> (\<exists>w. stable (nm_list (sw_nodes (sy_server y'))) (hostHash 2) = Some w \<and> 4 \<le> n_Incarnation w)"
proof -
  let ?R = "\<lambda>i y y'. turn plainEnv i y y' \<and> undisputed (hostHash 2) (n_Incarnation (host False 4 2)) i y"
  obtain y1 where y1: "turn plainEnv (PeriodStart 7 0) pairSystem y1" "sys_inv y1"
    using turn_total [OF sortedEnv_valid pair_sys, of "PeriodStart 7 0"] by auto
  obtain y2 where y2: "turn plainEnv (PeriodEvent (answerOf 7)) y1 y2" "sys_inv y2"
    using turn_total [OF sortedEnv_valid y1(2), of "PeriodEvent (answerOf 7)"] by auto
  obtain y3 where y3: "turn plainEnv PeriodEnd y2 y3"
    using turn_total [OF sortedEnv_valid y2(2), of PeriodEnd] by auto
  have "fst (NextProbeSubject (server_delegate plainEnv) pairServer) = Some (host False 4 2)"
    using probed_eq [OF pair_inv, of plainEnv]
    by (simp add: server_delegate_def server_NextProbeSubject_def probed_def split_beta Let_def members_def)
  then have "rp_id (rl_period (sy_loop y1)) = 1 \<and> rp_cookie (rl_period (sy_loop y1)) = 7"
    using y1(1) by (auto simp: turn_def pairSystem_def set_loop_def startPeriod_def makeCookie_def NewRunLoop_def Let_def split_beta split: Option.bind_splits)
  then have "rp_acked (rl_period (sy_loop y2))"
    using y2(1) waitPeriod_period [of "server_delegate plainEnv" "[answerOf 7]" "sy_loop y1" "sy_server y1"]
    by (auto simp: turn_def set_loop_def answers_def Pkt_def simp del: waitPeriod.simps)
  with y1 y2 y3 have run: "trace ?R pairSystem [PeriodStart 7 0, PeriodEvent (answerOf 7), PeriodEnd] y3" by (auto simp: trace_Cons_iff)
  have "stable (nm_list (sw_nodes (sy_server pairSystem))) (hostHash 2) = Some (host False 4 2)" by (simp add: pairSystem_def)
  from answering_member_kept [OF sortedEnv_valid pair_sys this run] unrestricted [OF run] show ?thesis by auto
qed

end
