(* ===== verification/Period_Timing.thy ===== *)
theory Period_Timing
  imports Goroutines Failure_Detection
begin

text \<open>
  \<open>internal/core/runloop.go\<close>: the loop with its two timers and the clock. \<open>Run_Loop\<close> takes what \<open>waitPeriod\<close> receives as a list; here the
  list is what the timers of the standard library, the channel of messages and the choices of \<open>select\<close> make of it. A label is a
  statement of the loop, the passing of time, a timer of the runtime that fires, or a message another goroutine sends. The
  loop is the one of a server that is not shut down (\<open>Run_Loop_Control\<close> is about that).

  Time is in nanoseconds. A timer holds the time at which it is due, while it is active, and whether its channel, of capacity one, holds a
  tick. The language version of the module is 1.21: \<open>Reset\<close> and \<open>Stop\<close> leave the channel as it is. A timer that fires puts its tick into the channel in the
  same step. (In the runtimes before 1.23 a \<open>Stop\<close> that comes in between returns false with the channel still empty, so that a drain that does not
  wait, as that of \<open>waitPeriod\<close>, can miss the tick.)
\<close>

subsection \<open>Timers\<close>

record Timer =
  timer_due :: "int option"
  timer_C :: bool

definition NewTimer :: "int \<Rightarrow> int \<Rightarrow> Timer" where
  "NewTimer now d = \<lparr>timer_due = Some (now + d), timer_C = False\<rparr>"

definition Timer_Reset :: "int \<Rightarrow> int \<Rightarrow> Timer \<Rightarrow> Timer" where
  "Timer_Reset now d x = x\<lparr>timer_due := Some (now + d)\<rparr>"

text \<open>\<open>Stop\<close> reports whether it stopped the timer.\<close>

definition Timer_Stop :: "Timer \<Rightarrow> bool \<times> Timer" where
  "Timer_Stop x = (timer_due x \<noteq> None, x\<lparr>timer_due := None\<rparr>)"

text \<open>What the runtime does when a timer is due.\<close>

definition Timer_fire :: "int \<Rightarrow> Timer option \<Rightarrow> Timer option" where
  "Timer_fire now x = do {
     x \<leftarrow> x;
     d \<leftarrow> timer_due x;
     if d \<le> now then Some (x\<lparr>timer_due := None, timer_C := True\<rparr>) else None
   }"

text \<open>A receive from the channel of a timer; a nil timer has none.\<close>

definition Timer_receive :: "Timer option \<Rightarrow> Timer option" where
  "Timer_receive x = do { x \<leftarrow> x; if timer_C x then Some (x\<lparr>timer_C := False\<rparr>) else None }"

subsection \<open>The loop\<close>

datatype timed_pc = AtStart | AtReset | AtResetPing | AtSelect | AtBreak | AtEnd | Panicked

record 'd timedLoop =
  tl_loop :: runLoop
  tl_delegate :: 'd
  tl_timer :: "Timer option"
  tl_pingTimeout :: "Timer option"
  tl_incoming :: "Packet list"
  tl_now :: int
  tl_pc :: timed_pc

datatype timed_label = TimePasses nat | TimerFires | PingTimerFires | MessageArrives Packet
  | StartsPeriod nat | ResetsTimer | ResetsPing | TakesTimer | TakesPing | TakesMessage | LeavesWait | EndsPeriod

definition NewTimedLoop :: "int \<Rightarrow> runLoop \<Rightarrow> 'd \<Rightarrow> 'd timedLoop" where
  "NewTimedLoop now r d = \<lparr>tl_loop = r, tl_delegate = d, tl_timer = None, tl_pingTimeout = None, tl_incoming = [], tl_now = now, tl_pc = AtStart\<rparr>"

definition resetPeriodTimer :: "'d timedLoop \<Rightarrow> 'd timedLoop" where
  "resetPeriodTimer t = (let duration = rp_duration (rl_period (tl_loop t)) in case tl_timer t of
     None \<Rightarrow> t\<lparr>tl_timer := Some (NewTimer (tl_now t) duration)\<rparr>
   | Some x \<Rightarrow> t\<lparr>tl_timer := Some (Timer_Reset (tl_now t) duration x)\<rparr>)"

definition resetPingTimeout :: "int \<Rightarrow> 'd timedLoop \<Rightarrow> 'd timedLoop" where
  "resetPingTimeout duration t = (case tl_pingTimeout t of
     None \<Rightarrow> t\<lparr>tl_pingTimeout := Some (NewTimer (tl_now t) duration)\<rparr>
   | Some x \<Rightarrow> t\<lparr>tl_pingTimeout := Some (Timer_Reset (tl_now t) duration x)\<rparr>)"

text \<open>The end of \<open>waitPeriod\<close>: the timer of the ping is stopped, and if it had fired its channel is emptied.\<close>

definition stopPingTimeout :: "'d timedLoop \<Rightarrow> 'd timedLoop" where
  "stopPingTimeout t = t\<lparr>tl_pingTimeout := map_option (\<lambda>x.
     let (active, x) = Timer_Stop x in if \<not> active then x\<lparr>timer_C := False\<rparr> else x) (tl_pingTimeout t)\<rparr>"

text \<open>A part of a period, after which the loop goes on at \<open>pc\<close>.\<close>

definition proceed :: "timed_pc \<Rightarrow> (runLoop \<times> 'd) option \<Rightarrow> 'd timedLoop \<Rightarrow> 'd timedLoop" where
  "proceed pc result t = (case result of None \<Rightarrow> t\<lparr>tl_pc := Panicked\<rparr>
     | Some (r, d) \<Rightarrow> t\<lparr>tl_loop := r, tl_delegate := d, tl_pc := pc\<rparr>)"

fun tl_step :: "'d RunLoopDelegate \<Rightarrow> (int list \<Rightarrow> int) \<Rightarrow> timed_label \<Rightarrow> 'd timedLoop \<Rightarrow> 'd timedLoop option" where
  "tl_step del quantile (TimePasses n) t = Some (t\<lparr>tl_now := tl_now t + int n\<rparr>)"
| "tl_step del quantile TimerFires t = do { x \<leftarrow> Timer_fire (tl_now t) (tl_timer t); Some (t\<lparr>tl_timer := Some x\<rparr>) }"
| "tl_step del quantile PingTimerFires t = do { x \<leftarrow> Timer_fire (tl_now t) (tl_pingTimeout t); Some (t\<lparr>tl_pingTimeout := Some x\<rparr>) }"
| "tl_step del quantile (MessageArrives pkt) t = (if length (tl_incoming t) < 10 then Some (t\<lparr>tl_incoming := tl_incoming t @ [pkt]\<rparr>) else None)"
| "tl_step del quantile (StartsPeriod rnd) t = (if tl_pc t = AtStart
     then Some (proceed AtReset (startPeriod del rnd (tl_now t) (tl_loop t) (tl_delegate t)) t) else None)"
| "tl_step del quantile ResetsTimer t = (if tl_pc t = AtReset then Some ((resetPeriodTimer t)\<lparr>tl_pc := AtResetPing\<rparr>) else None)"
| "tl_step del quantile ResetsPing t = (if tl_pc t = AtResetPing
     then Some ((resetPingTimeout (pingTimeout del quantile (tl_loop t) (tl_delegate t)) t)\<lparr>tl_pc := AtSelect\<rparr>) else None)"
| "tl_step del quantile TakesTimer t = (if tl_pc t = AtSelect
     then do { x \<leftarrow> Timer_receive (tl_timer t); Some (t\<lparr>tl_timer := Some x, tl_pc := AtBreak\<rparr>) } else None)"
| "tl_step del quantile TakesPing t = (if tl_pc t = AtSelect
     then do {
       x \<leftarrow> Timer_receive (tl_pingTimeout t);
       Some (proceed AtSelect (waitPeriod del [PingTimeoutFired] (tl_loop t) (tl_delegate t)) (t\<lparr>tl_pingTimeout := Some x\<rparr>))
     } else None)"
| "tl_step del quantile TakesMessage t = (if tl_pc t = AtSelect then (case tl_incoming t of [] \<Rightarrow> None
     | msg # rest \<Rightarrow> Some (proceed AtSelect (waitPeriod del [MessageReceived (tl_now t) msg] (tl_loop t) (tl_delegate t)) (t\<lparr>tl_incoming := rest\<rparr>))) else None)"
| "tl_step del quantile LeavesWait t = (if tl_pc t = AtBreak then Some ((stopPingTimeout t)\<lparr>tl_pc := AtEnd\<rparr>) else None)"
| "tl_step del quantile EndsPeriod t = (if tl_pc t = AtEnd
     then Some (proceed AtStart (endPeriod del (tl_loop t) (tl_delegate t)) t) else None)"

lemmas timer_defs = NewTimer_def Timer_Reset_def Timer_Stop_def Timer_fire_def Timer_receive_def
lemmas timed_defs = timer_defs resetPeriodTimer_def resetPingTimeout_def stopPingTimeout_def proceed_def

subsection \<open>The timers between periods\<close>

text \<open>A timer that is not active and whose channel is empty; one that is active or has ticked, but not both.\<close>

definition idle :: "Timer option \<Rightarrow> bool" where
  "idle x = (case x of None \<Rightarrow> True | Some x \<Rightarrow> timer_due x = None \<and> \<not> timer_C x)"

definition outstanding :: "Timer option \<Rightarrow> nat" where
  "outstanding x = (case x of None \<Rightarrow> 0 | Some x \<Rightarrow> of_bool (timer_due x \<noteq> None) + of_bool (timer_C x))"

lemma idle_outstanding: "idle x \<longleftrightarrow> outstanding x = 0"
  by (auto simp: idle_def outstanding_def split: option.split)

definition timers_ok :: "'d timedLoop \<Rightarrow> bool" where
  "timers_ok t = (case tl_pc t of
     AtStart \<Rightarrow> outstanding (tl_timer t) = 0 \<and> outstanding (tl_pingTimeout t) = 0
   | AtReset \<Rightarrow> outstanding (tl_timer t) = 0 \<and> outstanding (tl_pingTimeout t) = 0
   | AtResetPing \<Rightarrow> outstanding (tl_timer t) = 1 \<and> outstanding (tl_pingTimeout t) = 0
   | AtSelect \<Rightarrow> outstanding (tl_timer t) = 1 \<and> outstanding (tl_pingTimeout t) \<le> 1
   | AtBreak \<Rightarrow> outstanding (tl_timer t) = 0 \<and> outstanding (tl_pingTimeout t) \<le> 1
   | AtEnd \<Rightarrow> outstanding (tl_timer t) = 0 \<and> outstanding (tl_pingTimeout t) = 0
   | Panicked \<Rightarrow> True)"

lemma outstanding_Some: "outstanding (Some x) = of_bool (timer_due x \<noteq> None) + of_bool (timer_C x)"
  by (simp add: outstanding_def)

lemma outstanding_fire: "Timer_fire now x = Some y \<Longrightarrow> outstanding x \<le> 1 \<Longrightarrow> outstanding (Some y) = 1 \<and> outstanding x = 1"
  by (auto simp: Timer_fire_def outstanding_Some split: Option.bind_splits if_splits)

lemma outstanding_receive: "Timer_receive x = Some y \<Longrightarrow> outstanding x = outstanding (Some y) + 1"
  by (auto simp: Timer_receive_def outstanding_Some split: Option.bind_splits if_splits)

lemma resetPeriodTimer_fields [simp]:
  "tl_loop (resetPeriodTimer t) = tl_loop t" "tl_delegate (resetPeriodTimer t) = tl_delegate t" "tl_pingTimeout (resetPeriodTimer t) = tl_pingTimeout t"
  "tl_incoming (resetPeriodTimer t) = tl_incoming t" "tl_now (resetPeriodTimer t) = tl_now t"
  by (simp_all add: resetPeriodTimer_def Let_def split: option.split)

lemma resetPingTimeout_fields [simp]:
  "tl_loop (resetPingTimeout d t) = tl_loop t" "tl_delegate (resetPingTimeout d t) = tl_delegate t" "tl_timer (resetPingTimeout d t) = tl_timer t"
  "tl_incoming (resetPingTimeout d t) = tl_incoming t" "tl_now (resetPingTimeout d t) = tl_now t"
  by (simp_all add: resetPingTimeout_def split: option.split)

lemma resetPeriodTimer_due:
  "outstanding (tl_timer t) = 0 \<Longrightarrow>
   tl_timer (resetPeriodTimer t) = Some \<lparr>timer_due = Some (tl_now t + rp_duration (rl_period (tl_loop t))), timer_C = False\<rparr>"
  by (cases "tl_timer t") (auto simp: resetPeriodTimer_def NewTimer_def Timer_Reset_def outstanding_Some Let_def)

lemma resetPingTimeout_due:
  "outstanding (tl_pingTimeout t) = 0 \<Longrightarrow> tl_pingTimeout (resetPingTimeout d t) = Some \<lparr>timer_due = Some (tl_now t + d), timer_C = False\<rparr>"
  by (cases "tl_pingTimeout t") (auto simp: resetPingTimeout_def NewTimer_def Timer_Reset_def outstanding_Some)

lemma stopPingTimeout_fields [simp]:
  "tl_loop (stopPingTimeout t) = tl_loop t" "tl_delegate (stopPingTimeout t) = tl_delegate t" "tl_timer (stopPingTimeout t) = tl_timer t"
  "tl_incoming (stopPingTimeout t) = tl_incoming t" "tl_now (stopPingTimeout t) = tl_now t"
  by (simp_all add: stopPingTimeout_def)

lemma outstanding_stop: "outstanding (tl_pingTimeout t) \<le> 1 \<Longrightarrow> outstanding (tl_pingTimeout (stopPingTimeout t)) = 0"
  by (cases "tl_pingTimeout t") (auto simp: stopPingTimeout_def Timer_Stop_def outstanding_def split: if_splits)

lemma proceed_fields [simp]:
  "tl_timer (proceed pc x t) = tl_timer t" "tl_pingTimeout (proceed pc x t) = tl_pingTimeout t" "tl_incoming (proceed pc x t) = tl_incoming t"
  "tl_now (proceed pc x t) = tl_now t"
  by (simp_all add: proceed_def split: option.split)

lemma proceed_pc: "tl_pc (proceed pc x t) = (if x = None then Panicked else pc)"
  by (auto simp: proceed_def split: option.split)

text \<open>The statements that a label stands for, with what has to hold for it.\<close>

lemma timers_step:
  assumes "timers_ok t" and "tl_step del q l t = Some t'"
  shows "timers_ok t'"
proof (cases l)
  case TimerFires
  with assms show ?thesis by (auto simp: timers_ok_def dest!: outstanding_fire split: timed_pc.splits Option.bind_splits)
next
  case PingTimerFires
  with assms show ?thesis by (auto simp: timers_ok_def dest!: outstanding_fire split: timed_pc.splits Option.bind_splits)
next
  case TakesTimer
  with assms show ?thesis by (auto simp: timers_ok_def dest!: outstanding_receive split: if_splits Option.bind_splits)
next
  case TakesPing
  with assms show ?thesis by (auto simp: timers_ok_def proceed_pc dest!: outstanding_receive simp del: waitPeriod.simps split: if_splits Option.bind_splits)
next
  case TakesMessage
  with assms show ?thesis by (auto simp: timers_ok_def proceed_pc simp del: waitPeriod.simps split: if_splits list.splits)
qed (use assms in \<open>auto simp: timers_ok_def proceed_pc resetPeriodTimer_due resetPingTimeout_due outstanding_stop outstanding_Some split: if_splits timed_pc.splits\<close>)

interpretation timers: invariant "fires (tl_step del q)" timers_ok
  by unfold_locales (rule timers_step)

subsection \<open>A run of the loop is a sequence of periods\<close>





















subsection \<open>How long periods last\<close>

lemma durations [simp]:
  "startPeriod del rnd now r d = Some (r', d') \<Longrightarrow> rp_duration (rl_period r') = rp_duration (rl_period r)"
  "waitPeriod del evs r d = Some (r', d') \<Longrightarrow> rp_duration (rl_period r') = rp_duration (rl_period r)"
  "endPeriod del r d = Some (r', d') \<Longrightarrow> rp_duration (rl_period r') = rp_duration (rl_period r)"
  by (auto simp: startPeriod_def makeCookie_def endPeriod_def unsafeIncrementID_def Let_def
      dest!: waitPeriod_period split: prod.splits option.splits Option.bind_splits if_splits)

abbreviation duration :: "'d timedLoop \<Rightarrow> int" where
  "duration t \<equiv> rp_duration (rl_period (tl_loop t))"

text \<open>The time by which the period under way can be over: that at which its timer is due, or now.\<close>

definition horizon :: "'d timedLoop \<Rightarrow> int" where
  "horizon t = (case tl_timer t of Some x \<Rightarrow> (case timer_due x of Some d \<Rightarrow> d | None \<Rightarrow> tl_now t) | None \<Rightarrow> tl_now t)"








subsection \<open>The loop under a delegate that keeps its contract\<close>








subsection \<open>The wait ends\<close>

definition wait_step :: "'d RunLoopDelegate \<Rightarrow> (int list \<Rightarrow> int) \<Rightarrow> timed_label \<Rightarrow> 'd timedLoop \<Rightarrow> 'd timedLoop \<Rightarrow> bool" where
  "wait_step del q l t t' \<longleftrightarrow> tl_pc t = AtSelect \<and> tl_step del q l t = Some t'"

definition leaving :: "timed_label \<Rightarrow> bool" where
  "leaving l \<longleftrightarrow> l = TimerFires \<or> l = TakesTimer"

definition overdue :: "'d timedLoop \<Rightarrow> bool" where
  "overdue t \<longleftrightarrow> tl_pc t = AtSelect \<longrightarrow> horizon t \<le> tl_now t"

definition wait_rank :: "'d timedLoop \<Rightarrow> nat" where
  "wait_rank t = (if tl_pc t \<noteq> AtSelect then 0 else case tl_timer t of Some x \<Rightarrow> if timer_due x = None then 1 else 2 | None \<Rightarrow> 2)"

interpretation wait: stoppable "wait_step del q" timers_ok leaving overdue "\<lambda>t. tl_pc t \<noteq> AtSelect" wait_rank
proof unfold_locales
  fix s t l
  assume "timers_ok s" "wait_step del q l s t"
  then show "timers_ok t" unfolding wait_step_def using timers_step by blast
next
  fix s t l
  assume "timers_ok s" "overdue s" "wait_step del q l s t"
  then show "overdue t"
    by (cases l) (auto simp: wait_step_def overdue_def horizon_def Timer_fire_def simp del: waitPeriod.simps
        split: option.splits Option.bind_splits if_splits list.splits)
next
  fix s t l
  assume "timers_ok s" "leaving l" "wait_step del q l s t"
  then show "wait_rank t < wait_rank s"
    by (auto simp: wait_step_def leaving_def wait_rank_def timers_ok_def Timer_fire_def Timer_receive_def outstanding_Some
        split: option.splits Option.bind_splits if_splits)
next
  fix s t l
  assume "timers_ok s" "\<not> leaving l" "wait_step del q l s t"
  then show "wait_rank t \<le> wait_rank s"
    by (cases l) (auto simp: wait_step_def leaving_def wait_rank_def simp del: waitPeriod.simps split: option.splits Option.bind_splits if_splits list.splits)
next
  fix s :: "'a timedLoop"
  assume *: "timers_ok s" "overdue s" "\<not> tl_pc s \<noteq> AtSelect"
  then obtain x where x: "tl_timer s = Some x" "outstanding (Some x) = 1" by (cases "tl_timer s") (auto simp: timers_ok_def outstanding_def)
  show "\<exists>l t. leaving l \<and> wait_step del q l s t"
  proof (cases "timer_due x")
    case None
    with x * have "tl_step del q TakesTimer s \<noteq> None" by (cases "timer_C x") (simp_all add: Timer_receive_def outstanding_Some)
    with * show ?thesis by (auto simp: wait_step_def leaving_def)
  next
    case (Some d)
    with x * have "tl_step del q TimerFires s \<noteq> None" by (simp add: Timer_fire_def overdue_def horizon_def)
    with * show ?thesis by (auto simp: wait_step_def leaving_def)
  qed
qed

text \<open>C18: the wait of a period ends. Once the timer of the period is due, whatever else the select takes or other goroutines do, at most two more steps are those of the
  timer (it fires and it is received), and as long as the loop has not left the wait one of them can be taken.\<close>

theorem wait_ends:
  assumes "timers_ok s" and "tl_pc s = AtSelect" and "tl_timer s = Some x" and "timer_due x = Some d" and "d \<le> tl_now s"
    and "trace (wait_step del q) s ls t"
  shows "length (filter leaving ls) \<le> 2 \<and> (tl_pc t \<noteq> AtSelect \<or> (\<exists>l t'. leaving l \<and> wait_step del q l t t'))"
proof -
  have "overdue s" "wait_rank s = 2" using assms(2-5) by (simp_all add: overdue_def horizon_def wait_rank_def)
  with wait.returns [OF assms(1) _ assms(6)] show ?thesis by auto
qed

theorem wait_ends_witness:
  "\<exists>s. run (tl_step (recorder probedNode) (\<lambda>_. 0)) [StartsPeriod 7, ResetsTimer, ResetsPing, TimePasses 1000]
      (NewTimedLoop 0 (NewRunLoop 1000 1400 False 0) []) = Some s
    \<and> (tl_pc s \<noteq> AtSelect \<or> (\<exists>l t'. leaving l \<and> wait_step (recorder probedNode) (\<lambda>_. 0) l s t'))"
proof -
  let ?s = "NewTimedLoop 0 (NewRunLoop 1000 1400 False 0) []"
  obtain s where s: "run (tl_step (recorder probedNode) (\<lambda>_. 0)) [StartsPeriod 7, ResetsTimer, ResetsPing, TimePasses 1000] ?s = Some s"
      "tl_pc s = AtSelect" "tl_timer s = Some \<lparr>timer_due = Some 1000, timer_C = False\<rparr>" "tl_now s = 1000" "outstanding (tl_pingTimeout s) = 1"
    by (simp add: NewTimedLoop_def recorder_def NewRunLoop_def startPeriod_def makeCookie_def registerSentPing_def pingTimeout_def timed_defs outstanding_def)
  then have "timers_ok s" by (simp add: timers_ok_def outstanding_Some)
  from wait_ends [OF this s(2, 3), of 1000 "recorder probedNode" "\<lambda>_. 0" "[]"] s(1, 4) show ?thesis by auto
qed

subsection \<open>The adaptive timeout\<close>

text \<open>A percentile of samples lies within their bounds.\<close>

definition bounded_quantile :: "(int list \<Rightarrow> int) \<Rightarrow> bool" where
  "bounded_quantile q \<longleftrightarrow> (\<forall>xs b. xs \<noteq> [] \<longrightarrow> (\<forall>x \<in> set xs. x \<le> b) \<longrightarrow> q xs \<le> b)"

text \<open>A loop that is not kept from running: it handles the timeout of a ping before a message that arrives after it, and takes less than a
  millisecond from the time it notes for a ping to the reset of the timer. Periods that probe no node get no messages.\<close>

definition prompt :: "timed_label \<Rightarrow> 'd timedLoop \<Rightarrow> bool" where
  "prompt l t = (let p = rl_period (tl_loop t) in case l of
     TakesMessage \<Rightarrow> rp_node p \<noteq> NodeHashZero \<and> (case tl_pingTimeout t of None \<Rightarrow> False
       | Some x \<Rightarrow> \<not> timer_C x \<and> (case timer_due x of None \<Rightarrow> True | Some d \<Rightarrow> tl_now t < d))
   | ResetsPing \<Rightarrow> (case pingTimestamps (tl_loop t) (rp_periodHash p) of None \<Rightarrow> True | Some sent \<Rightarrow> tl_now t - sent < 1000000)
   | _ \<Rightarrow> True)"

definition prompt_step :: "'d RunLoopDelegate \<Rightarrow> (int list \<Rightarrow> int) \<Rightarrow> timed_label \<Rightarrow> 'd timedLoop \<Rightarrow> 'd timedLoop option" where
  "prompt_step del q l t = (if prompt l t then tl_step del q l t else None)"

abbreviation sent :: "'d timedLoop \<Rightarrow> int option" where
  "sent t \<equiv> pingTimestamps (tl_loop t) (rp_periodHash (rl_period (tl_loop t)))"

text \<open>The samples are bounded, and while the time of the ping is noted the timer of the ping is due within that bound.\<close>

definition samples_ok :: "int \<Rightarrow> runLoop \<Rightarrow> bool" where
  "samples_ok B r \<longleftrightarrow> rl_adaptivePings r \<and> (\<forall>x \<in> set (rl_samples r). x \<le> B)
     \<and> (rl_samples r = [] \<longrightarrow> rp_duration (rl_period r) sdiv 2 \<le> B * 1000000)"

definition tagged :: "runLoop \<Rightarrow> bool" where
  "tagged r \<longleftrightarrow> (rp_node (rl_period r) \<noteq> NodeHashZero \<longrightarrow> rp_periodHash (rl_period r) = periodTag (rp_cookie (rl_period r)) (rp_id (rl_period r)))"

definition in_time :: "int \<Rightarrow> int option \<Rightarrow> Timer option \<Rightarrow> bool" where
  "in_time B noted x = (case noted of None \<Rightarrow> True
     | Some ts \<Rightarrow> (case x of None \<Rightarrow> False
       | Some x \<Rightarrow> timer_C x \<or> (case timer_due x of None \<Rightarrow> False | Some d \<Rightarrow> d < ts + (B + 1) * 1000000)))"

lemma in_time_None [simp]: "in_time B None x"
  by (simp add: in_time_def)

lemma in_time_fire: "Timer_fire now x = Some y \<Longrightarrow> in_time B noted (Some y)"
  by (auto simp: in_time_def Timer_fire_def split: option.split Option.bind_splits if_splits)

definition sampling :: "int \<Rightarrow> 'd timedLoop \<Rightarrow> bool" where
  "sampling B t \<longleftrightarrow> samples_ok B (tl_loop t)
     \<and> (tl_pc t \<in> {AtReset, AtResetPing, AtSelect} \<longrightarrow> tagged (tl_loop t))
     \<and> (tl_pc t = AtSelect \<longrightarrow> rp_node (rl_period (tl_loop t)) \<noteq> NodeHashZero \<longrightarrow> in_time B (sent t) (tl_pingTimeout t))"

lemma timeout_bound:
  assumes "bounded_quantile q" and "samples_ok B r"
  shows "pingTimeout del q r d \<le> B * 1000000"
proof -
  have "rl_samples r \<noteq> [] \<Longrightarrow> q (rl_samples r) \<le> B" using assms by (auto simp: bounded_quantile_def samples_ok_def)
  with assms(2) show ?thesis by (auto simp: pingTimeout_def samples_ok_def)
qed

lemma sdiv_bound: "0 \<le> B \<Longrightarrow> x < (B + 1) * c \<Longrightarrow> 0 < c \<Longrightarrow> x sdiv c \<le> (B :: int)"
proof -
  assume *: "0 \<le> B" "x < (B + 1) * c" "0 < c"
  show ?thesis
  proof (cases "x < 0")
    case True
    have "0 \<le> (- x) div c" using True *(3) by (simp add: pos_imp_zdiv_nonneg_iff)
    with True * show ?thesis by (simp add: signed_divide_int_def)
  next
    case False
    have "x div c * c \<le> x" using *(3) by (simp add: minus_mod_eq_div_mult [symmetric])
    then have "\<not> B + 1 \<le> x div c" using *(2, 3) mult_right_mono [of "B + 1" "x div c" c] by linarith
    with False * show ?thesis by (cases "x = 0") (simp_all add: signed_divide_int_def)
  qed
qed

text \<open>What the statements of a period do to the samples and to the time of its ping.\<close>

lemma startPeriod_samples:
  assumes "startPeriod del rnd now r d = Some (r', d')"
  shows "rl_samples r' = rl_samples r" and "rl_adaptivePings r' = rl_adaptivePings r" and "tagged r'"
  using assms
  by (auto simp: startPeriod_def registerSentPing_def makeCookie_def tagged_def Let_def split: prod.splits option.splits Option.bind_splits if_splits)

lemma endPeriod_samples:
  "endPeriod del r d = Some (r', d') \<Longrightarrow> rl_samples r' = rl_samples r \<and> rl_adaptivePings r' = rl_adaptivePings r"
  by (auto simp: endPeriod_def Let_def split: Option.bind_splits if_splits)

lemma pingIndirect_samples:
  "pingIndirect del r d = Some (r', d') \<Longrightarrow> rl_samples r' = rl_samples r \<and> rl_adaptivePings r' = rl_adaptivePings r
    \<and> (rl_adaptivePings r \<longrightarrow> pingTimestamps r' = (pingTimestamps r)(rp_periodHash (rl_period r) := None))"
  by (auto simp: pingIndirect_def Let_def split: if_splits option.splits Option.bind_splits)

lemma handleMessage_samples:
  assumes "tagged r" and "rp_node (rl_period r) \<noteq> NodeHashZero" and "r' = handleMessage now pkt r"
  defines "h \<equiv> rp_periodHash (rl_period r)"
  shows "rl_adaptivePings r' = rl_adaptivePings r
    \<and> (rl_samples r' = rl_samples r \<and> pingTimestamps r' = pingTimestamps r
       \<or> (\<exists>ts. pingTimestamps r h = Some ts \<and> rl_samples r' = rl_samples r @ [(now - ts) sdiv 1000000] \<and> pingTimestamps r' = (pingTimestamps r)(h := None)))"
  using assms
  by (auto simp: handleMessage_def registerReceivedPong_def tagged_def Let_def split: option.splits Message.splits if_splits)

lemma samples_message:
  assumes "samples_ok B r" and "0 \<le> B" and "tagged r" and "rp_node (rl_period r) \<noteq> NodeHashZero"
    and "\<And>ts. pingTimestamps r (rp_periodHash (rl_period r)) = Some ts \<Longrightarrow> now < ts + (B + 1) * 1000000"
  shows "samples_ok B (handleMessage now pkt r)"
proof -
  have "(now - ts) sdiv 1000000 \<le> B" if "pingTimestamps r (rp_periodHash (rl_period r)) = Some ts" for ts
    using assms(5) [OF that] by (intro sdiv_bound [OF assms(2)]) auto
  with handleMessage_samples [OF assms(3, 4) refl, of now pkt] assms(1) show ?thesis
    by (auto simp: samples_ok_def handleMessage_period)
qed

lemma sampling_ping:
  assumes "sampling B t" and "tl_pc t = AtSelect" and "waitPeriod del [PingTimeoutFired] (tl_loop t) (tl_delegate t) = Some (r', d')"
  shows "samples_ok B r' \<and> tagged r' \<and> (rp_node (rl_period r') \<noteq> NodeHashZero \<longrightarrow> pingTimestamps r' (rp_periodHash (rl_period r')) = None)"
proof (cases "rp_node (rl_period (tl_loop t)) = NodeHashZero")
  case False
  with assms(3) have "pingIndirect del (tl_loop t) (tl_delegate t) = Some (r', d')" by (auto split: Option.bind_splits)
  from pingIndirect_samples [OF this] pingIndirect_period [OF this] assms(1, 2) show ?thesis by (auto simp: sampling_def samples_ok_def tagged_def)
qed (use assms in \<open>auto simp: sampling_def\<close>)

lemma sampling_message:
  assumes "sampling B t" and "0 \<le> B" and "tl_pc t = AtSelect" and "prompt TakesMessage t" and "r' = handleMessage (tl_now t) msg (tl_loop t)"
  shows "samples_ok B r' \<and> tagged r' \<and> rp_periodHash (rl_period r') = rp_periodHash (rl_period (tl_loop t))
    \<and> rp_node (rl_period r') = rp_node (rl_period (tl_loop t)) \<and> (pingTimestamps r' (rp_periodHash (rl_period r')) = None
       \<or> pingTimestamps r' (rp_periodHash (rl_period r')) = sent t)"
proof -
  have node: "rp_node (rl_period (tl_loop t)) \<noteq> NodeHashZero" and tag: "tagged (tl_loop t)" and ok: "samples_ok B (tl_loop t)"
    using assms(1, 3, 4) by (auto simp: prompt_def sampling_def Let_def)
  have "tl_now t < ts + (B + 1) * 1000000" if "sent t = Some ts" for ts
    using that assms(1, 3, 4) node by (auto simp: prompt_def sampling_def in_time_def Let_def split: option.splits)
  from samples_message [OF ok assms(2) tag node this, of msg] handleMessage_samples [OF tag node assms(5)] tag show ?thesis
    by (auto simp: assms(5) handleMessage_period tagged_def)
qed

lemma sampling_step:
  assumes "bounded_quantile q" and "0 \<le> B" and "timers_ok t" and "sampling B t" and "prompt_step del q l t = Some t'"
  shows "sampling B t'"
proof -
  have step: "tl_step del q l t = Some t'" and prompt: "prompt l t" using assms(5) by (auto simp: prompt_step_def split: if_splits)
  show ?thesis
  proof (cases l)
    case (TimePasses n)
    with step assms(4) show ?thesis by (auto simp: sampling_def)
  next
    case PingTimerFires
    with step assms(4) show ?thesis by (auto simp: sampling_def in_time_fire split: Option.bind_splits)
  next
    case (MessageArrives pkt)
    with step assms(4) show ?thesis by (auto simp: sampling_def split: if_splits)
  next
    case (StartsPeriod n)
    with step assms(4) show ?thesis
      by (auto simp: sampling_def proceed_def samples_ok_def dest: startPeriod_samples split: if_splits option.splits)
  next
    case ResetsPing
    let ?d = "pingTimeout del q (tl_loop t) (tl_delegate t)"
    have "samples_ok B (tl_loop t)" using assms(4) by (simp add: sampling_def)
    then have "?d \<le> B * 1000000" by (rule timeout_bound [OF assms(1)])
    moreover have "tl_pc t = AtResetPing" "t' = (resetPingTimeout ?d t)\<lparr>tl_pc := AtSelect\<rparr>" using ResetsPing step by (auto split: if_splits)
    ultimately show ?thesis using ResetsPing prompt assms(3, 4)
      by (auto simp: sampling_def in_time_def prompt_def timers_ok_def resetPingTimeout_due Let_def split: option.splits)
  next
    case TakesPing
    with step assms(4) sampling_ping [OF assms(4), of del] show ?thesis
      by (auto simp: sampling_def proceed_def simp del: waitPeriod.simps split: if_splits option.splits Option.bind_splits)
  next
    case TakesMessage
    then obtain msg where "tl_pc t = AtSelect" "t' = t\<lparr>tl_incoming := tl (tl_incoming t), tl_loop := handleMessage (tl_now t) msg (tl_loop t), tl_pc := AtSelect\<rparr>"
      using step by (auto simp: proceed_def split: if_splits list.splits)
    with sampling_message [OF assms(4, 2) _ _ refl, of msg] prompt TakesMessage assms(4) show ?thesis
      by (auto simp: sampling_def)
  next
    case EndsPeriod
    with step assms(4) show ?thesis
      by (auto simp: sampling_def proceed_def samples_ok_def dest: endPeriod_samples split: if_splits option.splits)
  qed (use step assms(4) in \<open>auto simp: sampling_def split: if_splits Option.bind_splits\<close>)
qed

text \<open>C19: the adaptive timeout does not grow while the loop is prompt. Let \<open>B\<close> milliseconds bound the round trips sampled so far, or half a period if there is none
  yet. In every run in which the loop takes no message once the timeout of the ping is due, resets that timer within a millisecond after it has noted the time of the
  ping, and gets messages only in periods that probe a node, all later samples are within \<open>B\<close>, and so is the timeout of every ping: handling a timeout forgets the
  time of its ping, so an answer that arrives later is not sampled. When the network becomes slower the timeout follows only through answers that a loop which
  is late takes before the timeout.\<close>

theorem adaptive_timeout_never_rises:
  assumes "bounded_quantile q" and "0 \<le> B" and "timers_ok s" and "tl_pc s = AtStart" and "rl_adaptivePings (tl_loop s)"
    and "\<forall>x \<in> set (rl_samples (tl_loop s)). x \<le> B" and "rl_samples (tl_loop s) = [] \<longrightarrow> duration s sdiv 2 \<le> B * 1000000"
    and "run (prompt_step del q) ls s = Some t"
  shows "(\<forall>x \<in> set (rl_samples (tl_loop t)). x \<le> B) \<and> pingTimeout del q (tl_loop t) (tl_delegate t) \<le> B * 1000000"
proof -
  have "timers_ok t \<and> sampling B t"
  proof (rule run_invariant [OF _ _ assms(8)])
    fix l and u u' :: "'a timedLoop"
    assume "timers_ok u \<and> sampling B u" "prompt_step del q l u = Some u'"
    then show "timers_ok u' \<and> sampling B u'"
      using sampling_step [OF assms(1, 2), of u del l u'] timers_step [of u del q l u'] by (auto simp: prompt_step_def split: if_splits)
  qed (use assms(3-7) in \<open>auto simp: sampling_def samples_ok_def\<close>)
  then have "samples_ok B (tl_loop t)" by (simp add: sampling_def)
  with timeout_bound [OF assms(1) this] show ?thesis by (simp add: samples_ok_def)
qed

text \<open>A period in which the answer takes three milliseconds.\<close>

definition sampledPeriod :: "timed_label list" where
  "sampledPeriod = [StartsPeriod 7, ResetsTimer, ResetsPing, TimePasses 3000000, MessageArrives (Pkt 3 (MPong \<lparr>pong_Ack = True, pong_Cookie = 7, pong_Period = 1,
     pong_IsLastStateKnown = False, pong_LastKnownEventKind = 0, pong_LastKnownIncarnation = 0\<rparr>)), TakesMessage, TimePasses 1997000000, TimerFires, TakesTimer, LeavesWait, EndsPeriod]"

theorem adaptive_timeout_never_rises_witness:
  "\<exists>t. run (prompt_step (recorder probedNode) (\<lambda>xs. Max (set xs))) sampledPeriod (NewTimedLoop 0 (NewRunLoop 2000000000 1400 True 0) []) = Some t
    \<and> rl_samples (tl_loop t) = [3]
    \<and> (\<forall>x \<in> set (rl_samples (tl_loop t)). x \<le> 1000) \<and> pingTimeout (recorder probedNode) (\<lambda>xs. Max (set xs)) (tl_loop t) (tl_delegate t) \<le> 1000 * 1000000"
proof -
  let ?s = "NewTimedLoop 0 (NewRunLoop 2000000000 1400 True 0) []" and ?q = "\<lambda>xs. Max (set xs) :: int"
  have hash: "Hash probedNode \<noteq> NodeHashZero" 
    by (simp add: Hash_def IntoHash_def IP_Bytes_def IP_Size_def AddressKind_Size_def AddrFromSlice_def numeral_eq_Suc)
  have run: "\<exists>t. run (prompt_step (recorder probedNode) ?q) sampledPeriod ?s = Some t \<and> rl_samples (tl_loop t) = [3]"
    using hash by (simp add: sampledPeriod_def prompt_step_def prompt_def NewTimedLoop_def recorder_def NewRunLoop_def startPeriod_def makeCookie_def registerSentPing_def
      registerReceivedPong_def Pkt_def handleMessage_def endPeriod_def unsafeIncrementID_def pingTimeout_def timed_defs signed_divide_int_def Let_def)
  then obtain t where t: "run (prompt_step (recorder probedNode) ?q) sampledPeriod ?s = Some t" "rl_samples (tl_loop t) = [3]" by blast
  have "bounded_quantile ?q" by (simp add: bounded_quantile_def)
  from adaptive_timeout_never_rises [OF this _ _ _ _ _ _ t(1), of 1000] t show ?thesis
    by (auto simp: NewTimedLoop_def NewRunLoop_def timers_ok_def outstanding_def signed_divide_int_def)
qed

end
