(* ===== verification/Member_Races.thy ===== *)
theory Member_Races
  imports Node_Manager
begin

text \<open>
  The locking of the member list (\<open>internal/core/node_list.go\<close>). \<open>Add\<close>, \<open>Bootstrap\<close> and \<open>Delete\<close> hold the mutex
  until they return, but \<open>MarkStable\<close>, \<open>MarkSuspect\<close> and \<open>MarkFaulty\<close> release it in the line after they took it, so
  the rest of their bodies runs while other goroutines use the list: the run loop marks members while the
  UDP and TCP goroutines add them. Here a mark is a goroutine that moves from one access of the shared maps
  to the next; the operations that hold the mutex are single steps of \<open>nl_step\<close>. The write of the
  suspect flag goes to a node that no map holds at that time and is part of the last access. The relation \<open>race_step\<close> takes
  each access as one step. It describes the runs in which no two uses of a map overlap; \<open>use_step\<close> has the
  beginning and the end of every use as steps of their own, and aborts the process when conflicting uses overlap.

  The locale \<open>slot_local\<close> is what makes operations on different members independent: such an operation reads and
  writes the entries of one key only.
\<close>

subsection \<open>A mark as a goroutine\<close>

datatype mark_kind = ToStable | ToSuspect u16 bool | ToFaulty

datatype mark_pc =
    ReadType
  | ReadMap NodeType
  | DropMap NodeType Node
  | DropType Node
  | PutType Node
  | PutMap Node
  | MarkReturned

fun already :: "mark_kind \<Rightarrow> NodeType \<Rightarrow> bool" where
  "already ToStable currentState = (currentState = NodeTypeStable)"
| "already (ToSuspect period remote) currentState = (currentState = NodeTypeSuspect)"
| "already ToFaulty currentState = False"

definition putType :: "mark_kind \<Rightarrow> NodeHash \<Rightarrow> nodeList \<Rightarrow> nodeList" where
  "putType kind hash n = (case kind of
     ToStable \<Rightarrow> n\<lparr>nodeByType := (nodeByType n)(hash \<mapsto> NodeTypeStable)\<rparr>
   | ToSuspect period remote \<Rightarrow> n\<lparr>nodeByType := (nodeByType n)(hash \<mapsto> NodeTypeSuspect)\<rparr>
   | ToFaulty \<Rightarrow> n)"

definition putMap :: "mark_kind \<Rightarrow> NodeHash \<Rightarrow> Node \<Rightarrow> nodeList \<Rightarrow> nodeList" where
  "putMap kind hash node n = (case kind of
     ToStable \<Rightarrow> n\<lparr>stable := (stable n)(hash \<mapsto> node\<lparr>n_Suspect := False\<rparr>)\<rparr>
   | ToSuspect period remote \<Rightarrow> n\<lparr>suspects := (suspects n)(hash \<mapsto>
       \<lparr>sn_Node = node\<lparr>n_Suspect := True\<rparr>, SuspectAtPeriod = period, FromRemote = remote\<rparr>)\<rparr>
   | ToFaulty \<Rightarrow> n)"

text \<open>One access: where the goroutine is afterwards, and the list.\<close>

fun mark_step :: "mark_kind \<Rightarrow> NodeHash \<Rightarrow> mark_pc \<Rightarrow> nodeList \<Rightarrow> (mark_pc \<times> nodeList) option" where
  "mark_step kind hash ReadType n = Some (case nodeByType n hash of None \<Rightarrow> MarkReturned
     | Some currentState \<Rightarrow> if already kind currentState then MarkReturned else ReadMap currentState, n)"
| "mark_step kind hash (ReadMap source) n = Some (
     if source = NodeTypeStable then (case stable n hash of None \<Rightarrow> MarkReturned | Some node \<Rightarrow> DropMap source node)
     else if source = NodeTypeSuspect then (case suspects n hash of None \<Rightarrow> MarkReturned | Some s \<Rightarrow> DropMap source (sn_Node s))
     else MarkReturned, n)"
| "mark_step kind hash (DropMap source node) n = Some (DropType node,
     if source = NodeTypeStable then n\<lparr>stable := (stable n)(hash := None)\<rparr> else n\<lparr>suspects := (suspects n)(hash := None)\<rparr>)"
| "mark_step kind hash (DropType node) n = Some (case kind of ToFaulty \<Rightarrow> MarkReturned | _ \<Rightarrow> PutType node,
     n\<lparr>nodeByType := (nodeByType n)(hash := None)\<rparr>)"
| "mark_step kind hash (PutType node) n = Some (PutMap node, putType kind hash n)"
| "mark_step kind hash (PutMap node) n = Some (MarkReturned, putMap kind hash node n)"
| "mark_step kind hash MarkReturned n = None"









subsection \<open>Operations on one key\<close>

text \<open>What the three maps hold under a key, and putting other entries there.\<close>

definition slot :: "NodeHash \<Rightarrow> nodeList \<Rightarrow> NodeType option \<times> Node option \<times> SuspectNode option" where
  "slot h n = (nodeByType n h, stable n h, suspects n h)"

definition set_slots :: "NodeHash set \<Rightarrow> nodeList \<Rightarrow> nodeList \<Rightarrow> nodeList" where
  "set_slots H m n = n\<lparr>nodeByType := override_on (nodeByType n) (nodeByType m) H,
     stable := override_on (stable n) (stable m) H, suspects := override_on (suspects n) (suspects m) H\<rparr>"

lemma slot_set_slots [simp]: "slot h (set_slots H m n) = (if h \<in> H then slot h m else slot h n)"
  "selfAddr (set_slots H m n) = selfAddr n"
  by (simp_all add: slot_def set_slots_def override_on_def)










subsection \<open>Marks that run beside other operations\<close>

record mark =
  mk_kind :: mark_kind
  mk_hash :: NodeHash
  mk_pc :: mark_pc

datatype race_label = Access nat | Holding nl_op

text \<open>The operations that hold the mutex, in read or write mode, until they return; \<open>OIncarnation\<close> is a single write.\<close>

fun holds_mutex :: "nl_op \<Rightarrow> bool" where
  "holds_mutex (OMarkStable h) = False"
| "holds_mutex (OMarkSuspect p r h) = False"
| "holds_mutex (OMarkFaulty h) = False"
| "holds_mutex op = True"

inductive race_step :: "race_label \<Rightarrow> nodeList \<times> mark list \<Rightarrow> nodeList \<times> mark list \<Rightarrow> bool" where
  race_Access: "i < length ms \<Longrightarrow> mark_step (mk_kind (ms ! i)) (mk_hash (ms ! i)) (mk_pc (ms ! i)) n = Some (pc, n') \<Longrightarrow>
    race_step (Access i) (n, ms) (n', ms[i := (ms ! i)\<lparr>mk_pc := pc\<rparr>])"
| race_Holding: "holds_mutex op \<Longrightarrow> nl_step op n n' \<Longrightarrow> race_step (Holding op) (n, ms) (n', ms)"






subsection \<open>Marks of distinct members are linearizable\<close>















text \<open>Runs of a single goroutine that suspects a stable member: four accesses take the member away, two file it again.\<close>

abbreviation suspecting :: "u16 \<Rightarrow> NodeHash \<Rightarrow> mark_pc \<Rightarrow> mark" where
  "suspecting p h pc \<equiv> \<lparr>mk_kind = ToSuspect p False, mk_hash = h, mk_pc = pc\<rparr>"

abbreviation withdrawn :: "NodeHash \<Rightarrow> nodeList \<Rightarrow> nodeList" where
  "withdrawn h n \<equiv> n\<lparr>stable := (stable n)(h := None), nodeByType := (nodeByType n)(h := None)\<rparr>"

abbreviation suspected :: "u16 \<Rightarrow> NodeHash \<Rightarrow> Node \<Rightarrow> nodeList \<Rightarrow> nodeList" where
  "suspected p h v n \<equiv> n\<lparr>nodeByType := (nodeByType n)(h \<mapsto> NodeTypeSuspect),
     suspects := (suspects n)(h \<mapsto> \<lparr>sn_Node = v\<lparr>n_Suspect := True\<rparr>, SuspectAtPeriod = p, FromRemote = False\<rparr>)\<rparr>"

lemma access_one:
  "mark_step (ToSuspect p False) h pc n = Some (pc', n') \<Longrightarrow> race_step (Access 0) (n, [suspecting p h pc]) (n', [suspecting p h pc'])"
  using race_Access [of 0 "[suspecting p h pc]" n pc' n'] by simp

lemma suspect_withdraws:
  assumes "nodeByType n h = Some NodeTypeStable" and "stable n h = Some v"
  shows "trace race_step (n, [suspecting p h ReadType]) [Access 0, Access 0, Access 0, Access 0] (withdrawn h n, [suspecting p h (PutType v)])"
proof -
  have "race_step (Access 0) (n, [suspecting p h ReadType]) (n, [suspecting p h (ReadMap 1)])"
    "race_step (Access 0) (n, [suspecting p h (ReadMap 1)]) (n, [suspecting p h (DropMap 1 v)])"
    "race_step (Access 0) (n, [suspecting p h (DropMap 1 v)]) (n\<lparr>stable := (stable n)(h := None)\<rparr>, [suspecting p h (DropType v)])"
    "race_step (Access 0) (n\<lparr>stable := (stable n)(h := None)\<rparr>, [suspecting p h (DropType v)]) (withdrawn h n, [suspecting p h (PutType v)])"
    using assms by (auto intro!: access_one)
  then show ?thesis by (blast intro: trace.intros)
qed

lemma suspect_files:
  "trace race_step (n, [suspecting p h (PutType v)]) [Access 0, Access 0] (suspected p h v n, [suspecting p h MarkReturned])"
proof -
  have "race_step (Access 0) (n, [suspecting p h (PutType v)])
      (n\<lparr>nodeByType := (nodeByType n)(h \<mapsto> NodeTypeSuspect)\<rparr>, [suspecting p h (PutMap v)])"
    "race_step (Access 0) (n\<lparr>nodeByType := (nodeByType n)(h \<mapsto> NodeTypeSuspect)\<rparr>, [suspecting p h (PutMap v)])
      (suspected p h v n, [suspecting p h MarkReturned])"
    by (auto intro!: access_one simp: putType_def putMap_def)
  then show ?thesis by (blast intro: trace.intros)
qed

text \<open>The mark, with an operation that holds the mutex between the two halves.\<close>

abbreviation interrupted :: "nl_op \<Rightarrow> race_label list" where
  "interrupted op \<equiv> [Access 0, Access 0, Access 0, Access 0, Holding op, Access 0, Access 0]"

lemma interrupted_run:
  assumes "nodeByType n h = Some NodeTypeStable" and "stable n h = Some v" and "nl_step op (withdrawn h n) n'" and "holds_mutex op"
  shows "trace race_step (n, [suspecting p h ReadType]) (interrupted op) (suspected p h v n', [suspecting p h MarkReturned])"
proof -
  have "trace race_step (withdrawn h n, [suspecting p h (PutType v)]) [Holding op, Access 0, Access 0]
      (suspected p h v n', [suspecting p h MarkReturned])"
    using race_Holding [OF assms(4, 3)] suspect_files by (rule trace_Cons)
  with suspect_withdraws [OF assms(1, 2)] have "trace race_step (n, [suspecting p h ReadType])
      ([Access 0, Access 0, Access 0, Access 0] @ [Holding op, Access 0, Access 0]) (suspected p h v n', [suspecting p h MarkReturned])"
    unfolding trace_append by blast
  then show ?thesis by simp
qed

subsection \<open>Overlapping uses of the maps\<close>
































subsection \<open>A mark that races with an addition\<close>

text \<open>C21: marks are not safe beside an operation on the same member. Let the run loop suspect a stable member while another
  goroutine adds the same member, as it does for an \<open>Alive\<close> that finds the member withdrawn: the member ends up both
  stable and suspect, so the three maps disagree. When the suspicion expires, \<open>MarkFaulty\<close> removes the suspect
  entry only. The stable one stays: no lookup finds it, and no operation but another \<open>Add\<close> changes it. The run is one in which
  no uses of the maps overlap (lemma \<open>race_bracketed\<close>), so that the process is not aborted before.\<close>

theorem racing_mark_leaves_ghost:
  assumes "nl_cons n" and "stable n (Hash w) = Some v" and "\<not> n_Suspect w" and "n_Address w \<noteq> selfAddr n"
  defines "h \<equiv> Hash w"
  shows "\<exists>n'. trace race_step (n, [\<lparr>mk_kind = ToSuspect p False, mk_hash = h, mk_pc = ReadType\<rparr>])
        [Access 0, Access 0, Access 0, Access 0, Holding (OAdd q w), Access 0, Access 0]
        (n', [\<lparr>mk_kind = ToSuspect p False, mk_hash = h, mk_pc = MarkReturned\<rparr>])
      \<and> stable n' h = Some w \<and> suspects n' h \<noteq> None \<and> \<not> nl_cons n'
      \<and> (let g = MarkFaulty h n' in stable g h = Some w \<and> NodeByHash h g = None
          \<and> MarkStable h g = g \<and> MarkSuspect q' r h g = g \<and> MarkFaulty h g = g \<and> Delete h g = g)"
proof -
  have maps: "nodeByType n h = Some NodeTypeStable" "stable n h = Some v" "suspects n h = None"
    using nl_cons_cases [OF assms(1), of h] assms(2) unfolding h_def by auto
  let ?n = "suspected p h v (Add q w (withdrawn h n))"
  have both: "stable ?n h = Some w" "suspects ?n h \<noteq> None" "nodeByType ?n h = Some NodeTypeSuspect"
    using assms(3, 4) by (auto simp: nl_op_defs h_def Let_def)
  then have "\<not> nl_cons ?n" by (auto simp: nl_cons_def)
  moreover have "let g = MarkFaulty h ?n in stable g h = Some w \<and> NodeByHash h g = None
      \<and> MarkStable h g = g \<and> MarkSuspect q' r h g = g \<and> MarkFaulty h g = g \<and> Delete h g = g"
    using both by (auto simp: nl_op_defs NodeByHash_def Let_def)
  ultimately show ?thesis
    using interrupted_run [OF maps(1, 2) nl_Add, of q w p] both(1, 2) by (intro exI [of _ ?n]) simp
qed

theorem racing_mark_leaves_ghost_witness:
  "\<exists>n'. stable n' (hostHash 2) = Some (host False 6 2) \<and> suspects n' (hostHash 2) \<noteq> None \<and> \<not> nl_cons n'
    \<and> NodeByHash (hostHash 2) (MarkFaulty (hostHash 2) n') = None \<and> stable (MarkFaulty (hostHash 2) n') (hostHash 2) \<noteq> None"
proof -
  let ?n = "put (hostHash 2) (Some (MStable (host False 5 2))) (NewNodeList (hostIP 1))"
  have "nl_cons ?n" "stable ?n (Hash (host False 6 2)) = Some (host False 5 2)" "n_Address (host False 6 2) \<noteq> selfAddr ?n"
    by (simp_all add: nl_cons_put nl_cons_new put_selfAddr) (simp add: put_def)
  from racing_mark_leaves_ghost [OF this(1, 2) _ this(3), of 1 2 3 True] show ?thesis by (auto simp: Let_def)
qed

end
