(* ===== verification/Containers.thy ===== *)
theory Containers
  imports Transition_System
begin

text \<open>
  \<open>internal/containers\<close>: the pairs and triples, the typed wrapper of \<open>sync.Map\<close>, and the helpers on slices and
  channels. A \<open>sync.Map\<close> is a map; its operations are atomic, as the standard library promises. \<open>zero\<close> is the zero
  value of the element type, which Go returns in a result that was not assigned. \<open>CompareAndSwap\<close> and
  \<open>CompareAndDelete\<close> are modelled for comparable values, the only ones \<open>sync.Map\<close> allows there.

  A slice is a view of an array that other slices may share, so it is modelled with the array. A
  channel is its buffer and whether it was closed.
\<close>

subsection \<open>Pairs and triples\<close>

record ('t, 'u, 'v) Triple =
  tri_First :: 't
  tri_Second :: 'u
  tri_Third :: 'v

definition Tri :: "'t \<Rightarrow> 'u \<Rightarrow> 'v \<Rightarrow> ('t, 'u, 'v) Triple" where
  "Tri first second third = \<lparr>tri_First = first, tri_Second = second, tri_Third = third\<rparr>"

definition Triple_Decompose :: "('t, 'u, 'v) Triple \<Rightarrow> 't \<times> 'u \<times> 'v" where
  "Triple_Decompose t = (tri_First t, tri_Second t, tri_Third t)"

record ('t, 'u) Tuple =
  tup_First :: 't
  tup_Second :: 'u

definition Tup :: "'t \<Rightarrow> 'u \<Rightarrow> ('t, 'u) Tuple" where
  "Tup first second = \<lparr>tup_First = first, tup_Second = second\<rparr>"

definition Tuple_Decompose :: "('t, 'u) Tuple \<Rightarrow> 't \<times> 'u" where
  "Tuple_Decompose t = (tup_First t, tup_Second t)"

lemma Decompose_Tri: "Triple_Decompose (Tri a b c) = (a, b, c)" "Tuple_Decompose (Tup a b) = (a, b)"
  by (simp_all add: Tri_def Triple_Decompose_def Tup_def Tuple_Decompose_def)

subsection \<open>The typed map\<close>

record ('k, 'v) SyncMap =
  inner :: "'k \<rightharpoonup> 'v"

definition SyncMap_Load :: "'v \<Rightarrow> 'k \<Rightarrow> ('k, 'v) SyncMap \<Rightarrow> 'v \<times> bool" where
  "SyncMap_Load zero key s = (case inner s key of None \<Rightarrow> (zero, False) | Some v \<Rightarrow> (v, True))"

definition SyncMap_Store :: "'k \<Rightarrow> 'v \<Rightarrow> ('k, 'v) SyncMap \<Rightarrow> ('k, 'v) SyncMap" where
  "SyncMap_Store key val s = s\<lparr>inner := (inner s)(key \<mapsto> val)\<rparr>"

text \<open>\<open>actual\<close> is assigned only when the value was loaded.\<close>

definition SyncMap_LoadOrStore :: "'v \<Rightarrow> 'k \<Rightarrow> 'v \<Rightarrow> ('k, 'v) SyncMap \<Rightarrow> ('v \<times> bool) \<times> ('k, 'v) SyncMap" where
  "SyncMap_LoadOrStore zero key val s = (case inner s key of
     Some v \<Rightarrow> ((v, True), s)
   | None \<Rightarrow> ((zero, False), s\<lparr>inner := (inner s)(key \<mapsto> val)\<rparr>))"

definition SyncMap_LoadAndDelete :: "'v \<Rightarrow> 'k \<Rightarrow> ('k, 'v) SyncMap \<Rightarrow> ('v \<times> bool) \<times> ('k, 'v) SyncMap" where
  "SyncMap_LoadAndDelete zero key s = (case inner s key of
     None \<Rightarrow> ((zero, False), s)
   | Some v \<Rightarrow> ((v, True), s\<lparr>inner := (inner s)(key := None)\<rparr>))"

definition SyncMap_Delete :: "'k \<Rightarrow> ('k, 'v) SyncMap \<Rightarrow> ('k, 'v) SyncMap" where
  "SyncMap_Delete key s = s\<lparr>inner := (inner s)(key := None)\<rparr>"

definition SyncMap_Swap :: "'v \<Rightarrow> 'k \<Rightarrow> 'v \<Rightarrow> ('k, 'v) SyncMap \<Rightarrow> ('v \<times> bool) \<times> ('k, 'v) SyncMap" where
  "SyncMap_Swap zero key val s =
     ((case inner s key of None \<Rightarrow> (zero, False) | Some v \<Rightarrow> (v, True)), s\<lparr>inner := (inner s)(key \<mapsto> val)\<rparr>)"

definition SyncMap_CompareAndSwap :: "'k \<Rightarrow> 'v \<Rightarrow> 'v \<Rightarrow> ('k, 'v) SyncMap \<Rightarrow> bool \<times> ('k, 'v) SyncMap" where
  "SyncMap_CompareAndSwap key old new s =
     (if inner s key = Some old then (True, s\<lparr>inner := (inner s)(key \<mapsto> new)\<rparr>) else (False, s))"

definition SyncMap_CompareAndDelete :: "'k \<Rightarrow> 'v \<Rightarrow> ('k, 'v) SyncMap \<Rightarrow> bool \<times> ('k, 'v) SyncMap" where
  "SyncMap_CompareAndDelete key old s =
     (if inner s key = Some old then (True, s\<lparr>inner := (inner s)(key := None)\<rparr>) else (False, s))"

text \<open>The keys are visited in an order of the map's choice; a key that is gone is skipped.\<close>

fun SyncMap_Range :: "('s \<Rightarrow> 'k \<Rightarrow> 'v \<Rightarrow> bool \<times> 's) \<Rightarrow> 'k list \<Rightarrow> ('k, 'v) SyncMap \<Rightarrow> 's \<Rightarrow> 's" where
  "SyncMap_Range f [] m s = s"
| "SyncMap_Range f (k # ks) m s = (case inner m k of None \<Rightarrow> SyncMap_Range f ks m s
     | Some v \<Rightarrow> (let (go, s) = f s k v in if go then SyncMap_Range f ks m s else s))"

text \<open>The operations as steps. \<open>Took k v\<close> is a \<open>LoadAndDelete k\<close> that loaded \<open>v\<close>.\<close>

datatype ('k, 'v) map_op = Stored 'k 'v | Took 'k 'v | TookNothing 'k | Deleted 'k

inductive map_step :: "('k, 'v) map_op \<Rightarrow> ('k, 'v) SyncMap \<Rightarrow> ('k, 'v) SyncMap \<Rightarrow> bool" where
  map_Store: "map_step (Stored k v) s (SyncMap_Store k v s)"
| map_Took: "SyncMap_LoadAndDelete zero k s = ((v, True), s') \<Longrightarrow> map_step (Took k v) s s'"
| map_TookNothing: "SyncMap_LoadAndDelete zero k s = ((v, False), s') \<Longrightarrow> map_step (TookNothing k) s s'"
| map_Delete: "map_step (Deleted k) s (SyncMap_Delete k s)"

inductive_cases map_stepE: "map_step l s s'"

text \<open>How often \<open>k\<close> was stored and taken.\<close>

definition stores :: "'k \<Rightarrow> ('k, 'v) map_op list \<Rightarrow> nat" where
  "stores k ls = length (filter (\<lambda>l. \<exists>v. l = Stored k v) ls)"

definition takes :: "'k \<Rightarrow> ('k, 'v) map_op list \<Rightarrow> nat" where
  "takes k ls = length (filter (\<lambda>l. \<exists>v. l = Took k v) ls)"

text \<open>The contract of a registry of callbacks: what is taken was stored before, and taking forgets it.\<close>

locale registry =
  fixes C :: "('k, 'v) map_op \<Rightarrow> 's \<Rightarrow> 's \<Rightarrow> bool"
    and look :: "'s \<Rightarrow> 'k \<rightharpoonup> 'v"
  assumes stored: "C (Stored k v) s t \<Longrightarrow> look t = (look s)(k \<mapsto> v)"
    and took: "C (Took k v) s t \<Longrightarrow> look s k = Some v \<and> look t = (look s)(k := None)"
    and took_nothing: "C (TookNothing k) s t \<Longrightarrow> look s k = None \<and> look t = look s"
    and deleted: "C (Deleted k) s t \<Longrightarrow> look t = (look s)(k := None)"
begin

lemma takes_bounded:
  "trace C s ls t \<Longrightarrow> takes k ls + (if look t k = None then 0 else 1) \<le> stores k ls + (if look s k = None then 0 else 1)"
proof (induction rule: trace.induct)
  case (trace_Cons l s t ls u)
  then show ?case
    by (cases l) (auto simp: takes_def stores_def dest!: stored took took_nothing deleted split: if_splits)
qed (simp add: takes_def stores_def)

lemma taken_was_stored:
  "trace C s ls t \<Longrightarrow> Took k v \<in> set ls \<Longrightarrow> look s k = Some v \<or> Stored k v \<in> set ls"
proof (induction rule: trace.induct)
  case (trace_Cons l s t ls u)
  then show ?case
    by (cases l) (auto dest!: stored took took_nothing deleted split: if_splits)
qed simp

end

interpretation sync_map: registry map_step inner
  by unfold_locales
    (auto elim!: map_stepE simp: SyncMap_Store_def SyncMap_LoadAndDelete_def SyncMap_Delete_def split: option.splits)

text \<open>A callback registered in the typed map runs at most once for each time it was stored, whatever the order of
  the operations: \<open>LoadAndDelete\<close> hands a key out no more often than it was stored, and hands out only
  values that were stored under it.\<close>

lemma callback_taken_once:
  assumes "trace map_step \<lparr>inner = Map.empty\<rparr> ls t"
  shows "takes k ls \<le> stores k ls \<and> (\<forall>v. Took k v \<in> set ls \<longrightarrow> Stored k v \<in> set ls)"
  using sync_map.takes_bounded [OF assms, of k] sync_map.taken_was_stored [OF assms, of k] by auto

lemma callback_taken_once_witness:
  "takes (7 :: nat) [Stored 7 True, Took 7 True, TookNothing 7] \<le> stores (7 :: nat) [Stored 7 True, Took 7 True, TookNothing 7]"
proof -
  let ?e = "\<lparr>inner = Map.empty\<rparr> :: (nat, bool) SyncMap" and ?s = "\<lparr>inner = [7 \<mapsto> True]\<rparr> :: (nat, bool) SyncMap"
  have "map_step (Stored 7 True) ?e ?s" "map_step (Took 7 True) ?s ?e" "map_step (TookNothing 7) ?e ?e"
    using map_Store [of 7 True ?e] map_Took [of True 7 ?s True ?e] map_TookNothing [of True 7 ?e True ?e]
    by (simp_all add: SyncMap_Store_def SyncMap_LoadAndDelete_def)
  then have "trace map_step ?e [Stored 7 True, Took 7 True, TookNothing 7] ?e" by (blast intro: trace.intros)
  from callback_taken_once [OF this, of 7] show ?thesis by simp
qed

text \<open>\<open>LoadOrStore\<close> returns the zero value when it stores, where \<open>sync.Map\<close> returns the stored one.\<close>

lemma LoadOrStore_returns_zero:
  "inner s k = None \<Longrightarrow> fst (SyncMap_LoadOrStore zero k v s) = (zero, False)"
  by (simp add: SyncMap_LoadOrStore_def)

subsection \<open>Slices\<close>

text \<open>The part of the array from the first element of the slice to the end of its capacity, and the length.\<close>

record 'a slice =
  sl_array :: "'a list"
  sl_len :: nat

abbreviation sl_cap :: "'a slice \<Rightarrow> nat" where
  "sl_cap s \<equiv> length (sl_array s)"

definition contents :: "'a slice \<Rightarrow> 'a list" where
  "contents s = take (sl_len s) (sl_array s)"

definition slice_ok :: "'a slice \<Rightarrow> bool" where
  "slice_ok s \<longleftrightarrow> sl_len s \<le> sl_cap s"

text \<open>\<open>append\<close>: in place when the capacity allows, and then the array changes under every slice that shares it;
  otherwise into a new array, whose spare elements \<open>spare\<close> the runtime chooses. The value is the new
  slice and the old array.\<close>

definition go_append :: "'a list \<Rightarrow> 'a slice \<Rightarrow> 'a list \<Rightarrow> 'a slice \<times> 'a list" where
  "go_append spare s ys = (let n = sl_len s + length ys in
     if n \<le> sl_cap s
     then let a = take (sl_len s) (sl_array s) @ ys @ drop n (sl_array s) in (\<lparr>sl_array = a, sl_len = n\<rparr>, a)
     else (\<lparr>sl_array = contents s @ ys @ spare, sl_len = n\<rparr>, sl_array s))"

text \<open>\<open>base[:pos]\<close> is allowed up to the capacity, \<open>base[pos:]\<close> up to the length. The value is the result and the slice
  \<open>base\<close> of the caller afterwards; \<open>None\<close> is a panic.\<close>

definition InsertAt :: "'a list \<Rightarrow> 'a slice \<Rightarrow> 'a \<Rightarrow> int \<Rightarrow> ('a slice \<times> 'a slice) option" where
  "InsertAt spare base item pos =
     (if pos < 0 \<or> int (sl_cap base) < pos then None
      else if int (sl_len base) < pos then None
      else let tail = item # drop (nat pos) (contents base);
               (result, a) = go_append spare (base\<lparr>sl_len := nat pos\<rparr>) tail
           in Some (result, base\<lparr>sl_array := a\<rparr>))"

definition AllMatch :: "'a list \<Rightarrow> ('a \<Rightarrow> bool) \<Rightarrow> bool" where
  "AllMatch base matcher = foldr (\<lambda>v rest. if \<not> matcher v then False else rest) base True"

definition MapFn :: "'a list \<Rightarrow> ('a \<Rightarrow> 'b) \<Rightarrow> 'b list" where
  "MapFn xs fn = foldl (\<lambda>res item. res @ [fn item]) [] xs"

definition StrMapper :: "('a \<Rightarrow> string) \<Rightarrow> 'a list \<Rightarrow> string list" where
  "StrMapper str xs = MapFn xs str"

lemma AllMatch_all: "AllMatch base matcher = list_all matcher base"
  by (induction base) (auto simp: AllMatch_def)

lemma MapFn_map: "MapFn xs fn = map fn xs"
proof -
  have "foldl (\<lambda>res item. res @ [fn item]) acc xs = acc @ map fn xs" for acc
    by (induction xs arbitrary: acc) auto
  then show ?thesis by (simp add: MapFn_def)
qed

text \<open>\<open>InsertAt\<close> panics exactly outside the slice, and otherwise returns the elements with the new one before position
  \<open>pos\<close>. When the array has room, it is shifted in place: the caller's slice then shows the
  beginning of the result instead of its own elements.\<close>

lemma InsertAt_panics: "slice_ok base \<Longrightarrow> InsertAt spare base item pos = None \<longleftrightarrow> pos < 0 \<or> int (sl_len base) < pos"
  by (auto simp: InsertAt_def slice_ok_def Let_def split_beta)

lemma InsertAt_result:
  assumes "slice_ok base" and "InsertAt spare base item pos = Some (result, base')"
  shows "slice_ok result \<and> contents result = take (nat pos) (contents base) @ item # drop (nat pos) (contents base)
    \<and> contents base' = (if sl_len base < sl_cap base then take (sl_len base) (contents result) else contents base)"
  using assms
  by (auto simp: InsertAt_def go_append_def slice_ok_def contents_def Let_def min_def Suc_diff_le split: if_splits)

subsection \<open>Channels\<close>

record 'a channel =
  ch_buffer :: "'a list"
  ch_closed :: bool

text \<open>A receive that can proceed: from the buffer, or the zero value of a closed channel.\<close>

definition try_recv :: "'a channel \<Rightarrow> 'a channel option" where
  "try_recv ch = (case ch_buffer ch of _ # xs \<Rightarrow> Some (ch\<lparr>ch_buffer := xs\<rparr>)
     | [] \<Rightarrow> if ch_closed ch then Some ch else None)"

partial_function (option) DrainChan :: "'a channel \<Rightarrow> 'a channel option" where
  "DrainChan ch = (case try_recv ch of None \<Rightarrow> Some ch | Some ch' \<Rightarrow> DrainChan ch')"

lemma DrainChan_returns_open:
  assumes ret: "DrainChan ch = Some ch'" shows "\<not> ch_closed ch"
proof (rule DrainChan.raw_induct [where P = "\<lambda>ch ch'. \<not> ch_closed ch", OF _ ret])
  fix f :: "'a channel \<Rightarrow> 'a channel option" and ch ch'
  assume "\<And>ch ch'. f ch = Some ch' \<Longrightarrow> \<not> ch_closed ch"
    and "(case try_recv ch of None \<Rightarrow> Some ch | Some x \<Rightarrow> f x) = Some ch'"
  then show "\<not> ch_closed ch" by (fastforce simp: try_recv_def split: option.splits list.splits if_splits)
qed

text \<open>\<open>DrainChan\<close> empties a channel nobody else sends on, and never returns on a closed one.\<close>

lemma DrainChan_spec: "DrainChan ch = (if ch_closed ch then None else Some (ch\<lparr>ch_buffer := []\<rparr>))"
proof (cases "ch_closed ch")
  case False
  have "\<not> ch_closed ch \<Longrightarrow> ch_buffer ch = xs \<Longrightarrow> DrainChan ch = Some (ch\<lparr>ch_buffer := []\<rparr>)" for xs
    by (induction xs arbitrary: ch) (subst DrainChan.simps, simp add: try_recv_def)+
  with False show ?thesis by simp
qed (use DrainChan_returns_open in fastforce)

end
