(* ===== verification/Stringers.thy ===== *)
theory Stringers
  imports Node_List
begin

text \<open>
  How the enumerations and the decoder errors print: the generated \<open>String\<close> methods of
  \<open>opcode_string.go\<close>, \<open>eventkind_string.go\<close>, \<open>addresskind_string.go\<close>, \<open>syncmode_string.go\<close> and \<open>nodetype_string.go\<close>, and the \<open>Error\<close>
  methods of \<open>internal/proto/error.go\<close>. A slice expression out of range is a panic, \<open>None\<close>.

  The locale \<open>enum_names\<close> is the contract of a stringer: a name for some values, the type's name with the number for all
  others. Its lemma shows that no two values print alike; each \<open>String\<close> method interprets it.
\<close>

subsection \<open>Formatting\<close>

definition digit :: "nat \<Rightarrow> char" where
  "digit n = ''0123456789abcdef'' ! n"

text \<open>\<open>strconv.FormatInt\<close> of a number that is not negative, to base ten.\<close>

fun FormatInt :: "nat \<Rightarrow> string" where
  "FormatInt n = (if n < 10 then [digit n] else FormatInt (n div 10) @ [digit (n mod 10)])"

declare FormatInt.simps [simp del]

text \<open>The value of a string of decimal digits.\<close>

definition char_value :: "char \<Rightarrow> nat" where
  "char_value c = of_char c - 48"

definition ParseInt :: "string \<Rightarrow> nat" where
  "ParseInt s = foldl (\<lambda>acc c. acc * 10 + char_value c) 0 s"

lemma char_value_digit: "n < 10 \<Longrightarrow> char_value (digit n) = n"
proof -
  have "\<forall>n \<in> set [0..<10]. char_value (digit n) = n" by code_simp
  then show "n < 10 \<Longrightarrow> char_value (digit n) = n" by simp
qed

lemma ParseInt_FormatInt: "ParseInt (FormatInt n) = n"
proof (induction n rule: FormatInt.induct)
  case (1 n)
  then show ?case
    by (subst FormatInt.simps) (auto simp: ParseInt_def char_value_digit)
qed

lemma FormatInt_inj: "FormatInt n = FormatInt m \<longleftrightarrow> n = m"
  by (metis ParseInt_FormatInt)

definition go_slice :: "'a list \<Rightarrow> nat \<Rightarrow> nat \<Rightarrow> 'a list option" where
  "go_slice s i j = (if i \<le> j \<and> j \<le> length s then Some (take (j - i) (drop i s)) else None)"

subsection \<open>The generated methods\<close>

definition OpCode_name :: string where "OpCode_name = ''BTRPBTRRBTRAPINGPONGIINGIONGSYNC''"

definition OpCode_index :: "nat list" where "OpCode_index = [0, 4, 8, 12, 16, 20, 24, 28, 32]"

definition OpCode_String :: "OpCode \<Rightarrow> string option" where
  "OpCode_String i = (let i = i - 1 in
     if unat i \<ge> length OpCode_index - 1 then Some (''OpCode('' @ FormatInt (unat (i + 1)) @ '')'')
     else go_slice OpCode_name (OpCode_index ! unat i) (OpCode_index ! (unat i + 1)))"

definition EventKind_name :: string where
  "EventKind_name = ''EventJoinEventHealthyEventSuspectEventFaultyEventLeftEventAliveEventWrap''"

definition EventKind_index :: "nat list" where "EventKind_index = [0, 9, 21, 33, 44, 53, 63, 72]"

definition EventKind_String :: "EventKind \<Rightarrow> string option" where
  "EventKind_String i =
     (if unat i \<ge> length EventKind_index - 1 then Some (''EventKind('' @ FormatInt (unat i) @ '')'')
     else go_slice EventKind_name (EventKind_index ! unat i) (EventKind_index ! (unat i + 1)))"

definition AddressKind_name :: string where "AddressKind_name = ''AddressIPv4AddressIPv6''"

definition AddressKind_index :: "nat list" where "AddressKind_index = [0, 11, 22]"

definition AddressKind_String :: "AddressKind \<Rightarrow> string option" where
  "AddressKind_String i =
     (if unat i \<ge> length AddressKind_index - 1 then Some (''AddressKind('' @ FormatInt (unat i) @ '')'')
     else go_slice AddressKind_name (AddressKind_index ! unat i) (AddressKind_index ! (unat i + 1)))"

definition SyncMode_name :: string where
  "SyncMode_name = ''SyncModeFirstPhaseSyncModeSecondPhaseSyncModeBootstrapSyncModeBootstrapAck''"

definition SyncMode_index :: "nat list" where "SyncMode_index = [0, 18, 37, 54, 74]"

definition SyncMode_String :: "SyncMode \<Rightarrow> string option" where
  "SyncMode_String i =
     (if unat i \<ge> length SyncMode_index - 1 then Some (''SyncMode('' @ FormatInt (unat i) @ '')'')
     else go_slice SyncMode_name (SyncMode_index ! unat i) (SyncMode_index ! (unat i + 1)))"

definition NodeType_name_0 :: string where "NodeType_name_0 = ''NodeTypeInvalidNodeTypeStableNodeTypeSuspect''"

definition NodeType_name_1 :: string where "NodeType_name_1 = ''NodeTypeRemote''"

definition NodeType_index_0 :: "nat list" where "NodeType_index_0 = [0, 15, 29, 44]"

definition NodeType_String :: "NodeType \<Rightarrow> string option" where
  "NodeType_String i =
     (if i \<le> 2 then go_slice NodeType_name_0 (NodeType_index_0 ! unat i) (NodeType_index_0 ! (unat i + 1))
      else if i = 4 then Some NodeType_name_1
      else Some (''NodeType('' @ FormatInt (unat i) @ '')''))"

subsection \<open>No two values print alike\<close>

locale enum_names =
  fixes str :: "byte \<Rightarrow> string option"
    and table :: "(nat \<times> string) list"
    and tname :: string
  assumes str: "str i = (case map_of table (unat i) of Some x \<Rightarrow> Some x | None \<Rightarrow> Some (tname @ ''('' @ FormatInt (unat i) @ '')''))"
    and keys: "distinct (map fst table)"
    and names: "distinct (map snd table)"
    and name_end: "list_all (\<lambda>(n, x). last x \<noteq> CHR '')'') table"
begin

lemma total: "str i \<noteq> None"
  by (simp add: str split: option.split)

lemma table_end: "map_of table n = Some x \<Longrightarrow> last x \<noteq> CHR '')''"
  using name_end by (auto simp: list_all_iff dest: map_of_SomeD)

lemma table_inj:
  assumes "map_of table n = Some x" and "map_of table m = Some x" shows "n = m"
proof -
  have "(n, x) \<in> set table" "(m, x) \<in> set table" using assms by (auto dest: map_of_SomeD)
  then show ?thesis using names by (auto simp: in_set_conv_nth distinct_conv_nth) (metis prod.inject snd_conv)
qed

lemma injective: "str i = str j \<longleftrightarrow> i = j"
proof
  assume same: "str i = str j"
  have "unat i = unat j"
  proof (cases "map_of table (unat i)"; cases "map_of table (unat j)")
    fix x y
    assume "map_of table (unat i) = Some x" "map_of table (unat j) = Some y"
    with same table_inj show ?thesis by (simp add: str)
  qed (use same in \<open>auto simp: str FormatInt_inj dest!: table_end\<close>)
  then show "i = j" by (simp add: word_unat_eq_iff)
qed simp

end

text \<open>The constants of each enumeration with their names.\<close>

abbreviation OpCode_table :: "(nat \<times> string) list" where
  "OpCode_table \<equiv> [(1, ''BTRP''), (2, ''BTRR''), (3, ''BTRA''), (4, ''PING''), (5, ''PONG''), (6, ''IING''), (7, ''IONG''), (8, ''SYNC'')]"

abbreviation EventKind_table :: "(nat \<times> string) list" where
  "EventKind_table \<equiv> [(0, ''EventJoin''), (1, ''EventHealthy''), (2, ''EventSuspect''), (3, ''EventFaulty''), (4, ''EventLeft''),
     (5, ''EventAlive''), (6, ''EventWrap'')]"

abbreviation AddressKind_table :: "(nat \<times> string) list" where
  "AddressKind_table \<equiv> [(0, ''AddressIPv4''), (1, ''AddressIPv6'')]"

abbreviation SyncMode_table :: "(nat \<times> string) list" where
  "SyncMode_table \<equiv> [(0, ''SyncModeFirstPhase''), (1, ''SyncModeSecondPhase''), (2, ''SyncModeBootstrap''), (3, ''SyncModeBootstrapAck'')]"

abbreviation NodeType_table :: "(nat \<times> string) list" where
  "NodeType_table \<equiv> [(0, ''NodeTypeInvalid''), (1, ''NodeTypeStable''), (2, ''NodeTypeSuspect''), (4, ''NodeTypeRemote'')]"

lemma below:
  "n < 8 \<longleftrightarrow> n = 0 \<or> n = 1 \<or> n = 2 \<or> n = 3 \<or> n = 4 \<or> n = 5 \<or> n = 6 \<or> n = (7 :: nat)"
  "n < 7 \<longleftrightarrow> n = 0 \<or> n = 1 \<or> n = 2 \<or> n = 3 \<or> n = 4 \<or> n = 5 \<or> n = (6 :: nat)"
  "n < 4 \<longleftrightarrow> n = 0 \<or> n = 1 \<or> n = 2 \<or> n = (3 :: nat)"
  by arith+

interpretation event_kind: enum_names EventKind_String EventKind_table "''EventKind''"
proof
  fix i
  show "EventKind_String i = (case map_of EventKind_table (unat i) of Some x \<Rightarrow> Some x
      | None \<Rightarrow> Some (''EventKind'' @ ''('' @ FormatInt (unat i) @ '')''))"
    by (cases "unat i < 7") (auto simp: below EventKind_String_def EventKind_index_def EventKind_name_def go_slice_def)
qed simp_all

interpretation address_kind: enum_names AddressKind_String AddressKind_table "''AddressKind''"
proof
  fix i
  show "AddressKind_String i = (case map_of AddressKind_table (unat i) of Some x \<Rightarrow> Some x
      | None \<Rightarrow> Some (''AddressKind'' @ ''('' @ FormatInt (unat i) @ '')''))"
    by (cases "unat i < 2") (auto simp: less_2_cases_iff AddressKind_String_def AddressKind_index_def AddressKind_name_def go_slice_def)
qed simp_all

interpretation sync_mode: enum_names SyncMode_String SyncMode_table "''SyncMode''"
proof
  fix i
  show "SyncMode_String i = (case map_of SyncMode_table (unat i) of Some x \<Rightarrow> Some x
      | None \<Rightarrow> Some (''SyncMode'' @ ''('' @ FormatInt (unat i) @ '')''))"
    by (cases "unat i < 4") (auto simp: below SyncMode_String_def SyncMode_index_def SyncMode_name_def go_slice_def)
qed simp_all

interpretation node_type: enum_names NodeType_String NodeType_table "''NodeType''"
proof
  fix i :: byte
  have "i \<le> 2 \<longleftrightarrow> unat i = 0 \<or> unat i = 1 \<or> unat i = 2" by (auto simp: word_le_nat_alt)
  then show "NodeType_String i = (case map_of NodeType_table (unat i) of Some x \<Rightarrow> Some x
      | None \<Rightarrow> Some (''NodeType'' @ ''('' @ FormatInt (unat i) @ '')''))"
    by (auto simp: NodeType_String_def NodeType_index_0_def NodeType_name_0_def NodeType_name_1_def go_slice_def word_unat_eq_iff)
qed simp_all

text \<open>The predecessor of 0 is 255, so the shift of \<open>OpCode.String\<close> does no harm.\<close>

interpretation op_code: enum_names OpCode_String OpCode_table "''OpCode''"
proof
  fix i :: byte
  have i: "unat i = (unat (i - 1) + 1) mod 256"
    using unat_word_ariths(1) [of "i - 1" 1] by simp
  have "unat (i - 1) < 256" using unsigned_less [of "i - 1"] by simp
  then show "OpCode_String i = (case map_of OpCode_table (unat i) of Some x \<Rightarrow> Some x
      | None \<Rightarrow> Some (''OpCode'' @ ''('' @ FormatInt (unat i) @ '')''))"
    by (cases "unat (i - 1) < 8"; cases "unat (i - 1) = 255")
      (auto simp: i below OpCode_String_def OpCode_index_def OpCode_name_def go_slice_def)
qed simp_all

text \<open>The \<open>String\<close> methods of the five enumerations, among them the names of operation codes and event kinds
  in the logs, never panic, and no two of the 256 values of an enumeration print alike.\<close>

lemma enum_strings_distinct:
  "OpCode_String i \<noteq> None \<and> EventKind_String i \<noteq> None \<and> AddressKind_String i \<noteq> None \<and> SyncMode_String i \<noteq> None \<and> NodeType_String i \<noteq> None
   \<and> (OpCode_String i = OpCode_String j \<longleftrightarrow> i = j) \<and> (EventKind_String i = EventKind_String j \<longleftrightarrow> i = j)
   \<and> (AddressKind_String i = AddressKind_String j \<longleftrightarrow> i = j) \<and> (SyncMode_String i = SyncMode_String j \<longleftrightarrow> i = j)
   \<and> (NodeType_String i = NodeType_String j \<longleftrightarrow> i = j)"
  using op_code.total event_kind.total address_kind.total sync_mode.total node_type.total
    op_code.injective event_kind.injective address_kind.injective sync_mode.injective node_type.injective
  by blast

subsection \<open>The errors of the decoders\<close>

text \<open>The verb \<open>%02x\<close>: two digits of a byte, but the digits of every character when the operand has a \<open>String\<close> method, as
  \<open>OpCode\<close> has; \<open>fmt\<close> then formats that string.\<close>

definition hex_byte :: "nat \<Rightarrow> string" where
  "hex_byte n = [digit (n div 16), digit (n mod 16)]"

definition hex_string :: "string \<Rightarrow> string" where
  "hex_string s = concat (map (\<lambda>c. hex_byte (of_char c)) s)"

definition NoDecoderError_Error :: "OpCode \<Rightarrow> string option" where
  "NoDecoderError_Error op = do {
     name \<leftarrow> OpCode_String op;
     Some (''No decoder available for OpCode 0x'' @ hex_string name @ '' ('' @ name @ '')'')
   }"

definition NoEventDecoderError_Error :: "byte \<Rightarrow> string" where
  "NoEventDecoderError_Error DecoderID = ''No event decoder available for event type 0x'' @ hex_byte (unat DecoderID)"

text \<open>The text for a message without decoder shows the letters of its name in place of its code, here 9.\<close>

lemma NoDecoderError_text:
  "NoDecoderError_Error 9 = Some ''No decoder available for OpCode 0x4f70436f6465283929 (OpCode(9))''"
  "NoEventDecoderError_Error 9 = ''No event decoder available for event type 0x09''"
  by code_simp+

end
