(* ===== verification/Net_Addresses.thy ===== *)
theory Net_Addresses
  imports Multicast_Listener
begin

text \<open>
  The rest of \<open>internal/iputil/ip_list.go\<close> and the address constructors of \<open>internal/proto/base.go\<close>. What the operating system
  reports of the interfaces (\<open>net.InterfaceAddrs\<close>) is an argument: the text of an error, or a list of addresses, of which some are not
  networks. \<open>None\<close> is a panic.
\<close>

datatype interfaceAddr = IPNet NetIP | OtherAddr

text \<open>\<open>[16]byte(s)\<close> panics when the slice is shorter.\<close>

definition AddrFrom16 :: "byte list \<Rightarrow> Addr option" where
  "AddrFrom16 s = (if length s < 16 then None else Some (Addr6 (take 16 s)))"

fun LocalAddresses_loop :: "interfaceAddr list \<Rightarrow> Addr list \<Rightarrow> Addr list option" where
  "LocalAddresses_loop [] addrIPs = Some addrIPs"
| "LocalAddresses_loop (OtherAddr # vs) addrIPs = LocalAddresses_loop vs addrIPs"
| "LocalAddresses_loop (IPNet ip # vs) addrIPs = do {
     a \<leftarrow> (case To4 ip of Some ip4 \<Rightarrow> Some (Addr4 ip4) | None \<Rightarrow> AddrFrom16 (To16 ip));
     LocalAddresses_loop vs (addrIPs @ [a])
   }"

definition LocalAddresses :: "string + interfaceAddr list \<Rightarrow> (string + Addr list) option" where
  "LocalAddresses interfaces = (case interfaces of Inl err \<Rightarrow> Some (Inl (''listing interface addresses: '' @ err))
     | Inr addrs \<Rightarrow> map_option Inr (LocalAddresses_loop addrs []))"

text \<open>The test constructors.\<close>

definition ipV4 :: "byte list \<Rightarrow> IP option" where
  "ipV4 data = (if length data \<noteq> 4 then None
     else Some \<lparr>AddressKind = AddressIPv4, AddressBytes = go_copy (replicate 16 0) data\<rparr>)"

definition ipV6 :: "byte list \<Rightarrow> IP option" where
  "ipV6 data = (if length data \<noteq> 16 then None
     else Some \<lparr>AddressKind = AddressIPv6, AddressBytes = go_copy (replicate 16 0) data\<rparr>)"

lemma ipV4_bytes: "ipV4 data = Some i \<Longrightarrow> typedIP i \<and> IP_Bytes i = data"
  by (auto simp: ipV4_def typedIP_def IP_Bytes_def IP_Size_def go_copy_def AddressKind_Size_def split: if_splits)

lemma ipV6_bytes: "ipV6 data = Some i \<Longrightarrow> typedIP i \<and> IP_Bytes i = data"
  by (auto simp: ipV6_def typedIP_def IP_Bytes_def IP_Size_def go_copy_def AddressKind_Size_def split: if_splits)

subsection \<open>The host recognises its own datagrams\<close>

text \<open>An address in the form in which a socket reports it as a source: four bytes for IPv4.\<close>

definition source_form :: "NetIP \<Rightarrow> NetIP" where
  "source_form ip = (case To4 ip of Some ip4 \<Rightarrow> ip4 | None \<Rightarrow> ip)"

abbreviation net_form :: "interfaceAddr \<Rightarrow> Addr option" where
  "net_form v \<equiv> (case v of OtherAddr \<Rightarrow> None | IPNet ip \<Rightarrow> Some (AddrFromSlice (source_form ip)))"

abbreviation well_sized :: "interfaceAddr \<Rightarrow> bool" where
  "well_sized v \<equiv> (case v of OtherAddr \<Rightarrow> True | IPNet ip \<Rightarrow> length ip = 4 \<or> length ip = 16)"

lemma LocalAddresses_loop_spec:
  "list_all well_sized vs \<Longrightarrow> LocalAddresses_loop vs acc = Some (acc @ List.map_filter net_form vs)"
proof (induction vs acc rule: LocalAddresses_loop.induct)
  case (3 ip vs acc)
  then have "(case To4 ip of Some ip4 \<Rightarrow> Some (Addr4 ip4) | None \<Rightarrow> AddrFrom16 (To16 ip)) = Some (AddrFromSlice (source_form ip))"
    by (auto simp: To4_def To16_def source_form_def AddrFromSlice_def AddrFrom16_def)
  with 3 show ?case by simp
qed simp_all

text \<open>A host ignores its own multicasts. When every interface address has four or sixteen bytes, \<open>LocalAddresses\<close> does not
  panic, and the multicast listener drops every datagram whose source is one of them, in the form sockets report it.\<close>

lemma own_datagrams_dropped:
  assumes "list_all (\<lambda>v. case v of OtherAddr \<Rightarrow> True | IPNet ip \<Rightarrow> length ip = 4 \<or> length ip = 16) addrs" and "IPNet ip \<in> set addrs"
  shows "\<exists>localIPs. LocalAddresses (Inr addrs) = Some (Inr localIPs)
    \<and> Listen_datagram localIPs onData i data (source_form ip) m = m\<lparr>m_pc := McRead i\<rparr>"
proof -
  have "AddrFromSlice (source_form ip) \<in> set (List.map_filter net_form addrs)"
    using assms(2) by (force simp: set_map_filter_eq)
  then show ?thesis
    using LocalAddresses_loop_spec [OF assms(1), of "[]"]
    by (auto simp: LocalAddresses_def Listen_datagram_def IPList_Contains_def slices_Index_missing)
qed

lemma own_datagrams_dropped_witness:
  "\<forall>m. \<exists>localIPs. LocalAddresses (Inr [OtherAddr, IPNet (v4InV6Prefix @ [10, 0, 0, 1])]) = Some (Inr localIPs)
    \<and> Listen_datagram localIPs (\<lambda>_ _ d. Some d) 0 [202, 254] [10, 0, 0, 1] m = (m :: unit multicastCommunicator)\<lparr>m_pc := McRead 0\<rparr>"
proof -
  let ?ip = "v4InV6Prefix @ [10, 0, 0, 1]"
  have ok: "list_all (\<lambda>v. case v of OtherAddr \<Rightarrow> True | IPNet ip \<Rightarrow> length ip = 4 \<or> length ip = 16) [OtherAddr, IPNet ?ip]" "IPNet ?ip \<in> set [OtherAddr, IPNet ?ip]"
    by (simp_all add: v4InV6Prefix_def)
  have "source_form ?ip = [10, 0, 0, 1]" by (simp add: v4InV6Prefix_def source_form_def To4_def)
  with own_datagrams_dropped [OF ok, of "\<lambda>_ _ d. Some (d :: unit)" 0 "[202, 254]"] show ?thesis by simp
qed

end
