(* ===== verification/Command.thy ===== *)
theory Command
  imports Server_Facade
begin

text \<open>
  \<open>cmd/main.go\<close>, up to the start of the server: the options of the example command and what they make \<open>NewServer\<close> do. A
  result of \<open>None\<close> is a panic, of the command or of \<open>NewServer\<close>. What follows is a call of \<open>Start\<close>, the wait for a signal and a call of \<open>Shutdown\<close>, which
  \<open>Server_Lifecycle\<close> models.
\<close>

definition mainOptions :: Options where
  "mainOptions = \<lparr>IPv4Address = None, IPv6Address = None, IPv4MulticastAddress = ''224.0.0.244'', IPv6MulticastAddress = [],
     CryptoKey = [], InsecureDisableCrypto = True, o_IndirectPings = 0, ProtocolPeriod = 0, UseAdaptivePingTimeout = False,
     o_PingTimeout = 0, o_SuspectPeriods = 0, FullSyncProtocolRounds = 0, UDPMaxLength = 0, MaxEventTransmission = None\<rparr>"

text \<open>\<open>build\<close> is whether the logger could be built.\<close>

definition main_create :: "(bool \<Rightarrow> Addr option) \<Rightarrow> (int \<Rightarrow> int) \<Rightarrow> (string + Addr list)
    \<Rightarrow> (byte list \<Rightarrow> ((byte list \<Rightarrow> byte list \<Rightarrow> byte list) \<times> (byte list \<Rightarrow> byte list \<Rightarrow> byte list option)) option)
    \<Rightarrow> (IP \<Rightarrow> bool) \<Rightarrow> bool \<Rightarrow> server option" where
  "main_create findIP logTx localAddrs asconNew sockets build =
     (if \<not> build then None
      else do {
        r \<leftarrow> NewServer findIP logTx localAddrs asconNew sockets mainOptions;
        (case r of Inl err \<Rightarrow> None | Inr srv \<Rightarrow> Some srv)
      })"

text \<open>The command runs an IPv4 server without encryption, if the host has an IPv4 address, and never an IPv6 one. It
  panics exactly when the logger or the list of interfaces fails, or the sockets of its server.\<close>

lemma main_outcome:
  assumes "\<And>a. findIP False = Some a \<Longrightarrow> \<exists>ip. IPFromAddr a = Some ip"
  shows "main_create findIP logTx localAddrs asconNew sockets build =
    (if \<not> build \<or> isl localAddrs then None
     else case findIP False of None \<Rightarrow> Some \<lparr>v4Server = None, v6Server = None\<rparr>
       | Some a \<Rightarrow> (let ip = the (IPFromAddr a) in if sockets ip
           then Some \<lparr>v4Server = Some (newSwimServer ip \<lparr>enabled = False, aead_seal = \<lambda>_ x. x, aead_open = \<lambda>_ x. Some x\<rparr> 20 2 1000000000), v6Server = None\<rparr>
           else None))"
  using assms
  by (auto simp: main_create_def NewServer_def mainOptions_def Options_normalize_def withDefaults_def detect_def chooseFamily_def familyServer_def
      createSwimServer_def NewASCON_def signed_divide_int_def Let_def split: sum.split option.split)

end
