(* ===== verification/Spec2Isabelle.thy ===== *)
theory Spec2Isabelle
  imports Wire_Properties Server_Properties Exchange Server_Lifecycle Membership_Runs Period_Timing Member_Races Containers Stringers
    Net_Addresses Command
begin

text \<open>
  \<^bold>\<open>eswim\<close>, a Go library that implements the SWIM membership protocol with suspicion and gossip over UDP,
  bootstrap and full synchronisation over TCP, and discovery over multicast. This development models the
  library, bottom up, and proves what makes each part correct and what the parts achieve together. Paths
  are relative to \<open>src/\<close>.

  \<^bold>\<open>Parts of the program and the theories that model them.\<close>

  \<^item> \<open>Prelude\<close>: slices, copies, byte order and the lemmas the components share. \<open>Transition_System\<close>: traces of
    labelled steps, and the locales \<open>invariant\<close> and \<open>simulation\<close> that every component with a state
    interprets.
  \<^item> \<open>Fsm\<close> (\<open>internal/fsm\<close>): the byte-driven machine behind every decoder, with \<open>Drive\<close> for one value and
    \<open>DriveAll\<close> for a stream. The locale \<open>stream_decoder\<close> is the contract of a decoder that inverts an
    encoder, \<open>safe_decoder\<close> that of one no input can make panic.
  \<^item> \<open>Proto_Base\<close>, \<open>Proto_Node\<close>, \<open>Proto_Event\<close>, \<open>Proto_Message\<close>, \<open>Proto_Packet\<close> (\<open>internal/proto\<close>): addresses,
    the buffer writer, nodes, the seven events, the eight messages, packets and TCP frames, each with its
    encoder and its decoder. \<open>Event_Decoder\<close>, \<open>Message_Codec\<close> and \<open>Packet_Codec\<close> interpret the contracts for
    them, \<open>Wire_Properties\<close> states the results.
  \<^item> \<open>Invalidation\<close> (\<open>internal/proto/invalidation.go\<close>): when an event replaces another, against the table of its
    comments.
  \<^item> \<open>Node_List\<close>, \<open>Node_Manager\<close> (\<open>internal/core/node_list.go\<close>, \<open>node_manager.go\<close>): the member list, which
    refines one map of members, and the list of nodes to ping.
  \<^item> \<open>Gossip_Manager\<close> (\<open>internal/core/gossip_manager.go\<close>): the queue of events to piggyback.
  \<^item> \<open>Run_Loop\<close> (\<open>internal/core/runloop.go\<close>): protocol periods. The locale \<open>run_loop_delegate\<close> is its delegate
    interface.
  \<^item> \<open>Sync_Manager\<close> (\<open>internal/core/sync_manager.go\<close>): the exchanges over TCP. The locale \<open>sync_delegate\<close> is its
    delegate interface.
  \<^item> \<open>Ascon\<close> (\<open>internal/core/ascon.go\<close>): sealing and opening; the locale \<open>aead\<close> is what the cipher promises.
  \<^item> \<open>Swim_Server\<close>, \<open>Swim_Sync\<close> (\<open>swim_server.go\<close>): the server, which owns all of the above: its handlers for
    datagrams, multicasts and TCP packets, its processing of gossip, its implementation of the two
    delegates, and the bootstrap goroutine as a state machine. \<open>Server_Invariant\<close> interprets
    \<open>run_loop_delegate\<close> for it, \<open>Server_System\<close> interprets \<open>sync_delegate\<close> and assembles the transition system of
    the whole server, with \<open>possible\<close> for the inputs the Go runtime can hand to it and \<open>crashing\<close> for those it panics on; \<open>Server_Properties\<close>
    states what holds of it.
  \<^item> \<open>Exchange\<close>: two servers, where what one sends is what the other receives. \<open>Refutation\<close>: an accusation that travels to the
    accused and the Alive that travels back, among arbitrary other gossip.
  \<^item> \<open>Tcp_Client\<close> (\<open>internal/wire/tcp_control_client.go\<close>): writing and reading frames on a connection.
  \<^item> \<open>Server_Facade\<close> (\<open>options.go\<close>, \<open>server.go\<close>, \<open>internal/iputil\<close>): options, creation of the servers, the list
    of known nodes, the filter of the host's own addresses.
  \<^item> \<open>Goroutines\<close>: goroutines at the grain of their accesses to shared state; the locale \<open>stoppable\<close> is the contract between a
    goroutine and the code that stops it, interpreted four times. \<open>Sockets\<close>: what the listeners share.
    \<open>Udp_Listener\<close>, \<open>Multicast_Listener\<close>, \<open>Tcp_Listener\<close> (\<open>internal/wire\<close>) and \<open>Run_Loop_Control\<close> (\<open>internal/core/runloop.go\<close>) are step
    functions in which the goroutines of a part, the callers of its \<open>Shutdown\<close> and the operating system
    interleave. \<open>Server_Lifecycle\<close> (\<open>swim_server.go\<close>, \<open>server.go\<close>) puts them together around the system of
    \<open>Server_System\<close>, with \<open>Start\<close> and \<open>Shutdown\<close> of the server; there the UDP handler can be blocked on the channel of the run loop.
  \<^item> \<open>Failure_Detection\<close>: the run loop with the server as its delegate over many periods; \<open>period_effect\<close> is what one
    period does to the members and to the ping list. \<open>Membership_Runs\<close>: what every input of the whole server does to one member, and so what
    becomes of it in a run in which the steps of the loop interleave with all other inputs. \<open>Period_Timing\<close> (\<open>internal/core/runloop.go\<close>): the loop with its two timers, the channel of
    messages and the clock, in which every statement of \<open>waitPeriod\<close> is a step.
  \<^item> \<open>Member_Races\<close> (\<open>internal/core/node_list.go\<close>): the marks of the member list, which release its mutex at once, as goroutines
    that interleave access by access with the operations that hold it, and with the beginning and end of each use of a map as steps, where
    conflicting uses that overlap abort the process. The locale \<open>slot_local\<close> is what an operation on
    one member promises.
  \<^item> \<open>Containers\<close> (\<open>internal/containers\<close>): the typed map, with the locale \<open>registry\<close> for its use by the server, slices with the array they
    share, channels. \<open>Stringers\<close>: the generated \<open>String\<close> methods, which interpret the locale \<open>enum_names\<close>, and the texts of decoder
    errors. \<open>Net_Addresses\<close> (\<open>internal/iputil\<close>): the addresses of the host. \<open>Command\<close> (\<open>cmd/main.go\<close>): the example command up to the start of its server.

  \<^bold>\<open>How the model corresponds to the code.\<close> A Go struct is a record, an interface value a datatype of its
  implementations or a record of functions, \<open>uint8\<close>, \<open>uint16\<close> and \<open>uint32\<close> are words, so that counts and
  counters wrap as they do in Go; an \<open>int\<close> is an integer, since no value comes near its bounds. A method that changes its
  receiver returns the new one. A panic (an index out of range, a nil pointer, \<open>panic\<close> itself) is the result
  \<open>None\<close>; an error is a value of a sum or of the type of errors. Loops are recursive functions over what they
  consume. The loops that can run for ever within a turn, the write loop of a TCP client and \<open>DrainChan\<close>, are partial functions in
  the option type; no definition needs fuel. Goroutines, timers and channels are inputs and effects, except in the theories about them: \<open>handle\<close> is one turn of the
  server, an input what wakes it, \<open>sw_effects\<close> the list of what it hands to the network and to other
  goroutines. An exchange that waits for an answer is cut at the wait.

  \<^bold>\<open>Parameters.\<close> The order in which Go visits a map, the order \<open>slices.SortFunc\<close> leaves equal items in, the random
  sources, the clock, the cipher, the t-digest, the default address, the connection, the resolution of names and the answers of the operating system are arguments; the
  hypotheses \<open>sorts\<close>, \<open>enumerates\<close>, \<open>valid_env\<close>, \<open>aead\<close>, \<open>shares_key\<close>, \<open>nonces\<close>, \<open>bounded_quantile\<close> and \<open>progress\<close> say what the
  documentation of each promises, and concrete instances (\<open>sortedEnv\<close>, \<open>nonceEnv\<close>, \<open>xorWrapper\<close>) show that
  they can hold.

  \<^bold>\<open>What the theorems show.\<close>

  \<^item> The codec: packets and TCP streams survive the round trip, no datagram makes the parser panic, encoders
    fill exactly their buffers; and what one-byte counts, empty frames and delegate errors do.
  \<^item> The member list refines an abstract map; expiry, indirect candidates, updates, the round robin of
    pings and the incarnations of members behave as documented, and where they do not it is stated exactly.
  \<^item> The gossip queue keeps the strongest event per subject and fits the datagram; which events are
    never retired, and when the wrong one is removed.
  \<^item> A period ends with the verdict its answers justify. In runs of the whole server the failure detector is complete (a member of which nothing is heard is removed
    within a bound, if the period counter does not wrap on the way) and accurate (one that answers and that nobody accuses stays stable). The loop
    with real timers refines the periods and its waits end; the adaptive timeout of a loop that is not late does not exceed the slowest round trip it has seen.
  \<^item> Marks, which do not hold the mutex, either abort the process, when a use of a map overlaps with a conflicting one, or are linearizable if they concern
    distinct members; one that races with an addition of the same member leaves an entry that nothing removes.
  \<^item> In every reachable state the server panics exactly on the inputs \<open>crashing\<close> names: with a key, buffers shorter than a nonce and TCP packets that do not
    open. It handles all others; it refutes suspicions; a bootstrap merges the list of the acknowledged peer only, once.
  \<^item> Two servers: a probe is answered and acknowledged, an indirect probe is relayed, a full
    synchronisation spreads the membership both ways; an accusation reaches the accused on a ping, is refuted with the next
    incarnation, and the refutation on the next ping of the accused makes it stable again.
  \<^item> Starting and stopping: which listeners \<open>Shutdown\<close> stops in every interleaving and which it can miss, what it waits
    for and in which order, when it never returns, and when the UDP listener stays inside its handler for ever.

  \<^bold>\<open>Not modelled.\<close> The system calls behind sockets and the resolution of names (what they return is an input), the mutexes of the
  node manager and of the gossip queue (each handler runs to completion; \<open>listenerMu\<close> of the multicast listener and the mutex of the member list are
  accounted for), the memory model (shared variables are read and written one at a time, in some order, and uses of a map conflict if they overlap in
  time), the panics of a \<open>WaitGroup\<close> on an \<open>Add\<close> beside \<open>Wait\<close> or before a released \<open>Wait\<close> has returned, the capacity of the two channels of a TCP client, a
  timer of the Go runtimes before 1.23 between the moment it fires and its tick, two callers of \<open>Shutdown\<close> on one server, \<open>Start\<close> after \<open>Shutdown\<close> of a whole server, logging, the text of addresses (\<open>net/netip\<close>), the
  signals of the example command.
\<close>

text \<open>The callbacks of the server are such a registry: handling a pong takes the callback of its tag, and an indirect ping stores one.\<close>

lemma handlePong_takes:
  assumes "handlePong e pkt msg s = Some s'"
  shows "indirectPingCallbacks s' = inner (snd (SyncMap_LoadAndDelete zero (periodTag (pong_Cookie msg) (pong_Period msg)) \<lparr>inner = indirectPingCallbacks s\<rparr>))"
  using assms
  by (auto simp: handlePong_def SyncMap_LoadAndDelete_def incrementIncarnationToSurpass_def gossipAdd_def server_DispatchMessage_def emit_def Let_def
      split: if_splits option.splits Option.bind_splits prod.splits)

lemma performIndirectPing_stores:
  assumes "performIndirectPing e rnd period msg pkt s = Some s'"
  shows "indirectPingCallbacks s' = inner (SyncMap_Store (periodTag (word_of_nat rnd) period) (p_Source pkt, iping_Cookie msg, iping_Period msg)
    \<lparr>inner = indirectPingCallbacks s\<rparr>)"
  using assms
  by (auto simp: performIndirectPing_def SyncMap_Store_def server_DispatchMessage_def emit_def Let_def
      split: if_splits option.splits Option.bind_splits prod.splits)

end
